(* ===== verification/Prelude.thy ===== *)
theory Prelude
  imports
    Main
    "HOL-Library.Word"
    "HOL-Library.Char_ord"
    "HOL-Library.List_Lexorder"
    "HOL-Library.Product_Lexorder"
begin

text \<open>
  Shared vocabulary of the development: the machine types of the Go code, Go's error values
  (\<open>errors.New\<close>, \<open>fmt.Errorf\<close> with \<open>%w\<close>, \<open>errors.Join\<close>, \<open>errors.Is\<close>), the decimal and
  hexadecimal renderings that \<open>fmt\<close> produces, and the lemmas on lexicographic order that the
  text comparisons of SQLite rest on.
\<close>

section \<open>Machine types\<close>

type_synonym byte = "8 word"
type_synonym u32 = "32 word"
type_synonym i32 = "32 word"

text \<open>An \<open>i32\<close> is read with \<open>sint\<close>, a \<open>u32\<close> with \<open>uint\<close> or \<open>unat\<close>.\<close>

named_theorems model_defs
named_theorems table_simps

section \<open>Error values\<close>

text \<open>
  \<open>NewError\<close> is \<open>errors.New\<close> (and \<open>fmt.Errorf\<close> without \<open>%w\<close>), \<open>WrapError p e\<close> is
  \<open>fmt.Errorf("p: %w", e)\<close>, \<open>JoinError\<close> is the value \<open>errors.Join\<close> builds.
\<close>

datatype go_error =
    NewError string
  | WrapError string go_error
  | JoinError "go_error list"

type_synonym 'a result = "go_error + 'a"

fun errors_is :: "go_error \<Rightarrow> go_error \<Rightarrow> bool" where
  "errors_is (NewError s) t = (NewError s = t)"
| "errors_is (WrapError p e) t = (WrapError p e = t \<or> errors_is e t)"
| "errors_is (JoinError es) t = (JoinError es = t \<or> (\<exists>e \<in> set es. errors_is e t))"

text \<open>\<open>errors.Join\<close> drops nil errors and is nil when nothing is left.\<close>

definition errors_join :: "go_error option list \<Rightarrow> go_error option" where
  "errors_join es = (let js = [e. Some e \<leftarrow> es] in if js = [] then None else Some (JoinError js))"

lemma errors_join_None: "errors_join es = None \<longleftrightarrow> (\<forall>e \<in> set es. e = None)"
  by (induction es) (auto simp: errors_join_def Let_def split: option.splits)

fun join_lines :: "string list \<Rightarrow> string" where
  "join_lines [] = []"
| "join_lines [s] = s"
| "join_lines (s # t # ss) = s @ [CHR 0x0A] @ join_lines (t # ss)"

fun error_text :: "go_error \<Rightarrow> string" where
  "error_text (NewError s) = s"
| "error_text (WrapError p e) = p @ '': '' @ error_text e"
| "error_text (JoinError es) = join_lines (map error_text es)"

section \<open>Digits\<close>

definition digit_char :: "nat \<Rightarrow> char" where
  "digit_char n = ''0123456789'' ! n"

lemma of_char_digit_char [simp]: "n < 10 \<Longrightarrow> of_char (digit_char n) = 48 + n"
proof -
  assume "n < 10"
  then have "n \<in> {0, 1, 2, 3, 4, 5, 6, 7, 8, 9}" by auto
  then show ?thesis by (auto simp: digit_char_def)
qed

lemma digit_char_less_iff [simp]:
  "m < 10 \<Longrightarrow> n < 10 \<Longrightarrow> digit_char m < digit_char n \<longleftrightarrow> m < n"
  by (simp add: less_char_def)

lemma digit_char_eq_iff [simp]:
  "m < 10 \<Longrightarrow> n < 10 \<Longrightarrow> digit_char m = digit_char n \<longleftrightarrow> m = n"
  using of_char_digit_char by (metis add_left_cancel)

text \<open>\<open>dec_fixed w n\<close> is the \<open>w\<close>-digit, zero-padded decimal of \<open>n\<close> (\<open>%0wd\<close> for \<open>n < 10 ^ w\<close>).\<close>

fun dec_fixed :: "nat \<Rightarrow> nat \<Rightarrow> string" where
  "dec_fixed 0 n = []"
| "dec_fixed (Suc w) n = dec_fixed w (n div 10) @ [digit_char (n mod 10)]"

fun dec_nat :: "nat \<Rightarrow> string" where
  "dec_nat n = (if n < 10 then [digit_char n] else dec_nat (n div 10) @ [digit_char (n mod 10)])"

declare dec_nat.simps [simp del]

definition dec_int :: "int \<Rightarrow> string" where
  "dec_int i = (if i < 0 then ''-'' @ dec_nat (nat (- i)) else dec_nat (nat i))"

lemma length_dec_fixed [simp]: "length (dec_fixed w n) = w"
  by (induction w arbitrary: n) auto

lemma dec_nat_nonempty [simp]: "dec_nat n \<noteq> []"
  by (subst dec_nat.simps) simp

section \<open>Lexicographic order of byte strings\<close>

text \<open>
  SQLite compares \<open>TEXT\<close> columns byte by byte (the BINARY collation), a proper prefix being
  smaller. That is the order the library theories give to \<^typ>\<open>string\<close>.
\<close>

lemma lex_append_less:
  fixes xs :: "'a::linorder list"
  shows "length xs = length xs' \<Longrightarrow> xs @ ys < xs' @ ys' \<longleftrightarrow> xs < xs' \<or> (xs = xs' \<and> ys < ys')"
  by (induction xs xs' rule: list_induct2) auto

lemma lex_append_less_same [simp]:
  fixes xs :: "'a::linorder list"
  shows "xs @ ys < xs @ ys' \<longleftrightarrow> ys < ys'"
  by (induction xs) auto

lemma less_div10:
  fixes a b c d :: nat
  assumes "b < 10" "d < 10"
  shows "10 * a + b < 10 * c + d \<longleftrightarrow> a < c \<or> (a = c \<and> b < d)"
  using assms by linarith

lemma dec_fixed_less_iff:
  "m < 10 ^ w \<Longrightarrow> n < 10 ^ w \<Longrightarrow> dec_fixed w m < dec_fixed w n \<longleftrightarrow> m < n"
proof (induction w arbitrary: m n)
  case 0
  then show ?case by simp
next
  case (Suc w)
  from Suc.prems have div: "m div 10 < 10 ^ w" "n div 10 < 10 ^ w"
    by (auto simp: less_mult_imp_div_less mult.commute)
  have "dec_fixed w (m div 10) < dec_fixed w (n div 10) \<longleftrightarrow> m div 10 < n div 10"
    and "dec_fixed w (n div 10) < dec_fixed w (m div 10) \<longleftrightarrow> n div 10 < m div 10"
    using Suc.IH div by blast+
  then have eq: "dec_fixed w (m div 10) = dec_fixed w (n div 10) \<longleftrightarrow> m div 10 = n div 10"
    by (metis less_irrefl nat_neq_iff)
  have "m < n \<longleftrightarrow> m div 10 < n div 10 \<or> (m div 10 = n div 10 \<and> m mod 10 < n mod 10)"
    using less_div10 [of "m mod 10" "n mod 10" "m div 10" "n div 10"] by simp
  then show ?case
    by (simp add: lex_append_less Suc.IH [OF div] eq)
qed

lemma dec_fixed_eq_iff:
  "m < 10 ^ w \<Longrightarrow> n < 10 ^ w \<Longrightarrow> dec_fixed w m = dec_fixed w n \<longleftrightarrow> m = n"
  using dec_fixed_less_iff [of m w n] dec_fixed_less_iff [of n w m]
  by (metis linorder_less_linear less_irrefl)

section \<open>Lists\<close>

lemma distinct_map_filter_le1:
  assumes "distinct xs" "\<And>x y. x \<in> set xs \<Longrightarrow> y \<in> set xs \<Longrightarrow> P x \<Longrightarrow> P y \<Longrightarrow> x = y"
  shows "length (filter P xs) \<le> 1"
proof (rule ccontr)
  assume "\<not> length (filter P xs) \<le> 1"
  then obtain a b ys where f: "filter P xs = a # b # ys"
    by (cases "filter P xs" rule: remdups_adj.cases) auto
  have "distinct (filter P xs)" using assms(1) by simp
  with f have "a \<noteq> b" by simp
  moreover have "a \<in> set (filter P xs)" "b \<in> set (filter P xs)" by (simp_all add: f)
  ultimately show False using assms(2) [of a b] by auto
qed

end
