(* ===== verification/GoTime.thy ===== *)
theory GoTime
  imports Prelude
begin

text \<open>
  The part of Go's \<open>time\<close> package the bridge uses. A \<open>time.Time\<close> in UTC is the number of
  nanoseconds since the Unix epoch, a \<open>time.Duration\<close> a number of nanoseconds. \<open>rfc3339_nano\<close> is
  \<open>Format(time.RFC3339Nano)\<close>, which drops the trailing zeros of the fraction and the fraction
  itself when it is zero; \<open>parse_rfc3339\<close> is \<open>time.Parse\<close> on that layout. The lemmas give the
  calendar arithmetic, the round trip, and how far the text order of SQLite agrees with the order
  of times.
\<close>

section \<open>Times and durations\<close>

type_synonym time = int
type_synonym duration = int

definition second :: duration where
  "second = 1000000000"

definition unix_time :: "u32 \<Rightarrow> time" where
  "unix_time v = uint v * second"

text \<open>The zero \<open>time.Time\<close> is the first instant of year 1.\<close>

definition zero_time :: time where
  "zero_time = -62135596800 * second"

definition is_zero :: "time \<Rightarrow> bool" where
  "is_zero t \<longleftrightarrow> t = zero_time"

text \<open>\<open>Time.Sub\<close> saturates at the ends of \<open>int64\<close>.\<close>

definition time_sub :: "time \<Rightarrow> time \<Rightarrow> duration" where
  "time_sub t u = max (- (2 ^ 63)) (min (2 ^ 63 - 1) (t - u))"

section \<open>The calendar\<close>

text \<open>Days are counted from the first of January of year 1.\<close>

definition days_before_year :: "int \<Rightarrow> int" where
  "days_before_year y = 365 * (y - 1) + (y - 1) div 4 - (y - 1) div 100 + (y - 1) div 400"

definition is_leap :: "int \<Rightarrow> bool" where
  "is_leap y \<longleftrightarrow> y mod 4 = 0 \<and> (y mod 100 \<noteq> 0 \<or> y mod 400 = 0)"

definition year_of :: "int \<Rightarrow> int" where
  "year_of d =
     (let e = 400 * d div 146097 + 1 in
      if d < days_before_year e then e - 1
      else if days_before_year (e + 1) \<le> d then e + 1 else e)"

definition month_lengths :: "int \<Rightarrow> int list" where
  "month_lengths y = [31, if is_leap y then 29 else 28, 31, 30, 31, 30, 31, 31, 30, 31, 30, 31]"

fun month_day :: "int list \<Rightarrow> nat \<Rightarrow> int \<Rightarrow> nat \<times> int" where
  "month_day [] m r = (m, r + 1)"
| "month_day (l # ls) m r = (if r < l then (m, r + 1) else month_day ls (Suc m) (r - l))"

definition unix_epoch_days :: int where
  "unix_epoch_days = 719162"

lemma leap_count_bounds:
  fixes y a b c :: int
  assumes "4 * a \<le> y - 1" "y - 1 \<le> 4 * a + 3" "100 * b \<le> y - 1" "y - 1 \<le> 100 * b + 99"
    "400 * c \<le> y - 1" "y - 1 \<le> 400 * c + 399"
  shows "400 * (365 * (y - 1) + a - b + c) \<le> 146097 * (y - 1) + 396"
    and "146097 * (y - 1) - 699 \<le> 400 * (365 * (y - 1) + a - b + c)"
  using assms by simp_all

lemma days_before_year_bounds:
  "400 * days_before_year y \<le> 146097 * (y - 1) + 396"
  "146097 * (y - 1) - 699 \<le> 400 * days_before_year y"
  unfolding days_before_year_def by (rule leap_count_bounds; linarith)+

lemma div_pred:
  fixes y k :: int
  assumes "0 < k"
  shows "y div k = (y - 1) div k + (if y mod k = 0 then 1 else 0)"
proof (cases "y mod k = 0")
  case True
  then have "y - 1 = k * (y div k - 1) + (k - 1)"
    using div_mult_mod_eq [of y k] by (simp add: algebra_simps)
  then have "(y - 1) div k = y div k - 1"
    by (rule int_div_pos_eq) (use assms in auto)
  with True show ?thesis by simp
next
  case False
  have "y - 1 = k * (y div k) + (y mod k - 1)"
    using div_mult_mod_eq [of y k] by (simp add: algebra_simps)
  moreover have "0 \<le> y mod k - 1" "y mod k - 1 < k"
    using False assms pos_mod_sign [of k y] pos_mod_bound [of k y] by linarith+
  ultimately have "(y - 1) div k = y div k" by (rule int_div_pos_eq)
  with False show ?thesis by simp
qed

lemma leap_step:
  fixes y :: int
  assumes "a' = a + (if p then 1 else 0)" "b' = b + (if q then 1 else 0)" "c' = c + (if r then 1 else 0)"
    and "r \<Longrightarrow> q" "q \<Longrightarrow> p"
  shows "365 * y + a' - b' + c'
    = 365 * (y - 1) + a - b + c + (if p \<and> (\<not> q \<or> r) then 366 else 365)"
  using assms(4,5) unfolding assms(1-3) by (cases p; cases q; cases r; simp)

lemma days_before_year_Suc:
  "days_before_year (y + 1) = days_before_year y + (if is_leap y then 366 else 365)"
proof -
  have dv: "(100 :: int) dvd 400" "(4 :: int) dvd 100" by simp_all
  have sub: "y mod 400 = 0 \<Longrightarrow> y mod 100 = 0" "y mod 100 = 0 \<Longrightarrow> y mod 4 = 0"
    unfolding mod_eq_0_iff_dvd by (rule dvd_trans [OF dv(1)], assumption) (rule dvd_trans [OF dv(2)])
  have pred: "y + 1 - 1 = y" by simp
  show ?thesis
    unfolding days_before_year_def is_leap_def pred
    by (rule leap_step [OF div_pred div_pred div_pred sub]) simp_all
qed

lemma days_before_year_mono: "y \<le> z \<Longrightarrow> days_before_year y \<le> days_before_year z"
proof (induction "nat (z - y)" arbitrary: z)
  case 0
  then show ?case by simp
next
  case (Suc n)
  then have "days_before_year y \<le> days_before_year (z - 1)" by simp
  also have "\<dots> \<le> days_before_year z"
    using days_before_year_Suc [of "z - 1"] by simp
  finally show ?case .
qed

lemma year_of_bounds: "days_before_year (year_of d) \<le> d" "d < days_before_year (year_of d + 1)"
proof -
  define q where "q = 400 * d div 146097"
  have q: "146097 * q \<le> 400 * d" "400 * d \<le> 146097 * q + 146096"
    unfolding q_def by linarith+
  have "days_before_year q \<le> d"
    using days_before_year_bounds(1) [of q] q by simp
  moreover have "d < days_before_year (q + 3)"
    using days_before_year_bounds(2) [of "q + 3"] q by simp
  ultimately show "days_before_year (year_of d) \<le> d" "d < days_before_year (year_of d + 1)"
    by (auto simp: year_of_def Let_def q_def [symmetric] add.commute)
qed

lemma year_of_eqI: "days_before_year y \<le> d \<Longrightarrow> d < days_before_year (y + 1) \<Longrightarrow> year_of d = y"
  using year_of_bounds [of d] days_before_year_mono [of "y + 1" "year_of d"]
    days_before_year_mono [of "year_of d + 1" y]
  by linarith

text \<open>The year, the month and the day of the month, and the way back.\<close>

definition civil :: "int \<Rightarrow> int \<times> nat \<times> int" where
  "civil d =
     (let y = year_of d; (m, k) = month_day (month_lengths y) 1 (d - days_before_year y)
      in (y, m, k))"

definition days_of_civil :: "int \<Rightarrow> nat \<Rightarrow> int \<Rightarrow> int" where
  "days_of_civil y m k = days_before_year y + sum_list (take (m - 1) (month_lengths y)) + (k - 1)"

lemma length_month_lengths [simp]: "length (month_lengths y) = 12"
  by (simp add: month_lengths_def)

lemma month_lengths_range: "l \<in> set (month_lengths y) \<Longrightarrow> 28 \<le> l \<and> l \<le> 31"
  by (auto simp: month_lengths_def split: if_splits)

lemma sum_month_lengths: "sum_list (month_lengths y) = (if is_leap y then 366 else 365)"
  by (simp add: month_lengths_def)

lemma month_day_spec:
  assumes "0 \<le> r" "r < sum_list ls" "month_day ls m r = (m', k)"
  shows "m \<le> m' \<and> m' < m + length ls \<and> 1 \<le> k \<and> k \<le> ls ! (m' - m)
    \<and> sum_list (take (m' - m) ls) + (k - 1) = r"
  using assms
proof (induction ls m r rule: month_day.induct)
  case (1 m r)
  then show ?case by simp
next
  case (2 l ls m r)
  show ?case
  proof (cases "r < l")
    case True
    with 2 show ?thesis by auto
  next
    case False
    with 2 have "Suc m \<le> m' \<and> m' < Suc m + length ls \<and> 1 \<le> k \<and> k \<le> ls ! (m' - Suc m)
        \<and> sum_list (take (m' - Suc m) ls) + (k - 1) = r - l"
      by simp
    then show ?thesis by (auto simp: Suc_diff_Suc [symmetric] Suc_le_eq)
  qed
qed

lemma month_day_ge: "month_day ls m r = (n, k) \<Longrightarrow> m \<le> n"
  by (induction ls m r rule: month_day.induct) (auto split: if_splits)

lemma month_day_mono:
  assumes "r < r'" "month_day ls m r = (n, k)" "month_day ls m r' = (n', k')"
  shows "n < n' \<or> (n = n' \<and> k < k')"
  using assms
proof (induction ls m r arbitrary: r' rule: month_day.induct)
  case (1 m r)
  then show ?case by simp
next
  case (2 l ls m r)
  have "Suc m \<le> n'" if "\<not> r' < l"
    using "2.prems"(3) that by (auto split: if_splits dest: month_day_ge)
  with "2.IH" [of "r' - l"] "2.prems" show ?case by (auto split: if_splits)
qed

lemma civil_spec:
  assumes "civil d = (y, m, k)"
  shows "days_before_year y \<le> d" "d < days_before_year (y + 1)"
    "1 \<le> m" "m \<le> 12" "1 \<le> k" "k \<le> month_lengths y ! (m - 1)" "days_of_civil y m k = d"
proof -
  from assms have y: "y = year_of d"
    and md: "month_day (month_lengths y) 1 (d - days_before_year y) = (m, k)"
    by (auto simp: civil_def Let_def split: prod.splits)
  show b: "days_before_year y \<le> d" "d < days_before_year (y + 1)"
    using year_of_bounds [of d] y by simp_all
  then have "d - days_before_year y < sum_list (month_lengths y)" "0 \<le> d - days_before_year y"
    by (simp_all add: days_before_year_Suc sum_month_lengths)
  from month_day_spec [OF this(2,1) md]
  show "1 \<le> m" "m \<le> 12" "1 \<le> k" "k \<le> month_lengths y ! (m - 1)" "days_of_civil y m k = d"
    by (auto simp: days_of_civil_def)
qed

lemma civil_mono:
  assumes "d < d'" "civil d = (y, m, k)" "civil d' = (y', m', k')"
  shows "y < y' \<or> (y = y' \<and> (m < m' \<or> (m = m' \<and> k < k')))"
proof -
  note s = civil_spec [OF assms(2)] and s' = civil_spec [OF assms(3)]
  have "y \<le> y'"
    using days_before_year_mono [of "y' + 1" y] s(1) s'(2) assms(1) by linarith
  moreover have "m < m' \<or> (m = m' \<and> k < k')" if "y = y'"
    using month_day_mono [of "d - days_before_year y" "d' - days_before_year y" "month_lengths y" 1 m k m' k']
      assms that by (auto simp: civil_def Let_def split: prod.splits)
  ultimately show ?thesis by linarith
qed

section \<open>RFC 3339 with nanoseconds\<close>

definition year_text :: "int \<Rightarrow> string" where
  "year_text y = (if y < 0 then ''-'' else []) @
     (if \<bar>y\<bar> < 10000 then dec_fixed 4 (nat \<bar>y\<bar>) else dec_nat (nat \<bar>y\<bar>))"

definition trim_zeros :: "string \<Rightarrow> string" where
  "trim_zeros s = rev (dropWhile (\<lambda>c. c = CHR ''0'') (rev s))"

definition fraction_text :: "nat \<Rightarrow> string" where
  "fraction_text n = (if n = 0 then [] else ''.'' @ trim_zeros (dec_fixed 9 n))"

text \<open>The text of a whole second, up to and including the seconds; then the fraction and the zone.\<close>

definition seconds_text :: "int \<Rightarrow> string" where
  "seconds_text s =
     (let (y, m, k) = civil (s div 86400 + unix_epoch_days); r = s mod 86400
      in year_text y @ ''-'' @ dec_fixed 2 m @ ''-'' @ dec_fixed 2 (nat k) @ ''T'' @
         dec_fixed 2 (nat (r div 3600)) @ '':'' @ dec_fixed 2 (nat (r mod 3600 div 60)) @ '':'' @
         dec_fixed 2 (nat (r mod 60)))"

definition rfc3339_nano :: "time \<Rightarrow> string" where
  "rfc3339_nano t = seconds_text (t div second) @ fraction_text (nat (t mod second)) @ ''Z''"

definition year_at :: "time \<Rightarrow> int" where
  "year_at t = year_of (t div second div 86400 + unix_epoch_days)"

definition four_digit_year :: "time \<Rightarrow> bool" where
  "four_digit_year t \<longleftrightarrow> 0 \<le> year_at t \<and> year_at t \<le> 9999"

lemma four_digit_yearI:
  assumes "0 \<le> t" "t < 253402300800 * second"
  shows "four_digit_year t"
proof -
  define d where "d = t div second div 86400 + unix_epoch_days"
  have "t div second < 253402300800" using assms(2) by (simp add: second_def)
  moreover have "0 \<le> t div second" using assms(1) by (simp add: second_def pos_imp_zdiv_nonneg_iff)
  ultimately have d: "0 \<le> d" "d < 3652059" by (simp_all add: d_def unix_epoch_days_def)
  have "year_of d < 10000"
  proof (rule ccontr)
    assume "\<not> year_of d < 10000"
    then have "days_before_year 10000 \<le> days_before_year (year_of d)" by (simp add: days_before_year_mono)
    with year_of_bounds(1) [of d] d show False by (simp add: days_before_year_def)
  qed
  moreover have "0 \<le> year_of d"
  proof (rule ccontr)
    assume "\<not> 0 \<le> year_of d"
    then have "days_before_year (year_of d + 1) \<le> days_before_year 0" by (simp add: days_before_year_mono)
    with year_of_bounds(2) [of d] d show False by (simp add: days_before_year_def)
  qed
  ultimately show ?thesis by (simp add: four_digit_year_def year_at_def d_def)
qed

lemma civil_year: "civil d = (y, m, k) \<Longrightarrow> y = year_of d"
  by (auto simp: civil_def Let_def split: prod.splits)

lemma length_year_text: "0 \<le> y \<Longrightarrow> y \<le> 9999 \<Longrightarrow> length (year_text y) = 4"
  by (simp add: year_text_def)

section \<open>Order of the texts\<close>

lemma clock_less:
  fixes h :: int
  assumes "3600 * h + (60 * m + s) < 3600 * h' + (60 * m' + s')"
    "0 \<le> m" "m < 60" "0 \<le> s" "s < 60" "0 \<le> m'" "m' < 60" "0 \<le> s'" "s' < 60"
  shows "h < h' \<or> (h = h' \<and> (m < m' \<or> (m = m' \<and> s < s')))"
  using assms by (cases h h' rule: linorder_cases; cases m m' rule: linorder_cases) simp_all

lemma clock_fields:
  fixes r :: int
  assumes "0 \<le> r"
  shows "r = 3600 * (r div 3600) + (60 * (r mod 3600 div 60) + r mod 60)"
    "0 \<le> r div 3600" "0 \<le> r mod 3600 div 60" "r mod 3600 div 60 < 60" "0 \<le> r mod 60" "r mod 60 < 60"
proof -
  have "r mod 60 = r mod 3600 mod 60" by (simp add: mod_mod_cancel)
  then show "r = 3600 * (r div 3600) + (60 * (r mod 3600 div 60) + r mod 60)"
    using div_mult_mod_eq [of r 3600] div_mult_mod_eq [of "r mod 3600" 60] by linarith
  have "r mod 3600 < 3600" by simp
  then show "r mod 3600 div 60 < 60" by linarith
qed (use assms in \<open>simp_all add: pos_imp_zdiv_nonneg_iff\<close>)

lemma clock_mono:
  fixes r :: int
  assumes "0 \<le> r" "r < r'"
  shows "r div 3600 < r' div 3600 \<or> (r div 3600 = r' div 3600 \<and>
    (r mod 3600 div 60 < r' mod 3600 div 60 \<or>
      (r mod 3600 div 60 = r' mod 3600 div 60 \<and> r mod 60 < r' mod 60)))"
proof -
  have "0 \<le> r'" using assms by simp
  note f = clock_fields [OF assms(1)] and f' = clock_fields [OF this]
  show ?thesis
    by (rule clock_less) (use assms(2) f f' in \<open>simp_all only:\<close>)
qed

lemma dec2_less: "0 \<le> a \<Longrightarrow> a < 100 \<Longrightarrow> 0 \<le> b \<Longrightarrow> b < 100 \<Longrightarrow>
    dec_fixed 2 (nat a) < dec_fixed 2 (nat b) \<longleftrightarrow> a < b"
  by (subst dec_fixed_less_iff) auto

lemma year_text_less: "0 \<le> y \<Longrightarrow> y \<le> 9999 \<Longrightarrow> 0 \<le> y' \<Longrightarrow> y' \<le> 9999 \<Longrightarrow>
    year_text y < year_text y' \<longleftrightarrow> y < y'"
  unfolding year_text_def by (simp, subst dec_fixed_less_iff) auto

lemma month_day_range:
  assumes "civil d = (y, m, k)"
  shows "1 \<le> m" "m \<le> 12" "1 \<le> k" "k \<le> 31"
proof -
  note s = civil_spec [OF assms]
  show "1 \<le> m" "m \<le> 12" "1 \<le> k" by (rule s(3), rule s(4), rule s(5))
  have "month_lengths y ! (m - 1) \<in> set (month_lengths y)" using s(3,4) by (intro nth_mem) simp
  then show "k \<le> 31" using s(6) month_lengths_range by fastforce
qed

lemma date_text_less:
  assumes "0 \<le> y" "y \<le> 9999" "0 \<le> y'" "y' \<le> 9999" "m \<le> 12" "m' \<le> 12"
    "1 \<le> k" "k \<le> 31" "1 \<le> k'" "k' \<le> 31"
    and "y < y' \<or> (y = y' \<and> (m < m' \<or> (m = m' \<and> k < k')))"
  shows "year_text y @ ''-'' @ dec_fixed 2 m @ ''-'' @ dec_fixed 2 (nat k) @ xs
    < year_text y' @ ''-'' @ dec_fixed 2 m' @ ''-'' @ dec_fixed 2 (nat k') @ xs'"
proof -
  have m: "dec_fixed 2 m < dec_fixed 2 m' \<longleftrightarrow> m < m'"
    using assms(5,6) by (subst dec_fixed_less_iff) auto
  have k: "dec_fixed 2 (nat k) < dec_fixed 2 (nat k') \<longleftrightarrow> k < k'"
    using assms(7-10) by (subst dec2_less) auto
  have yl: "length (year_text y) = length (year_text y')"
    using assms(1-4) by (simp add: length_year_text)
  from assms(11) consider "y < y'" | "y = y'" "m < m'" | "y = y'" "m = m'" "k < k'" by blast
  then show ?thesis
  proof cases
    case 1
    then show ?thesis using assms(1-4) by (simp add: lex_append_less [OF yl] year_text_less)
  next
    case 2
    then show ?thesis using m by (simp add: lex_append_less)
  next
    case 3
    then show ?thesis using k by (simp add: lex_append_less)
  qed
qed

lemma triple_text_less:
  assumes "0 \<le> a" "a < 100" "0 \<le> a'" "a' < 100" "0 \<le> b" "b < 100" "0 \<le> b'" "b' < 100"
    "0 \<le> c" "c < 100" "0 \<le> c'" "c' < 100"
    and "a < a' \<or> (a = a' \<and> (b < b' \<or> (b = b' \<and> c < c')))"
  shows "dec_fixed 2 (nat a) @ '':'' @ dec_fixed 2 (nat b) @ '':'' @ dec_fixed 2 (nat c)
    < dec_fixed 2 (nat a') @ '':'' @ dec_fixed 2 (nat b') @ '':'' @ dec_fixed 2 (nat c')"
proof -
  note l = dec2_less [OF assms(1-4)] dec2_less [OF assms(5-8)] dec2_less [OF assms(9-12)]
  from assms(13) consider "a < a'" | "a = a'" "b < b'" | "a = a'" "b = b'" "c < c'" by blast
  then show ?thesis
    by cases (simp_all add: lex_append_less l)
qed

lemma clock_text_less:
  assumes "0 \<le> r" "r < r'" "r' < (86400 :: int)"
  shows "dec_fixed 2 (nat (r div 3600)) @ '':'' @ dec_fixed 2 (nat (r mod 3600 div 60)) @ '':'' @
      dec_fixed 2 (nat (r mod 60))
    < dec_fixed 2 (nat (r' div 3600)) @ '':'' @ dec_fixed 2 (nat (r' mod 3600 div 60)) @ '':'' @
      dec_fixed 2 (nat (r' mod 60))"
proof -
  have r': "0 \<le> r'" using assms by simp
  have h: "r div 3600 < 100" "r' div 3600 < 100" using assms by linarith+
  have up: "x < 60 \<Longrightarrow> x < 100" for x :: int by simp
  note f = clock_fields(2-6) [OF assms(1)] and f' = clock_fields(2-6) [OF r']
  show ?thesis
    by (rule triple_text_less [OF f(1) h(1) f'(1) h(2) f(2) up [OF f(3)] f'(2) up [OF f'(3)]
          f(4) up [OF f(5)] f'(4) up [OF f'(5)] clock_mono [OF assms(1,2)]])
qed

lemma seconds_text_less:
  assumes "s < s'" "four_digit_year (s * second)" "four_digit_year (s' * second)"
  shows "seconds_text s < seconds_text s'" "length (seconds_text s) = 19"
proof -
  let ?d = "s div 86400 + unix_epoch_days" and ?d' = "s' div 86400 + unix_epoch_days"
  obtain y m k where c: "civil ?d = (y, m, k)" by (cases "civil ?d") auto
  obtain y' m' k' where c': "civil ?d' = (y', m', k')" by (cases "civil ?d'") auto
  have y: "0 \<le> y" "y \<le> 9999" "0 \<le> y'" "y' \<le> 9999"
    using assms(2,3) civil_year [OF c] civil_year [OF c']
    by (simp_all add: four_digit_year_def year_at_def second_def)
  show "length (seconds_text s) = 19"
    using y by (simp add: seconds_text_def c length_year_text Let_def)
  note r = month_day_range [OF c] and r' = month_day_range [OF c']
  have "s div 86400 < s' div 86400 \<or> (s div 86400 = s' div 86400 \<and> s mod 86400 < s' mod 86400)"
    using assms(1) div_mult_mod_eq [of s 86400] div_mult_mod_eq [of s' 86400] zdiv_mono1 [of s s' 86400]
    by linarith
  then consider (day) "y < y' \<or> (y = y' \<and> (m < m' \<or> (m = m' \<and> k < k')))"
    | (clock) "s div 86400 = s' div 86400" "s mod 86400 < s' mod 86400" "y = y'" "m = m'" "k = k'"
    using civil_mono [OF _ c c'] c c' by auto
  then show "seconds_text s < seconds_text s'"
  proof cases
    case day
    show ?thesis
      unfolding seconds_text_def c c' Let_def prod.case
      by (rule date_text_less) (use y r r' day in simp_all)
  next
    case clock
    have b: "0 \<le> s mod 86400" "s' mod 86400 < 86400" by simp_all
    show ?thesis
      using clock_text_less [OF b(1) clock(2) b(2)]
      by (simp add: seconds_text_def c c' Let_def clock(3-5) del: mod_mod_trivial)
  qed
qed

lemma year_at_second: "year_at (t div second * second) = year_at t"
  by (simp add: year_at_def second_def)

lemma four_digit_year_second [simp]: "four_digit_year (t div second * second) = four_digit_year t"
  by (simp add: four_digit_year_def year_at_second)

lemma length_seconds_text:
  assumes "four_digit_year t"
  shows "length (seconds_text (t div second)) = 19"
proof -
  let ?d = "t div second div 86400 + unix_epoch_days"
  obtain y m k where c: "civil ?d = (y, m, k)" by (cases "civil ?d") auto
  then show ?thesis
    using assms civil_year [OF c]
    by (simp add: seconds_text_def Let_def length_year_text four_digit_year_def year_at_def)
qed

text \<open>Across seconds the text order is the order of times.\<close>

lemma rfc3339_less_seconds:
  assumes "four_digit_year t" "four_digit_year u" "t div second < u div second"
  shows "rfc3339_nano t < rfc3339_nano u"
  using seconds_text_less [of "t div second" "u div second"] assms length_seconds_text
  by (simp add: rfc3339_nano_def lex_append_less)

lemma rfc3339_order:
  assumes "four_digit_year t" "four_digit_year u" "t div second \<noteq> u div second"
  shows "rfc3339_nano t < rfc3339_nano u \<longleftrightarrow> t < u"
proof (cases "t div second < u div second")
  case True
  have "t < u"
  proof (rule ccontr)
    assume "\<not> t < u"
    then have "u div second \<le> t div second" by (intro zdiv_mono1) (auto simp: second_def)
    with True show False by simp
  qed
  then show ?thesis using rfc3339_less_seconds [OF assms(1,2) True] by simp
next
  case False
  then have lt: "u div second < t div second" using assms(3) by simp
  have "\<not> t < u"
  proof
    assume "t < u"
    then have "t div second \<le> u div second" by (intro zdiv_mono1) (auto simp: second_def)
    with lt show False by simp
  qed
  then show ?thesis using rfc3339_less_seconds [OF assms(2,1) lt] by auto
qed

text \<open>
  Within a second it is not: the fraction's \<open>'.'\<close> sorts before the zone's \<open>'Z'\<close>, so a time with
  a fraction sorts before the whole second it follows.
\<close>

lemma rfc3339_inversion:
  assumes "t mod second = 0" "0 < n" "n < second"
  shows "rfc3339_nano (t + n) < rfc3339_nano t"
proof -
  have e: "t + n = second * (t div second) + n"
    using assms(1) mult_div_mod_eq [of second t] by simp
  have q: "(t + n) div second = t div second"
    by (rule int_div_pos_eq [OF e]) (use assms in simp_all)
  have r: "(t + n) mod second = n"
    by (rule int_mod_pos_eq [OF e]) (use assms in simp_all)
  show ?thesis
    using assms by (simp add: rfc3339_nano_def q r fraction_text_def less_char_def)
qed

section \<open>Reading a time back\<close>

definition is_digit :: "char \<Rightarrow> bool" where
  "is_digit c \<longleftrightarrow> CHR ''0'' \<le> c \<and> c \<le> CHR ''9''"

fun digits_val :: "nat \<Rightarrow> string \<Rightarrow> nat option" where
  "digits_val acc [] = Some acc"
| "digits_val acc (c # cs) = (if is_digit c then digits_val (acc * 10 + (of_char c - 48)) cs else None)"

definition parse_uint :: "string \<Rightarrow> nat \<Rightarrow> nat \<Rightarrow> nat option" where
  "parse_uint s lo hi =
     (case digits_val 0 s of None \<Rightarrow> None
      | Some x \<Rightarrow> if lo \<le> x \<and> x \<le> hi then Some x else None)"

text \<open>An optional fraction: at most nine digits count. The rest is the zone.\<close>

definition read_fraction :: "string \<Rightarrow> nat \<times> string" where
  "read_fraction s =
     (if 2 \<le> length s \<and> s ! 0 = CHR ''.'' \<and> is_digit (s ! 1)
      then (let ds = takeWhile is_digit (tl s); d9 = take 9 ds
            in (the (digits_val 0 d9) * 10 ^ (9 - length d9), dropWhile is_digit (tl s)))
      else (0, s))"

definition zone_offset :: "string \<Rightarrow> int option" where
  "zone_offset z =
     (if z = ''Z'' then Some 0
      else if length z \<noteq> 6 then None
      else case (parse_uint (take 2 (drop 1 z)) 0 23, parse_uint (drop 4 z) 0 59) of
          (Some hr, Some mm) \<Rightarrow>
            if (z ! 0 = CHR ''-'' \<or> z ! 0 = CHR ''+'') \<and> z ! 3 = CHR '':''
            then Some ((if z ! 0 = CHR ''-'' then -1 else 1) * int ((hr * 60 + mm) * 60))
            else None
        | _ \<Rightarrow> None)"

text \<open>
  \<open>time.Parse\<close> on this layout first tries the strict form below and then its general parser, which
  takes some texts the strict form does not (a one-digit hour, a comma before the fraction). The only
  texts parsed are the stored ones, which \<open>formatTime\<close> wrote, and those are strict.
\<close>

definition parse_rfc3339 :: "string \<Rightarrow> time option" where
  "parse_rfc3339 s =
     (if length s < 19 then None
      else case (parse_uint (take 4 s) 0 9999, parse_uint (take 2 (drop 5 s)) 1 12) of
        (Some y, Some m) \<Rightarrow>
          (case (parse_uint (take 2 (drop 8 s)) 1 (nat (month_lengths (int y) ! (m - 1))),
                 parse_uint (take 2 (drop 11 s)) 0 23, parse_uint (take 2 (drop 14 s)) 0 59,
                 parse_uint (take 2 (drop 17 s)) 0 59) of
             (Some k, Some h, Some mi, Some se) \<Rightarrow>
               if s ! 4 = CHR ''-'' \<and> s ! 7 = CHR ''-'' \<and> s ! 10 = CHR ''T'' \<and> s ! 13 = CHR '':'' \<and> s ! 16 = CHR '':''
               then (let (nsec, z) = read_fraction (drop 19 s) in
                 case zone_offset z of None \<Rightarrow> None
                 | Some off \<Rightarrow>
                   Some (((days_of_civil (int y) m (int k) - unix_epoch_days) * 86400
                     + int (h * 3600 + mi * 60 + se) - off) * second + int nsec))
               else None
           | _ \<Rightarrow> None)
      | _ \<Rightarrow> None)"

section \<open>Round trip\<close>

lemma is_digit_digit_char [simp]: "n < 10 \<Longrightarrow> is_digit (digit_char n)"
proof -
  assume "n < 10"
  then have "n \<in> {0, 1, 2, 3, 4, 5, 6, 7, 8, 9}" by auto
  then show ?thesis by (auto simp: digit_char_def is_digit_def less_eq_char_def)
qed

lemma digits_val_append:
  "digits_val acc (xs @ ys) = (case digits_val acc xs of None \<Rightarrow> None | Some v \<Rightarrow> digits_val v ys)"
  by (induction xs arbitrary: acc) auto

lemma digits_val_dec_fixed: "n < 10 ^ w \<Longrightarrow> digits_val acc (dec_fixed w n) = Some (acc * 10 ^ w + n)"
proof (induction w arbitrary: n)
  case 0
  then show ?case by simp
next
  case (Suc w)
  then have "n div 10 < 10 ^ w" by (simp add: less_mult_imp_div_less mult.commute)
  then show ?case
    using Suc.IH [of "n div 10"] by (simp add: digits_val_append algebra_simps)
qed

lemma parse_uint_dec_fixed:
  "n < 10 ^ w \<Longrightarrow> lo \<le> n \<Longrightarrow> n \<le> hi \<Longrightarrow> parse_uint (dec_fixed w n) lo hi = Some n"
  by (simp add: parse_uint_def digits_val_dec_fixed)

lemma dec_fixed_digits: "c \<in> set (dec_fixed w n) \<Longrightarrow> is_digit c"
  by (induction w arbitrary: n) auto

lemma digits_val_zeros:
  "digits_val acc (replicate k (CHR ''0'')) = Some (acc * 10 ^ k)"
  by (induction k arbitrary: acc) (auto simp: is_digit_def less_eq_char_def algebra_simps)

text \<open>A trimmed text and the zeros that were cut.\<close>

lemma takeWhile_eq_replicate: "takeWhile (\<lambda>c. c = z) xs = replicate (length (takeWhile (\<lambda>c. c = z) xs)) z"
  by (induction xs) auto

lemma trim_zeros_split:
  obtains k where "s = trim_zeros s @ replicate k (CHR ''0'')" "length (trim_zeros s) + k = length s"
proof -
  let ?z = "takeWhile (\<lambda>c. c = CHR ''0'') (rev s)"
  have "rev s = ?z @ dropWhile (\<lambda>c. c = CHR ''0'') (rev s)" by simp
  then have "s = trim_zeros s @ rev ?z"
    unfolding trim_zeros_def by (metis rev_append rev_rev_ident)
  moreover have "rev ?z = replicate (length ?z) (CHR ''0'')"
    by (metis rev_replicate takeWhile_eq_replicate)
  ultimately have "s = trim_zeros s @ replicate (length ?z) (CHR ''0'')" by metis
  moreover from this have "length (trim_zeros s) + length ?z = length s"
    by (metis length_append length_replicate)
  ultimately show ?thesis by (rule that)
qed

lemma digits_val_prefix_Some: "digits_val acc (xs @ ys) = Some v \<Longrightarrow> \<exists>u. digits_val acc xs = Some u"
  by (simp add: digits_val_append split: option.splits)

lemma trimmed_fraction:
  assumes "0 < n" "n < 10 ^ 9"
  defines "ds \<equiv> trim_zeros (dec_fixed 9 n)"
  shows "ds \<noteq> []" "length ds \<le> 9" "\<forall>c \<in> set ds. is_digit c"
    "the (digits_val 0 ds) * 10 ^ (9 - length ds) = n"
proof -
  obtain k where k: "dec_fixed 9 n = ds @ replicate k (CHR ''0'')" "length ds + k = 9"
    using trim_zeros_split [of "dec_fixed 9 n"] unfolding ds_def by (metis length_dec_fixed)
  have v: "digits_val 0 (ds @ replicate k (CHR ''0'')) = Some n"
    using digits_val_dec_fixed [OF assms(2), of 0] k(1) by simp
  then obtain u where u: "digits_val 0 ds = Some u" using digits_val_prefix_Some by blast
  with v have n: "u * 10 ^ k = n" by (simp add: digits_val_append digits_val_zeros)
  show "ds \<noteq> []" using u n assms(1) by auto
  show "length ds \<le> 9" using k(2) by simp
  show "\<forall>c \<in> set ds. is_digit c"
  proof
    fix c assume "c \<in> set ds"
    then have "c \<in> set (dec_fixed 9 n)" by (simp add: k(1))
    then show "is_digit c" by (rule dec_fixed_digits)
  qed
  have "9 - length ds = k" using k(2) by simp
  then show "the (digits_val 0 ds) * 10 ^ (9 - length ds) = n" using u n by simp
qed

lemma read_fraction_text:
  assumes "n < 10 ^ 9"
  shows "read_fraction (fraction_text n @ ''Z'') = (n, ''Z'')"
proof (cases "n = 0")
  case True
  then show ?thesis by (simp add: fraction_text_def read_fraction_def)
next
  case False
  let ?ds = "trim_zeros (dec_fixed 9 n)"
  have nz: "\<not> is_digit (CHR ''Z'')" by (simp add: is_digit_def less_eq_char_def)
  note t = trimmed_fraction [of n] assms False
  have tw: "takeWhile is_digit (?ds @ ''Z'') = ?ds" "dropWhile is_digit (?ds @ ''Z'') = ''Z''"
    using t nz by (simp_all add: takeWhile_append2 dropWhile_append2)
  have "is_digit (?ds ! 0)" "0 < length ?ds" using t by (auto simp: neq_Nil_conv)
  then show ?thesis
    using t tw by (simp add: fraction_text_def read_fraction_def nth_append)
qed

lemma length_2_cases:
  assumes "length xs = 2"
  obtains a b where "xs = [a, b]"
  using assms by (auto simp: numeral_2_eq_2 length_Suc_conv)

lemma length_4_cases:
  assumes "length xs = 4"
  obtains a b c d where "xs = [a, b, c, d]"
  using assms by (auto simp: numeral_eq_Suc length_Suc_conv)

lemma parse_rfc3339_fields:
  assumes "length a = 4" "length b = 2" "length c = 2" "length d = 2" "length e = 2" "length f = 2"
    and "parse_uint a 0 9999 = Some Y" "parse_uint b 1 12 = Some M"
    "parse_uint c 1 (nat (month_lengths (int Y) ! (M - 1))) = Some K"
    "parse_uint d 0 23 = Some H" "parse_uint e 0 59 = Some I" "parse_uint f 0 59 = Some S"
    and "read_fraction z = (n, ''Z'')"
  shows "parse_rfc3339 (a @ ''-'' @ b @ ''-'' @ c @ ''T'' @ d @ '':'' @ e @ '':'' @ f @ z)
    = Some (((days_of_civil (int Y) M (int K) - unix_epoch_days) * 86400
        + int (H * 3600 + I * 60 + S)) * second + int n)"
proof -
  obtain a1 a2 a3 a4 where a: "a = [a1, a2, a3, a4]" by (rule length_4_cases [OF assms(1)])
  obtain b1 b2 where b: "b = [b1, b2]" by (rule length_2_cases [OF assms(2)])
  obtain c1 c2 where c: "c = [c1, c2]" by (rule length_2_cases [OF assms(3)])
  obtain d1 d2 where d: "d = [d1, d2]" by (rule length_2_cases [OF assms(4)])
  obtain e1 e2 where e: "e = [e1, e2]" by (rule length_2_cases [OF assms(5)])
  obtain f1 f2 where f: "f = [f1, f2]" by (rule length_2_cases [OF assms(6)])
  let ?s = "a @ ''-'' @ b @ ''-'' @ c @ ''T'' @ d @ '':'' @ e @ '':'' @ f @ z"
  have parts: "take 4 ?s = a" "take 2 (drop 5 ?s) = b" "take 2 (drop 8 ?s) = c"
    "take 2 (drop 11 ?s) = d" "take 2 (drop 14 ?s) = e" "take 2 (drop 17 ?s) = f" "drop 19 ?s = z"
    "?s ! 4 = CHR ''-''" "?s ! 7 = CHR ''-''" "?s ! 10 = CHR ''T''" "?s ! 13 = CHR '':''"
    "?s ! 16 = CHR '':''" "\<not> length ?s < 19"
    by (simp_all add: a b c d e f)
  have "zone_offset ''Z'' = Some 0" by (simp add: zone_offset_def)
  then show ?thesis
    unfolding parse_rfc3339_def if_not_P [OF parts(13)] parts(1-12) assms(7,8) prod.case option.case
      assms(9-13)
    by simp
qed

lemma rfc3339_roundtrip:
  assumes "four_digit_year t"
  shows "parse_rfc3339 (rfc3339_nano t) = Some t"
proof -
  let ?s = "t div second" and ?n = "nat (t mod second)"
  let ?r = "?s mod 86400"
  let ?d = "?s div 86400 + unix_epoch_days"
  obtain y m k where c: "civil ?d = (y, m, k)" by (cases "civil ?d") auto
  have y: "0 \<le> y" "y \<le> 9999"
    using assms civil_year [OF c] by (simp_all add: four_digit_year_def year_at_def)
  note r = month_day_range [OF c] and sp = civil_spec [OF c]
  have r0: "0 \<le> ?r" "?r < 86400" by simp_all
  note f = clock_fields [OF r0(1)]
  have h: "?r div 3600 \<le> 23" using r0 by linarith
  have n: "?n < 10 ^ 9" by (simp add: second_def)
  define Y M K H I S where "Y = nat y" and "M = m" and "K = nat k" and "H = nat (?r div 3600)"
    and "I = nat (?r mod 3600 div 60)" and "S = nat (?r mod 60)"
  have YK: "int Y = y" "int K = k" using y r by (simp_all add: Y_def K_def)
  have up: "x < 60 \<Longrightarrow> nat x \<le> 59" for x :: int by simp
  have b: "Y \<le> 9999" "1 \<le> M" "M \<le> 12" "1 \<le> K" "K \<le> 31"
    using y r by (simp_all add: Y_def M_def K_def)
  have bK: "K \<le> nat (month_lengths (int Y) ! (M - 1))"
    unfolding K_def M_def YK by (rule nat_mono [OF sp(6)])
  have bc: "H \<le> 23" "I \<le> 59" "S \<le> 59"
    unfolding H_def I_def S_def using h up [OF f(4)] up [OF f(6)] by (simp_all only: nat_le_iff of_nat_numeral)
  have shape: "rfc3339_nano t = dec_fixed 4 Y @ ''-'' @ dec_fixed 2 M @ ''-'' @ dec_fixed 2 K @ ''T'' @
      dec_fixed 2 H @ '':'' @ dec_fixed 2 I @ '':'' @ dec_fixed 2 S @ fraction_text ?n @ ''Z''"
    using y by (simp add: rfc3339_nano_def seconds_text_def Let_def c year_text_def
        Y_def M_def K_def H_def I_def S_def)
  have p: "parse_uint (dec_fixed 4 Y) 0 9999 = Some Y" "parse_uint (dec_fixed 2 M) 1 12 = Some M"
    "parse_uint (dec_fixed 2 K) 1 (nat (month_lengths (int Y) ! (M - 1))) = Some K"
    "parse_uint (dec_fixed 2 H) 0 23 = Some H" "parse_uint (dec_fixed 2 I) 0 59 = Some I"
    "parse_uint (dec_fixed 2 S) 0 59 = Some S"
    by (rule parse_uint_dec_fixed; use b bK bc in simp)+
  have days: "days_of_civil (int Y) M (int K) - unix_epoch_days = ?s div 86400"
    using sp(7) YK by (simp add: M_def)
  have hms: "int H = ?r div 3600" "int I = ?r mod 3600 div 60" "int S = ?r mod 60"
    unfolding H_def I_def S_def by (rule nat_0_le; fact f)+
  have "int (H * 3600 + I * 60 + S) = 3600 * int H + (60 * int I + int S)" by simp
  also have "\<dots> = ?r" unfolding hms by (rule f(1) [symmetric])
  finally have clock: "int (H * 3600 + I * 60 + S) = ?r" .
  have t: "(?s div 86400 * 86400 + ?r) * second + int ?n = t"
    by (simp add: second_def)
  have "parse_rfc3339 (rfc3339_nano t) = Some (((days_of_civil (int Y) M (int K) - unix_epoch_days) * 86400
        + int (H * 3600 + I * 60 + S)) * second + int ?n)"
    unfolding shape
    by (rule parse_rfc3339_fields [OF length_dec_fixed length_dec_fixed length_dec_fixed
          length_dec_fixed length_dec_fixed length_dec_fixed p read_fraction_text [OF n]])
  then show ?thesis unfolding days clock t .
qed

end
