(* ===== verification/Float64.thy ===== *)
theory Float64
  imports Complex_Main Prelude
begin

text \<open>
  Go's \<open>float64\<close> as the bridge uses it: the value of a finite double is a rational number, next
  to the infinities and NaN. The code makes coordinates in one way only, \<open>float64(v) * 1e-7\<close> for
  an \<open>int32\<close> \<open>v\<close>; \<open>coordinate\<close> is that product with the IEEE rounding (53 significant bits, ties to
  even) written out, and \<open>fmt_fixed7\<close> is \<open>fmt\<close>'s \<open>%.7f\<close>. The sign of zero is not kept: no
  operation of the bridge makes a negative zero. The lemmas show that the rounding never moves a
  coordinate across a range bound and that seven decimals give the integer back.
\<close>

section \<open>Values\<close>

datatype f64 = Fin rat | PosInf | NegInf | NaN

fun f64_less :: "f64 \<Rightarrow> f64 \<Rightarrow> bool" where
  "f64_less (Fin x) (Fin y) = (x < y)"
| "f64_less (Fin x) PosInf = True"
| "f64_less NegInf (Fin y) = True"
| "f64_less NegInf PosInf = True"
| "f64_less _ _ = False"

definition f64_le :: "f64 \<Rightarrow> f64 \<Rightarrow> bool" where
  "f64_le x y \<longleftrightarrow> f64_less x y \<or> (x = y \<and> x \<noteq> NaN)"

definition f64_of_int :: "int \<Rightarrow> f64" where
  "f64_of_int i = Fin (of_int i)"

section \<open>Sorting\<close>

text \<open>
  \<open>slices.Sort\<close> orders floats by \<open>cmp.Less\<close>: numerically, with NaN before every number. That is a
  linear order of the model, so the library's \<open>sort\<close> is the sort of the source.
\<close>

fun f64_rank :: "f64 \<Rightarrow> nat \<times> rat" where
  "f64_rank NaN = (0, 0)"
| "f64_rank NegInf = (1, 0)"
| "f64_rank (Fin x) = (2, x)"
| "f64_rank PosInf = (3, 0)"

lemma f64_rank_inj: "f64_rank x = f64_rank y \<longleftrightarrow> x = y"
  by (cases x; cases y) auto

instantiation f64 :: linorder
begin

definition less_eq_f64 :: "f64 \<Rightarrow> f64 \<Rightarrow> bool" where
  "less_eq_f64 x y \<longleftrightarrow> f64_rank x \<le> f64_rank y"

definition less_f64 :: "f64 \<Rightarrow> f64 \<Rightarrow> bool" where
  "less_f64 x y \<longleftrightarrow> f64_rank x < f64_rank y"

instance
  by standard (auto simp: less_eq_f64_def less_f64_def f64_rank_inj [symmetric] less_le_not_le)

end

lemma Fin_le_iff [simp]: "Fin x \<le> Fin y \<longleftrightarrow> x \<le> y"
  by (simp add: less_eq_f64_def)

lemma Fin_less_iff [simp]: "Fin x < Fin y \<longleftrightarrow> x < y"
  by (simp add: less_f64_def)

lemma f64_less_iff: "f64_less x y \<longleftrightarrow> x \<noteq> NaN \<and> x < y"
  by (cases x; cases y) (auto simp: less_f64_def)

lemma f64_le_iff: "f64_le x y \<longleftrightarrow> x \<noteq> NaN \<and> x \<le> y"
  by (auto simp: f64_le_def f64_less_iff)

section \<open>Rounding\<close>

text \<open>Round to the nearest integer, ties to even.\<close>

definition rne :: "rat \<Rightarrow> int" where
  "rne x = (let q = \<lfloor>x\<rfloor>; r = x - of_int q in
     if r < 1 / 2 then q else if 1 / 2 < r then q + 1 else if even q then q else q + 1)"

fun bit_length :: "nat \<Rightarrow> nat" where
  "bit_length n = (if n = 0 then 0 else Suc (bit_length (n div 2)))"

declare bit_length.simps [simp del]

lemma bit_length_0 [simp]: "bit_length 0 = 0"
  by (subst bit_length.simps) simp

text \<open>Round an integer to 53 significant bits.\<close>

definition round_sig53 :: "int \<Rightarrow> int" where
  "round_sig53 n =
     (let k = bit_length (nat \<bar>n\<bar>) - 53 in rne (of_int n / 2 ^ k) * 2 ^ k)"

text \<open>The double nearest to \<open>1e-7\<close> is \<open>944473296573929 / 2 ^ 73\<close>.\<close>

definition coordinate :: "int \<Rightarrow> f64" where
  "coordinate v = Fin (of_int (round_sig53 (v * 944473296573929)) / 2 ^ 73)"

lemma rne_near: "\<bar>of_int (rne x) - x\<bar> \<le> 1 / 2"
proof -
  have "of_int \<lfloor>x\<rfloor> \<le> x" "x < of_int \<lfloor>x\<rfloor> + 1" by linarith+
  then show ?thesis by (simp add: rne_def Let_def)
qed

lemma near_integers_eq:
  fixes x :: rat
  shows "\<bar>of_int r - x\<bar> \<le> 1 / 2 \<Longrightarrow> \<bar>x - of_int m\<bar> < 1 / 2 \<Longrightarrow> r = m"
  by linarith

lemma rne_eqI: "\<bar>x - of_int m\<bar> < 1 / 2 \<Longrightarrow> rne x = m"
  by (rule near_integers_eq [OF rne_near])

lemma bit_length_lower: "0 < n \<Longrightarrow> 2 ^ (bit_length n - 1) \<le> n"
proof (induction n rule: bit_length.induct)
  case (1 n)
  show ?case
  proof (cases "n div 2 = 0")
    case True
    with 1 show ?thesis by (simp add: bit_length.simps [of n] bit_length.simps [of "n div 2"])
  next
    case False
    with 1 have IH: "2 ^ (bit_length (n div 2) - 1) \<le> n div 2" by simp
    have "0 < bit_length (n div 2)" using False bit_length.simps [of "n div 2"] by simp
    then have "2 ^ (bit_length n - 1) = 2 * (2 :: nat) ^ (bit_length (n div 2) - 1)"
      using 1(2) by (subst bit_length.simps) (simp flip: power_Suc)
    also have "\<dots> \<le> 2 * (n div 2)" using IH by simp
    also have "\<dots> \<le> n" by simp
    finally show ?thesis .
  qed
qed

lemma round_sig53_near:
  "\<bar>of_int (round_sig53 n) - (of_int n :: rat)\<bar> \<le> \<bar>of_int n\<bar> / 2 ^ 53"
proof -
  define k where "k = bit_length (nat \<bar>n\<bar>) - 53"
  show ?thesis
  proof (cases "k = 0")
    case True
    then have "round_sig53 n = n" by (simp add: round_sig53_def k_def rne_def)
    then show ?thesis by simp
  next
    case False
    then have bl: "bit_length (nat \<bar>n\<bar>) - 1 = k + 52" by (simp add: k_def)
    have "n \<noteq> 0" using False by (auto simp: k_def)
    then have "2 ^ (k + 52) \<le> nat \<bar>n\<bar>"
      using bit_length_lower [of "nat \<bar>n\<bar>", unfolded bl] by simp
    then have "(2 :: int) ^ (k + 52) \<le> \<bar>n\<bar>" by (simp add: le_nat_iff)
    then have "(of_int (2 ^ (k + 52)) :: rat) \<le> of_int \<bar>n\<bar>" by (subst of_int_le_iff)
    then have low: "(2 :: rat) ^ k * 2 ^ 52 \<le> \<bar>of_int n\<bar>" by (simp add: power_add)
    let ?x = "of_int n / 2 ^ k :: rat"
    have "of_int (round_sig53 n) - (of_int n :: rat) = (of_int (rne ?x) - ?x) * 2 ^ k"
      by (simp add: round_sig53_def k_def Let_def algebra_simps)
    then have "\<bar>of_int (round_sig53 n) - (of_int n :: rat)\<bar> = \<bar>of_int (rne ?x) - ?x\<bar> * 2 ^ k"
      by (simp add: abs_mult)
    also have "\<dots> \<le> 1 / 2 * 2 ^ k"
      by (rule mult_right_mono [OF rne_near]) simp
    also have "\<dots> \<le> \<bar>of_int n\<bar> / 2 ^ 53"
      using low by simp
    finally show ?thesis .
  qed
qed

section \<open>Coordinates\<close>

definition coord_val :: "int \<Rightarrow> rat" where
  "coord_val v = of_int (round_sig53 (v * 944473296573929)) / 2 ^ 73"

lemma coordinate_val: "coordinate v = Fin (coord_val v)"
  by (simp add: coordinate_def coord_val_def)

text \<open>The relative error of the constant and of the product together is below \<open>2 ^ -51\<close>.\<close>

lemma coord_val_near: "\<bar>coord_val v - of_int v / 10 ^ 7\<bar> \<le> \<bar>of_int v\<bar> / 10 ^ 7 / 2 ^ 51"
proof -
  let ?c = "944473296573929 :: rat"
  have "\<bar>of_int (round_sig53 (v * 944473296573929)) - of_int v * ?c\<bar> \<le> \<bar>of_int v\<bar> * ?c / 2 ^ 53"
    using round_sig53_near [of "v * 944473296573929"] by (simp add: abs_mult)
  then have 1: "\<bar>coord_val v - of_int v * ?c / 2 ^ 73\<bar> \<le> \<bar>of_int v\<bar> * ?c / 2 ^ 53 / 2 ^ 73"
    by (simp add: coord_val_def field_simps abs_if split: if_splits)
  have "\<bar>of_int v * ?c / 2 ^ 73 - of_int v / 10 ^ 7\<bar> = \<bar>of_int v\<bar> * \<bar>?c / 2 ^ 73 - 1 / 10 ^ 7\<bar>"
    by (simp add: abs_mult [symmetric] algebra_simps)
  moreover have "\<bar>?c / 2 ^ 73 - 1 / 10 ^ 7\<bar> + ?c / 2 ^ 53 / 2 ^ 73 \<le> 1 / 10 ^ 7 / 2 ^ 51"
    by simp
  then have "\<bar>of_int v :: rat\<bar> * (\<bar>?c / 2 ^ 73 - 1 / 10 ^ 7\<bar> + ?c / 2 ^ 53 / 2 ^ 73)
      \<le> \<bar>of_int v\<bar> * (1 / 10 ^ 7 / 2 ^ 51)"
    by (rule mult_left_mono) simp
  ultimately show ?thesis
    using 1 by (simp add: distrib_left abs_if split: if_splits)
qed

text \<open>
  The range checks on the rounded coordinate decide exactly the range of the integer: the two
  bounds are hit exactly, and one step beyond them is far outside the rounding error.
\<close>

lemma coord_val_bounds:
  "coord_val 900000000 = 90" "coord_val (-900000000) = -90"
  "coord_val 1800000000 = 180" "coord_val (-1800000000) = -180"
proof -
  have "rne (3320413933267719140625 / 524288) = 6333186975989760"
    "rne (- (3320413933267719140625 / 524288)) = - 6333186975989760"
    by (rule rne_eqI; simp)+
  then show "coord_val 900000000 = 90" "coord_val (-900000000) = -90"
    "coord_val 1800000000 = 180" "coord_val (-1800000000) = -180"
    by (simp_all add: coord_val_def round_sig53_def bit_length.simps)
qed

lemma apart_mono:
  fixes a b x y d :: rat
  shows "x + d \<le> y \<Longrightarrow> \<bar>a - x\<bar> \<le> d / 4 \<Longrightarrow> \<bar>b - y\<bar> \<le> d / 4 \<Longrightarrow> 0 < d \<Longrightarrow> a < b"
  by linarith

lemma coord_val_less:
  assumes "v + 1 \<le> w" "\<bar>v\<bar> \<le> 2 ^ 31" "\<bar>w\<bar> \<le> 2 ^ 31"
  shows "coord_val v < coord_val w"
proof -
  have "of_int (v + 1) \<le> (of_int w :: rat)" using assms(1) by (simp only: of_int_le_iff)
  then have le: "of_int v / 10 ^ 7 + 1 / 10 ^ 7 \<le> (of_int w / 10 ^ 7 :: rat)" by simp
  have err: "\<bar>coord_val u - of_int u / 10 ^ 7\<bar> \<le> 1 / 10 ^ 7 / 4" if "\<bar>u\<bar> \<le> 2 ^ 31" for u
  proof -
    have "of_int \<bar>u\<bar> \<le> (of_int (2 ^ 31) :: rat)" using that by (simp only: of_int_le_iff)
    then have "\<bar>of_int u :: rat\<bar> / 10 ^ 7 / 2 ^ 51 \<le> 1 / 10 ^ 7 / 4" by simp
    then show ?thesis using coord_val_near [of u] by linarith
  qed
  show ?thesis
    by (rule apart_mono [OF le err [OF assms(2)] err [OF assms(3)]]) simp
qed

lemma coord_val_le_iff:
  assumes "\<bar>v\<bar> \<le> 2 ^ 31" "\<bar>w\<bar> \<le> 2 ^ 31"
  shows "coord_val v \<le> coord_val w \<longleftrightarrow> v \<le> w"
  using coord_val_less [of v w] coord_val_less [of w v] assms
  by (cases v w rule: linorder_cases) auto

lemma coord_val_eq_iff:
  assumes "\<bar>v\<bar> \<le> 2 ^ 31" "\<bar>w\<bar> \<le> 2 ^ 31"
  shows "coord_val v = coord_val w \<longleftrightarrow> v = w"
  using coord_val_le_iff [OF assms] coord_val_le_iff [OF assms(2,1)] by auto

section \<open>Seven decimals\<close>

definition dec7 :: "int \<Rightarrow> string" where
  "dec7 m = dec_nat (nat (\<bar>m\<bar> div 10 ^ 7)) @ ''.'' @ dec_fixed 7 (nat (\<bar>m\<bar> mod 10 ^ 7))"

fun fmt_fixed7 :: "f64 \<Rightarrow> string" where
  "fmt_fixed7 (Fin x) = (if x < 0 then ''-'' else []) @ dec7 (rne (x * 10 ^ 7))"
| "fmt_fixed7 PosInf = ''+Inf''"
| "fmt_fixed7 NegInf = ''-Inf''"
| "fmt_fixed7 NaN = ''NaN''"

lemma rne_coord_val:
  assumes "\<bar>v\<bar> \<le> 2 ^ 31"
  shows "rne (coord_val v * 10 ^ 7) = v"
proof (rule rne_eqI)
  have "of_int \<bar>v\<bar> \<le> (of_int (2 ^ 31) :: rat)" using assms by (simp only: of_int_le_iff)
  then have "\<bar>coord_val v - of_int v / 10 ^ 7\<bar> \<le> 1 / 10 ^ 7 / 4"
    using coord_val_near [of v] by simp
  then show "\<bar>coord_val v * 10 ^ 7 - of_int v\<bar> < 1 / 2"
    by (simp add: abs_if field_simps split: if_splits)
qed

lemma coord_val_0 [simp]: "coord_val 0 = 0"
  by (simp add: coord_val_def round_sig53_def rne_def)

lemma fmt_fixed7_coordinate:
  assumes "\<bar>v\<bar> \<le> 2 ^ 31"
  shows "fmt_fixed7 (coordinate v) = (if v < 0 then ''-'' else []) @ dec7 v"
  using coord_val_le_iff [of 0 v] rne_coord_val [OF assms] assms
  by (auto simp: coordinate_val not_less [symmetric])

end
