(* ===== verification/Model.thy ===== *)
theory Model
  imports Prelude GoTime Float64
begin

text \<open>
  \<^verbatim>\<open>internal/model/model.go\<close>: the packet and position records that every part of the bridge
  exchanges, and the textual node identifier. A pointer field is an \<open>option\<close>, a byte slice a list
  of bytes (the code never tells nil from empty here except where \<open>Archive\<close> normalises it), and a
  \<open>time.Time\<close> a \<open>time\<close>. The lemmas show that the loop of \<open>NodeID\<close> prints the eight hexadecimal
  digits of the node number, and that no two nodes share an identifier.
\<close>

unbundle bit_operations_syntax

section \<open>Records\<close>

record packet =
  pkFrom :: u32
  pkTo :: u32
  pkMeshPacketID :: u32
  pkChannel :: u32
  pkPort :: i32
  pkHopLimit :: u32
  pkHopStart :: u32
  pkRSSI :: "i32 option"
  pkSNR :: f64
  pkViaMQTT :: bool
  pkPKIEncrypted :: bool
  pkEncrypted :: bool
  pkReceivedAt :: time
  pkRadioRxTime :: "time option"
  pkRawPacket :: "byte list"
  pkRawPayload :: "byte list"
  pkParseStatus :: string
  pkParseError :: string

record position =
  poPacketID :: int
  poSourceNode :: u32
  poMeshPacketID :: u32
  poSourcePort :: i32
  poCallsign :: string
  poDeviceCallsign :: string
  poLatitude :: f64
  poLongitude :: f64
  poAltitude :: "f64 option"
  poSpeed :: "f64 option"
  poCourse :: "f64 option"
  poLocationSource :: string
  poPrecisionBits :: u32
  poSourceTime :: time
  poReceivedAt :: time

section \<open>Node identifiers\<close>

definition hex_digits :: string where
  "hex_digits = ''0123456789abcdef''"

text \<open>The loop runs \<open>i\<close> from 8 down to 1, writing the low nibble at \<open>buf[i]\<close>.\<close>

fun NodeID_loop :: "nat \<Rightarrow> u32 \<Rightarrow> string \<Rightarrow> string" where
  "NodeID_loop 0 node buf = buf"
| "NodeID_loop (Suc i) node buf =
     NodeID_loop i (drop_bit 4 node) (buf[Suc i := hex_digits ! unat (node AND 0xf)])"

definition NodeID :: "u32 \<Rightarrow> string" where
  "NodeID node = NodeID_loop 8 node (CHR ''!'' # replicate 8 (CHR 0x00))"

definition SourceID :: "position \<Rightarrow> string" where
  "SourceID p = NodeID (poSourceNode p)"

text \<open>\<open>hex_fixed w n\<close> is \<open>fmt\<close>'s \<open>%0wx\<close> for \<open>n < 16 ^ w\<close>.\<close>

fun hex_fixed :: "nat \<Rightarrow> nat \<Rightarrow> string" where
  "hex_fixed 0 n = []"
| "hex_fixed (Suc w) n = hex_fixed w (n div 16) @ [hex_digits ! (n mod 16)]"

lemma length_hex_fixed [simp]: "length (hex_fixed w n) = w"
  by (induction w arbitrary: n) auto

lemma length_hex_digits [simp]: "length hex_digits = 16"
  by (simp add: hex_digits_def)

lemma hex_digits_distinct: "distinct hex_digits"
  by (simp add: hex_digits_def)

lemma hex_fixed_inj: "m < 16 ^ w \<Longrightarrow> n < 16 ^ w \<Longrightarrow> hex_fixed w m = hex_fixed w n \<Longrightarrow> m = n"
proof (induction w arbitrary: m n)
  case 0
  then show ?case by simp
next
  case (Suc w)
  then have "m div 16 < 16 ^ w" "n div 16 < 16 ^ w"
    by (simp_all add: less_mult_imp_div_less mult.commute)
  with Suc have "m div 16 = n div 16" by simp
  moreover have "m mod 16 = n mod 16"
    using Suc.prems(3) nth_eq_iff_index_eq [OF hex_digits_distinct] by simp
  ultimately show ?case by (metis div_mult_mod_eq)
qed

lemma nibble: "unat (node AND 0xf :: u32) = unat node mod 16"
proof -
  have "node AND 0xf = take_bit 4 node" by (simp add: take_bit_eq_mask mask_eq_exp_minus_1)
  then have "unat (node AND 0xf) = take_bit 4 (unat node)" by (simp add: unsigned_take_bit_eq)
  then show ?thesis by (simp add: take_bit_eq_mod)
qed

lemma shift_nibble: "unat (drop_bit 4 (node :: u32)) = unat node div 16"
  using unat_div [of node 16] by (simp add: drop_bit_eq_div)

lemma NodeID_loop_hex:
  "length buf = Suc w \<Longrightarrow> n \<le> w \<Longrightarrow>
     NodeID_loop n node buf = take 1 buf @ hex_fixed n (unat node) @ drop (Suc n) buf"
proof (induction n arbitrary: node buf)
  case 0
  then show ?case by simp
next
  case (Suc n)
  let ?c = "hex_digits ! unat (node AND 0xf)"
  have "NodeID_loop (Suc n) node buf
      = take 1 (buf[Suc n := ?c]) @ hex_fixed n (unat (drop_bit 4 node)) @ drop (Suc n) (buf[Suc n := ?c])"
    using Suc by simp
  moreover have "drop (Suc n) (buf[Suc n := ?c]) = ?c # drop (Suc (Suc n)) buf"
    using Suc.prems by (simp add: drop_update_swap Cons_nth_drop_Suc [symmetric])
  moreover have "take 1 (buf[Suc n := ?c]) = take 1 buf" by simp
  ultimately show ?case by (simp add: shift_nibble nibble)
qed

lemma NodeID_hex: "NodeID node = CHR ''!'' # hex_fixed 8 (unat node)"
  using NodeID_loop_hex [of "CHR ''!'' # replicate 8 (CHR 0x00)" 8 8 node] by (simp add: NodeID_def)

lemma NodeID_inj: "NodeID a = NodeID b \<longleftrightarrow> a = b"
proof
  assume "NodeID a = NodeID b"
  moreover have "unat a < 2 ^ LENGTH(32)" "unat b < 2 ^ LENGTH(32)" by (rule unsigned_less)+
  then have "unat a < 16 ^ 8" "unat b < 16 ^ 8" by simp_all
  ultimately have "unat a = unat b" using hex_fixed_inj [of "unat a" 8 "unat b"] by (simp add: NodeID_hex)
  then show "a = b" by (simp only: word_eq_iff_unsigned [where ?'a = nat])
qed simp

lemma length_NodeID [simp]: "length (NodeID node) = 9"
  by (simp add: NodeID_hex)

lemma NodeID_nonempty [simp]: "NodeID node \<noteq> []"
  by (simp add: NodeID_hex)

section \<open>Properties\<close>

text \<open>
  \<open>NodeID\<close> prints a node as \<open>!\<close> followed by exactly eight lower-case hexadecimal digits (what
  \<open>%08x\<close> prints), and different nodes get different identifiers, so an identifier can key a node's
  live track and its fallback callsign.
\<close>
theorem node_id_format:
  "NodeID node = CHR ''!'' # hex_fixed 8 (unat node) \<and> length (NodeID node) = 9 \<and>
   (NodeID node = NodeID other \<longleftrightarrow> node = other)"
  by (simp add: NodeID_hex NodeID_inj [unfolded NodeID_hex, simplified])

end
