(* ===== verification/GoText.thy ===== *)
theory GoText
  imports Prelude
begin

text \<open>
  The string functions of Go's standard library that the bridge calls on names: \<open>utf8.Valid\<close> on
  byte slices and \<open>strings.TrimSpace\<close>, \<open>strings.TrimPrefix\<close>, \<open>strings.Contains\<close> on strings. A Go string is its
  bytes, here a \<^typ>\<open>string\<close> of 8-bit characters. \<open>TrimSpace\<close> removes the UTF-8 encodings of the
  runes for which \<open>unicode.IsSpace\<close> holds.
\<close>

unbundle bit_operations_syntax

section \<open>Bytes and strings\<close>

definition string_of_bytes :: "byte list \<Rightarrow> string" where
  "string_of_bytes bs = map (\<lambda>b. char_of (unat b)) bs"

lemma string_of_bytes_Nil [simp]: "string_of_bytes [] = []"
  by (simp add: string_of_bytes_def)

text \<open>RFC 3629: no overlong forms, no surrogates, nothing above \<open>U+10FFFF\<close>.\<close>

definition cont :: "byte \<Rightarrow> bool" where
  "cont b \<longleftrightarrow> 0x80 \<le> b \<and> b \<le> 0xBF"

definition second_ok :: "byte \<Rightarrow> byte \<Rightarrow> bool" where
  "second_ok a b \<longleftrightarrow>
     (if a = 0xE0 then 0xA0 \<le> b \<and> b \<le> 0xBF
      else if a = 0xED then 0x80 \<le> b \<and> b \<le> 0x9F
      else if a = 0xF0 then 0x90 \<le> b \<and> b \<le> 0xBF
      else if a = 0xF4 then 0x80 \<le> b \<and> b \<le> 0x8F
      else cont b)"

fun utf8_valid :: "byte list \<Rightarrow> bool" where
  "utf8_valid [] = True"
| "utf8_valid (a # bs) =
     (if a < 0x80 then utf8_valid bs
      else if 0xC2 \<le> a \<and> a \<le> 0xDF then
        (case bs of b # bs' \<Rightarrow> cont b \<and> utf8_valid bs' | _ \<Rightarrow> False)
      else if 0xE0 \<le> a \<and> a \<le> 0xEF then
        (case bs of b # c # bs' \<Rightarrow> second_ok a b \<and> cont c \<and> utf8_valid bs' | _ \<Rightarrow> False)
      else if 0xF0 \<le> a \<and> a \<le> 0xF4 then
        (case bs of b # c # d # bs' \<Rightarrow> second_ok a b \<and> cont c \<and> cont d \<and> utf8_valid bs' | _ \<Rightarrow> False)
      else False)"

lemma utf8_valid_ascii: "\<forall>b \<in> set bs. b < 0x80 \<Longrightarrow> utf8_valid bs"
  by (induction bs) auto

section \<open>TrimSpace\<close>

definition space_runes :: "string list" where
  "space_runes =
     [[CHR 0x09], [CHR 0x0A], [CHR 0x0B], [CHR 0x0C], [CHR 0x0D], [CHR 0x20],
      [CHR 0xC2, CHR 0x85], [CHR 0xC2, CHR 0xA0], [CHR 0xE1, CHR 0x9A, CHR 0x80],
      [CHR 0xE2, CHR 0x80, CHR 0x80], [CHR 0xE2, CHR 0x80, CHR 0x81], [CHR 0xE2, CHR 0x80, CHR 0x82],
      [CHR 0xE2, CHR 0x80, CHR 0x83], [CHR 0xE2, CHR 0x80, CHR 0x84], [CHR 0xE2, CHR 0x80, CHR 0x85],
      [CHR 0xE2, CHR 0x80, CHR 0x86], [CHR 0xE2, CHR 0x80, CHR 0x87], [CHR 0xE2, CHR 0x80, CHR 0x88],
      [CHR 0xE2, CHR 0x80, CHR 0x89], [CHR 0xE2, CHR 0x80, CHR 0x8A], [CHR 0xE2, CHR 0x80, CHR 0xA8],
      [CHR 0xE2, CHR 0x80, CHR 0xA9], [CHR 0xE2, CHR 0x80, CHR 0xAF], [CHR 0xE2, CHR 0x81, CHR 0x9F],
      [CHR 0xE3, CHR 0x80, CHR 0x80]]"

definition is_prefix :: "string \<Rightarrow> string \<Rightarrow> bool" where
  "is_prefix p s \<longleftrightarrow> take (length p) s = p"

lemma is_prefix_shrinks: "p \<noteq> [] \<Longrightarrow> is_prefix p s \<Longrightarrow> length (drop (length p) s) < length s"
  by (cases s) (auto simp: is_prefix_def)

function trim_by :: "string list \<Rightarrow> string \<Rightarrow> string" where
  "trim_by ps s =
     (case List.find (\<lambda>p. p \<noteq> [] \<and> is_prefix p s) ps of
        None \<Rightarrow> s
      | Some p \<Rightarrow> trim_by ps (drop (length p) s))"
  by pat_completeness auto
termination
  by (relation "measure (\<lambda>(ps, s). length s)")
    (auto simp: find_Some_iff simp del: length_drop intro: is_prefix_shrinks)

declare trim_by.simps [simp del]

definition trim_space :: "string \<Rightarrow> string" where
  "trim_space s = rev (trim_by (map rev space_runes) (rev (trim_by space_runes s)))"

lemma trim_by_Nil [simp]: "trim_by ps [] = []"
  by (subst trim_by.simps) (auto split: option.splits simp: find_Some_iff is_prefix_def)

lemma trim_space_Nil [simp]: "trim_space [] = []"
  by (simp add: trim_space_def)

definition trim_prefix :: "string \<Rightarrow> string \<Rightarrow> string" where
  "trim_prefix s p = (if is_prefix p s then drop (length p) s else s)"

text \<open>Trimming removes a prefix and a suffix and nothing else, and leaves no space at either end.\<close>

lemma trim_by_drop: "\<exists>n. trim_by ps s = drop n s"
proof (induction ps s rule: trim_by.induct)
  case (1 ps s)
  show ?case
  proof (cases "List.find (\<lambda>p. p \<noteq> [] \<and> is_prefix p s) ps")
    case None
    then have "trim_by ps s = drop 0 s" by (subst trim_by.simps) simp
    then show ?thesis ..
  next
    case (Some p)
    with 1 obtain n where "trim_by ps (drop (length p) s) = drop n (drop (length p) s)" by blast
    with Some have "trim_by ps s = drop (n + length p) s" by (subst trim_by.simps) simp
    then show ?thesis ..
  qed
qed

lemma trim_by_stuck: "List.find (\<lambda>p. p \<noteq> [] \<and> is_prefix p (trim_by ps s)) ps = None"
proof (induction ps s rule: trim_by.induct)
  case (1 ps s)
  show ?case
    by (cases "List.find (\<lambda>p. p \<noteq> [] \<and> is_prefix p s) ps")
      (use 1 in \<open>simp_all add: trim_by.simps [of ps s]\<close>)
qed

lemma trim_by_idem [simp]: "trim_by ps (trim_by ps s) = trim_by ps s"
  using trim_by_stuck [of ps s] by (subst trim_by.simps) simp

text \<open>A character that occurs in no space is kept.\<close>

lemma trim_by_keeps:
  "c \<notin> set (concat ps) \<Longrightarrow> c \<in> set s \<Longrightarrow> c \<in> set (trim_by ps s)"
proof (induction ps s rule: trim_by.induct)
  case (1 ps s)
  show ?case
  proof (cases "List.find (\<lambda>p. p \<noteq> [] \<and> is_prefix p s) ps")
    case None
    with 1 show ?thesis by (subst trim_by.simps) simp
  next
    case (Some p)
    then have p: "p \<in> set ps" "take (length p) s = p" by (auto simp: find_Some_iff is_prefix_def)
    then have "c \<notin> set (take (length p) s)" using 1(2) by auto
    then have "c \<in> set (drop (length p) s)" using 1(3) by (metis Un_iff append_take_drop_id set_append)
    with 1 Some show ?thesis by (subst trim_by.simps) simp
  qed
qed

lemma trim_space_keeps:
  assumes "c \<notin> set (concat space_runes)" "c \<in> set s"
  shows "trim_space s \<noteq> []"
proof -
  have "c \<in> set (rev (trim_by space_runes s))" using trim_by_keeps [OF assms] by simp
  moreover have "c \<notin> set (concat (map rev space_runes))" using assms(1) by simp
  ultimately have "c \<in> set (trim_by (map rev space_runes) (rev (trim_by space_runes s)))"
    by (intro trim_by_keeps)
  then show ?thesis by (auto simp: trim_space_def)
qed

end
