(* ===== verification/Adapter.thy ===== *)
theory Adapter
  imports Model GoText Float64
begin

text \<open>
  The publisher of \<^verbatim>\<open>internal/caltopo/adapter.go\<close> over its two interfaces: the record \<open>track_store\<close>
  (the source's \<open>TrackStore\<close>) and the record \<open>gotopo\<close>, the client library the source only calls. Both
  act on one state \<open>'s\<close>. The locale \<open>track_mapping\<close> has the laws of a \<open>TrackStore\<close>.
\<close>

section \<open>What the adapter is given\<close>

text \<open>A feature as the adapter reads it: its id and the string property \<open>deviceId\<close>.\<close>

record feature =
  ftID :: string
  ftDeviceId :: string

record 's gotopo =
  gtMapID :: "'s \<Rightarrow> string"
  gtOpenMap :: "string \<Rightarrow> 's \<Rightarrow> go_error option \<times> 's"
  gtGetFeatures :: "string \<Rightarrow> 's \<Rightarrow> feature list result \<times> 's"
  gtAddLiveTrack :: "string \<Rightarrow> string \<Rightarrow> 's \<Rightarrow> feature result \<times> 's"
  gtUpdateLiveTrack :: "string \<Rightarrow> f64 \<Rightarrow> f64 \<Rightarrow> f64 option \<Rightarrow> 's \<Rightarrow> go_error option \<times> 's"
  gtErrNotFound :: go_error

record 's track_store =
  tsTrackID :: "string \<Rightarrow> 's \<Rightarrow> (string \<times> bool) result \<times> 's"
  tsSaveTrack :: "string \<Rightarrow> string \<Rightarrow> string \<Rightarrow> 's \<Rightarrow> go_error option \<times> 's"

record 's adapter =
  adClient :: "'s gotopo"
  adStore :: "'s track_store"
  adGroup :: string
  adMapID :: string

section \<open>The adapter\<close>

definition ensureOpen :: "'s adapter \<Rightarrow> 's \<Rightarrow> go_error option \<times> 's" where
  "ensureOpen a s =
     (if gtMapID (adClient a) s = adMapID a then (None, s)
      else (case gtOpenMap (adClient a) (adMapID a) s of
          (None, s1) \<Rightarrow> (None, s1)
        | (Some e, s1) \<Rightarrow> (Some (WrapError ''open CalTopo map'' e), s1)))"

definition fleet_id :: "string \<Rightarrow> string" where
  "fleet_id deviceID = ''FLEET:'' @ deviceID"

definition reconcileOrCreate :: "'s adapter \<Rightarrow> string \<Rightarrow> string \<Rightarrow> 's \<Rightarrow> string result \<times> 's" where
  "reconcileOrCreate a deviceID title s =
     (case gtGetFeatures (adClient a) ''LiveTrack'' s of
        (Inl e, s1) \<Rightarrow> (Inl (WrapError ''list CalTopo live tracks'' e), s1)
      | (Inr features, s1) \<Rightarrow>
          (case List.find (\<lambda>ft. ftDeviceId ft = fleet_id deviceID) features of
             Some ft \<Rightarrow> (Inr (ftID ft), s1)
           | None \<Rightarrow>
               (case gtAddLiveTrack (adClient a) (if trim_space title = [] then deviceID else title) deviceID s1 of
                  (Inl e, s2) \<Rightarrow> (Inl (WrapError ''create CalTopo live track'' e), s2)
                | (Inr ft, s2) \<Rightarrow> (Inr (ftID ft), s2))))"

definition device_id :: "'s adapter \<Rightarrow> string \<Rightarrow> string" where
  "device_id a sourceID = adGroup a @ ''-'' @ trim_prefix sourceID ''!''"

definition createAndSaveTrack :: "'s adapter \<Rightarrow> string \<Rightarrow> string \<Rightarrow> 's \<Rightarrow> string result \<times> 's" where
  "createAndSaveTrack a sourceID title s =
     (case reconcileOrCreate a (device_id a sourceID) title s of
        (Inl e, s1) \<Rightarrow> (Inl e, s1)
      | (Inr trackID, s1) \<Rightarrow>
          (case tsSaveTrack (adStore a) sourceID (device_id a sourceID) trackID s1 of
             (Some e, s2) \<Rightarrow> (Inl e, s2)
           | (None, s2) \<Rightarrow> (Inr trackID, s2)))"

definition update_track :: "'s adapter \<Rightarrow> string \<Rightarrow> position \<Rightarrow> 's \<Rightarrow> go_error option \<times> 's" where
  "update_track a trackID p s =
     gtUpdateLiveTrack (adClient a) trackID (poLatitude p) (poLongitude p) (poAltitude p) s"

definition is_not_found :: "'s adapter \<Rightarrow> go_error option \<Rightarrow> bool" where
  "is_not_found a r = (case r of None \<Rightarrow> False | Some e \<Rightarrow> errors_is e (gtErrNotFound (adClient a)))"

definition Publish :: "'s adapter \<Rightarrow> position \<Rightarrow> 's \<Rightarrow> go_error option \<times> 's" where
  "Publish a p s =
     (case ensureOpen a s of
        (Some e, s1) \<Rightarrow> (Some e, s1)
      | (None, s1) \<Rightarrow>
      (case tsTrackID (adStore a) (SourceID p) s1 of
        (Inl e, s2) \<Rightarrow> (Some e, s2)
      | (Inr (trackID, exists), s2) \<Rightarrow>
      (case (if exists then (Inr trackID, s2) else createAndSaveTrack a (SourceID p) (poCallsign p) s2) of
        (Inl e, s3) \<Rightarrow> (Some e, s3)
      | (Inr track, s3) \<Rightarrow>
      (case update_track a track p s3 of
        (r, s4) \<Rightarrow>
          if \<not> is_not_found a r then (r, s4)
          else (case createAndSaveTrack a (SourceID p) (poCallsign p) s4 of
              (Inl e, s5) \<Rightarrow> (Some e, s5)
            | (Inr track', s5) \<Rightarrow> update_track a track' p s5)))))"

section \<open>Device ids\<close>

lemma device_id_node: "device_id a (NodeID node) = adGroup a @ ''-'' @ hex_fixed 8 (unat node)"
  by (simp add: device_id_def NodeID_hex trim_prefix_def is_prefix_def)

lemma device_id_inj: "device_id a (NodeID m) = device_id a (NodeID n) \<longleftrightarrow> m = n"
  using NodeID_inj [of m n] unfolding device_id_node by (simp add: NodeID_hex)

lemma device_id_nonblank: "trim_space (device_id a (NodeID node)) \<noteq> []"
  by (rule trim_space_keeps [of "CHR ''-''"]) (simp_all add: device_id_node space_runes_def)

lemma fleet_id_inj [simp]: "fleet_id x = fleet_id y \<longleftrightarrow> x = y"
  by (simp add: fleet_id_def)

section \<open>Reconciliation\<close>

lemma reconcileOrCreate_Inr:
  assumes "reconcileOrCreate a dev title s = (Inr track, s')"
  obtains (known) features ft where "gtGetFeatures (adClient a) ''LiveTrack'' s = (Inr features, s')"
      "ft \<in> set features" "ftDeviceId ft = fleet_id dev" "track = ftID ft"
  | (created) features s1 ft where "gtGetFeatures (adClient a) ''LiveTrack'' s = (Inr features, s1)"
      "fleet_id dev \<notin> ftDeviceId ` set features"
      "gtAddLiveTrack (adClient a) (if trim_space title = [] then dev else title) dev s1 = (Inr ft, s')"
      "track = ftID ft"
proof -
  obtain features s1 where g: "gtGetFeatures (adClient a) ''LiveTrack'' s = (Inr features, s1)"
    using assms by (auto simp: reconcileOrCreate_def split: prod.splits sum.splits)
  show ?thesis
  proof (cases "List.find (\<lambda>ft. ftDeviceId ft = fleet_id dev) features")
    case None
    then have "fleet_id dev \<notin> ftDeviceId ` set features" by (auto simp: find_None_iff)
    with assms g None show ?thesis
      by (auto simp: reconcileOrCreate_def split: prod.splits sum.splits intro: created)
  next
    case (Some ft)
    then have "ft \<in> set features" "ftDeviceId ft = fleet_id dev" by (auto simp: find_Some_iff)
    with assms g Some show ?thesis by (auto simp: reconcileOrCreate_def intro: known)
  qed
qed

section \<open>Publication\<close>

lemma Publish_None:
  assumes "Publish a p s = (None, s')"
  shows "\<exists>track s1. update_track a track p s1 = (None, s')"
  using assms by (auto simp: Publish_def is_not_found_def split: prod.splits option.splits sum.splits if_splits)

section \<open>A concrete adapter\<close>

text \<open>The map lists one track, of another device.\<close>

definition sample_adapter :: "unit adapter" where
  "sample_adapter =
     \<lparr>adClient = \<lparr>gtMapID = \<lambda>c. [], gtOpenMap = \<lambda>m c. (None, c),
        gtGetFeatures = \<lambda>cls c. (Inr [\<lparr>ftID = ''t1'', ftDeviceId = fleet_id ''other''\<rparr>], c),
        gtAddLiveTrack = \<lambda>title dev c. (Inr \<lparr>ftID = ''t2'', ftDeviceId = fleet_id dev\<rparr>, c),
        gtUpdateLiveTrack = \<lambda>track la lo al c. (None, c), gtErrNotFound = NewError ''not found''\<rparr>,
      adStore = \<lparr>tsTrackID = \<lambda>k c. (Inr ([], False), c), tsSaveTrack = \<lambda>k dev t c. (None, c)\<rparr>,
      adGroup = ''mesh'', adMapID = []\<rparr>"

section \<open>Property\<close>

text \<open>
  A node gets the live track of its own device: the track that is found or created for it either
  carries the node's device id in the map's list, in which case none is created, or was just created
  under that device id because no listed one carries it, with a title that is never blank. No two
  nodes have the same device id, so no node is given another's track.
\<close>
theorem track_reconciled:
  assumes "reconcileOrCreate a (device_id a (NodeID node)) title s = (Inr track, s')"
  shows "(\<exists>features ft. gtGetFeatures (adClient a) ''LiveTrack'' s = (Inr features, s') \<and> ft \<in> set features \<and>
      track = ftID ft \<and> (\<forall>m. ftDeviceId ft = fleet_id (device_id a (NodeID m)) \<longleftrightarrow> m = node)) \<or>
    (\<exists>features s1 ft t. gtGetFeatures (adClient a) ''LiveTrack'' s = (Inr features, s1) \<and>
      fleet_id (device_id a (NodeID node)) \<notin> ftDeviceId ` set features \<and> trim_space t \<noteq> [] \<and>
      t \<in> {title, device_id a (NodeID node)} \<and>
      gtAddLiveTrack (adClient a) t (device_id a (NodeID node)) s1 = (Inr ft, s') \<and> track = ftID ft)"
  using assms
proof (cases rule: reconcileOrCreate_Inr)
  case (known features ft)
  have "\<forall>m. ftDeviceId ft = fleet_id (device_id a (NodeID m)) \<longleftrightarrow> m = node"
    unfolding known(3) by (auto simp: device_id_inj)
  then show ?thesis using known(1,2,4) by blast
next
  case (created features s1 ft)
  define t where "t = (if trim_space title = [] then device_id a (NodeID node) else title)"
  have t: "trim_space t \<noteq> []" "t \<in> {title, device_id a (NodeID node)}"
    by (simp_all add: t_def device_id_nonblank)
  show ?thesis
    by (intro disjI2 exI [of _ features] exI [of _ s1] exI [of _ ft] exI [of _ t] conjI
      created(1,2,4) t created(3) [folded t_def])
qed

theorem track_reconciled_witness:
  "reconcileOrCreate sample_adapter (device_id sample_adapter (NodeID 42)) [] () = (Inr ''t2'', ()) \<and>
   (\<exists>t. trim_space t \<noteq> [] \<and> t \<in> {[], device_id sample_adapter (NodeID 42)})"
proof -
  have "''other'' \<noteq> device_id sample_adapter (NodeID 42)"
    by (simp add: device_id_node sample_adapter_def)
  then have r: "reconcileOrCreate sample_adapter (device_id sample_adapter (NodeID 42)) [] () = (Inr ''t2'', ())"
    using fleet_id_inj [of "''other''" "device_id sample_adapter (NodeID 42)"]
    by (simp add: reconcileOrCreate_def sample_adapter_def fleet_id_def)
  with track_reconciled [OF r] show ?thesis by (auto simp: sample_adapter_def)
qed

section \<open>The interface\<close>

text \<open>
  \<open>lookup\<close> is the mapping a \<open>TrackStore\<close> keeps. A read changes nothing and reports it, a completed
  save sets one entry, a failed one none. The client does not touch the mapping.
\<close>

locale track_mapping =
  fixes a :: "'s adapter"
    and lookup :: "'s \<Rightarrow> string \<Rightarrow> string option"
  assumes read: "tsTrackID (adStore a) k s = (out, s') \<Longrightarrow> lookup s' = lookup s \<and>
      (\<forall>t b. out = Inr (t, b) \<longrightarrow> (b \<longleftrightarrow> lookup s k \<noteq> None) \<and> (b \<longrightarrow> lookup s k = Some t))"
    and save: "tsSaveTrack (adStore a) k dev t s = (r, s') \<Longrightarrow>
      lookup s' = (if r = None then (lookup s)(k := Some t) else lookup s)"
    and client: "gtOpenMap (adClient a) m s = (r, s') \<Longrightarrow> lookup s' = lookup s"
      "gtGetFeatures (adClient a) c s = (fs, s') \<Longrightarrow> lookup s' = lookup s"
      "gtAddLiveTrack (adClient a) title dev s = (ft, s') \<Longrightarrow> lookup s' = lookup s"
      "gtUpdateLiveTrack (adClient a) track la lo al s = (r, s') \<Longrightarrow> lookup s' = lookup s"
begin

lemma reconcile_lookup: "reconcileOrCreate a dev title s = (track, s') \<Longrightarrow> lookup s' = lookup s"
  by (auto simp: reconcileOrCreate_def split: prod.splits sum.splits option.splits) (metis client(2,3))+

lemma ensureOpen_lookup: "ensureOpen a s = (r, s') \<Longrightarrow> lookup s' = lookup s"
  by (auto simp: ensureOpen_def dest: client split: prod.splits option.splits if_splits)

lemma createAndSave_lookup:
  "createAndSaveTrack a k title s = (Inr track, s') \<Longrightarrow> lookup s' = (lookup s)(k := Some track)"
  by (auto simp: createAndSaveTrack_def dest: reconcile_lookup dest!: save split: prod.splits sum.splits option.splits)

lemma update_lookup: "update_track a track p s = (r, s') \<Longrightarrow> lookup s' = lookup s"
  unfolding update_track_def by (rule client)

text \<open>A successful publication updated the track that the mapping now has for the node, and nothing else of the mapping changed.\<close>

lemma Publish_lookup:
  assumes "Publish a p s = (None, s')"
  shows "\<exists>track s1. update_track a track p s1 = (None, s') \<and> lookup s' (SourceID p) = Some track \<and>
    (\<forall>k. k \<noteq> SourceID p \<longrightarrow> lookup s' k = lookup s k)"
proof -
  obtain s1 where o: "ensureOpen a s = (None, s1)"
    using assms by (auto simp: Publish_def split: prod.splits option.splits)
  obtain t b s2 where t: "tsTrackID (adStore a) (SourceID p) s1 = (Inr (t, b), s2)"
    using assms o by (auto simp: Publish_def split: prod.splits sum.splits)
  obtain track s3 where c: "(if b then (Inr t, s2) else createAndSaveTrack a (SourceID p) (poCallsign p) s2) = (Inr track, s3)"
    using assms o t by (auto simp: Publish_def split: prod.splits sum.splits)
  have l3: "lookup s3 (SourceID p) = Some track" "\<And>k. k \<noteq> SourceID p \<Longrightarrow> lookup s3 k = lookup s k"
    using ensureOpen_lookup [OF o] read [OF t] c createAndSave_lookup [of "SourceID p" "poCallsign p" s2 track s3]
    by (auto split: if_splits)
  obtain r s4 where u: "update_track a track p s3 = (r, s4)" by fastforce
  show ?thesis
  proof (cases "is_not_found a r")
    case False
    then have "r = None" "s' = s4" using assms o t c u by (simp_all add: Publish_def)
    with u l3 update_lookup [OF u] show ?thesis by auto
  next
    case True
    then obtain track' s5 where c': "createAndSaveTrack a (SourceID p) (poCallsign p) s4 = (Inr track', s5)"
      and u': "update_track a track' p s5 = (None, s')"
      using assms o t c u by (auto simp: Publish_def split: prod.splits sum.splits)
    with createAndSave_lookup [OF c'] update_lookup [OF u'] update_lookup [OF u] l3 show ?thesis by auto
  qed
qed

end

end
