(* ===== verification/Store.thy ===== *)
theory Store
  imports Model GoText
begin

text \<open>
  \<^verbatim>\<open>internal/store/store.go\<close>: the SQLite database and its operations. The database is the record
  \<open>db\<close>, one list of rows per table in insertion order with the \<open>AUTOINCREMENT\<close> counters; every SQL
  statement of the source is a function on it, with the \<open>UNIQUE\<close>, \<open>REFERENCES\<close>, \<open>NOT NULL\<close> and
  \<open>CHECK\<close> constraints of the schema as its failure branches. Times are stored as the texts
  \<open>formatTime\<close> makes and are compared as texts. SHA-256 is the parameter \<open>sum256\<close>.

  A call of the driver can fail at any point (a locked file, a cancelled context): \<open>faults\<close> says
  which calls of an operation do. A failing statement has no effect; a transaction that does not
  commit has none, since every early return runs the deferred \<open>Rollback\<close>.
\<close>

section \<open>Tables\<close>

record packet_row =
  prId :: int
  prSourceNode :: u32
  prDestinationNode :: u32
  prMeshPacketId :: u32
  prChannelId :: u32
  prPortNum :: "i32 option"
  prHopLimit :: u32
  prHopStart :: u32
  prRssi :: "i32 option"
  prSnr :: f64
  prViaMqtt :: bool
  prPkiEncrypted :: bool
  prEncrypted :: bool
  prReceivedAt :: string
  prRadioRxTime :: "string option"
  prRawPacket :: "byte list"
  prRawPayload :: "byte list"
  prParseStatus :: string
  prParseError :: "string option"

record node_row =
  nrNodeNum :: u32
  nrShortName :: string
  nrLongName :: string
  nrUpdatedAt :: string

record position_row =
  trId :: int
  trPacketId :: int
  trDedupeKey :: string
  trSourceNode :: u32
  trMeshPacketId :: u32
  trSourcePort :: i32
  trCallsign :: string
  trDeviceCallsign :: "string option"
  trLatitude :: f64
  trLongitude :: f64
  trAltitude :: "f64 option"
  trSpeed :: "f64 option"
  trCourse :: "f64 option"
  trLocationSource :: "string option"
  trPrecisionBits :: u32
  trSourceTime :: string
  trReceivedAt :: string

record track_row =
  krSourceId :: string
  krDeviceId :: string
  krTrackId :: string
  krCreatedAt :: string

datatype delivery_state = Pending | Delivered | Failed

record delivery_row =
  drId :: int
  drPositionId :: int
  drState :: delivery_state
  drAttempts :: int
  drNextAttemptAt :: string
  drLastError :: "string option"
  drDeliveredAt :: "string option"

record db =
  packets :: "packet_row list"
  nodes :: "node_row list"
  positions :: "position_row list"
  tracks :: "track_row list"
  deliveries :: "delivery_row list"
  packet_seq :: int
  position_seq :: int
  delivery_seq :: int

definition empty_db :: db where
  "empty_db = \<lparr>packets = [], nodes = [], positions = [], tracks = [], deliveries = [],
     packet_seq = 0, position_seq = 0, delivery_seq = 0\<rparr>"

record delivery =
  dvID :: int
  dvPosition :: position
  dvAttempts :: int

section \<open>Helpers of the source\<close>

definition formatTime :: "time \<Rightarrow> string" where
  "formatTime t = rfc3339_nano t"

text \<open>The message of \<open>time.Parse\<close> is not modelled; the stored text is in the wrapping.\<close>

definition parseTime :: "string \<Rightarrow> time result" where
  "parseTime value =
     (case parse_rfc3339 value of
        None \<Rightarrow> Inl (WrapError (''parse stored timestamp '' @ value) (NewError ''parsing time''))
      | Some t \<Rightarrow> Inr t)"

definition nullablePort :: "packet \<Rightarrow> i32 option" where
  "nullablePort p = (if pkEncrypted p then None else Some (pkPort p))"

definition nullableString :: "string \<Rightarrow> string option" where
  "nullableString value = (if value = [] then None else Some value)"

definition nullableTime :: "time option \<Rightarrow> string option" where
  "nullableTime value = map_option formatTime value"

definition coalesce :: "string option \<Rightarrow> string" where
  "coalesce v = (case v of None \<Rightarrow> [] | Some s \<Rightarrow> s)"

definition requireChanged :: "int \<Rightarrow> string \<Rightarrow> go_error option" where
  "requireChanged rows description =
     (if rows \<noteq> 1 then Some (NewError (description @ '' was not found'')) else None)"

definition key_text :: "position \<Rightarrow> string" where
  "key_text p = hex_fixed 8 (unat (poSourceNode p)) @ '':'' @ fmt_fixed7 (poLatitude p) @ '':'' @
     fmt_fixed7 (poLongitude p) @ '':'' @ formatTime (poSourceTime p)"

definition positionKey :: "(string \<Rightarrow> byte list) \<Rightarrow> position \<Rightarrow> string" where
  "positionKey sum256 p = concat (map (\<lambda>b. hex_fixed 2 (unat b)) (sum256 (key_text p)))"

section \<open>Driver calls\<close>

datatype db_call = Begin | Insert_Packet | Packet_RowID | Select_Duplicate | Insert_Position
  | Position_RowID | Insert_Delivery | Commit | Query | Scan_Row nat | Iterate | Exec | Rows_Affected
  | Upsert_Node | Update_Callsigns

type_synonym faults = "db_call \<Rightarrow> go_error option"

abbreviation no_faults :: faults where
  "no_faults \<equiv> \<lambda>_. None"

definition attempt :: "faults \<Rightarrow> db_call \<Rightarrow> 'a result \<Rightarrow> 'a result" where
  "attempt io c r = (case io c of Some e \<Rightarrow> Inl e | None \<Rightarrow> r)"

definition constraint_failed :: "string \<Rightarrow> go_error" where
  "constraint_failed c = NewError (''constraint failed: '' @ c)"

section \<open>Statements\<close>

text \<open>
  SQLite checks the constraints in this order; it stores NaN as NULL, which the \<open>NOT NULL\<close> columns
  refuse and the nullable ones take.
\<close>

definition stored_float :: "f64 option \<Rightarrow> f64 option" where
  "stored_float x = (if x = Some NaN then None else x)"

definition packet_row_of :: "int \<Rightarrow> packet \<Rightarrow> packet_row" where
  "packet_row_of i p = \<lparr>prId = i, prSourceNode = pkFrom p,
     prDestinationNode = pkTo p, prMeshPacketId = pkMeshPacketID p, prChannelId = pkChannel p,
     prPortNum = nullablePort p, prHopLimit = pkHopLimit p, prHopStart = pkHopStart p,
     prRssi = pkRSSI p, prSnr = pkSNR p, prViaMqtt = pkViaMQTT p, prPkiEncrypted = pkPKIEncrypted p,
     prEncrypted = pkEncrypted p, prReceivedAt = formatTime (pkReceivedAt p),
     prRadioRxTime = nullableTime (pkRadioRxTime p), prRawPacket = pkRawPacket p,
     prRawPayload = pkRawPayload p, prParseStatus = pkParseStatus p,
     prParseError = nullableString (pkParseError p)\<rparr>"

definition insert_packet :: "packet \<Rightarrow> db \<Rightarrow> db result" where
  "insert_packet p d =
     (if pkSNR p = NaN then Inl (constraint_failed ''NOT NULL mesh_packets.snr'')
      else Inr (d\<lparr>packet_seq := packet_seq d + 1,
        packets := packets d @ [packet_row_of (packet_seq d + 1) p]\<rparr>))"

definition position_of_key :: "string \<Rightarrow> db \<Rightarrow> position_row option" where
  "position_of_key key d = List.find (\<lambda>r. trDedupeKey r = key) (positions d)"

definition between :: "rat \<Rightarrow> f64 \<Rightarrow> bool" where
  "between b x \<longleftrightarrow> f64_le (Fin (- b)) x \<and> f64_le x (Fin b)"

definition position_row_of :: "int \<Rightarrow> int \<Rightarrow> string \<Rightarrow> i32 \<Rightarrow> position \<Rightarrow> position_row" where
  "position_row_of i packetID key sourcePort p = \<lparr>trId = i, trPacketId = packetID,
     trDedupeKey = key, trSourceNode = poSourceNode p, trMeshPacketId = poMeshPacketID p,
     trSourcePort = sourcePort, trCallsign = poCallsign p,
     trDeviceCallsign = nullableString (poDeviceCallsign p), trLatitude = poLatitude p,
     trLongitude = poLongitude p, trAltitude = stored_float (poAltitude p),
     trSpeed = stored_float (poSpeed p), trCourse = stored_float (poCourse p),
     trLocationSource = nullableString (poLocationSource p),
     trPrecisionBits = poPrecisionBits p, trSourceTime = formatTime (poSourceTime p),
     trReceivedAt = formatTime (poReceivedAt p)\<rparr>"

definition insert_position :: "int \<Rightarrow> string \<Rightarrow> i32 \<Rightarrow> position \<Rightarrow> db \<Rightarrow> db result" where
  "insert_position packetID key sourcePort p d =
     (if poLatitude p = NaN then Inl (constraint_failed ''NOT NULL tak_positions.latitude'')
      else if poLongitude p = NaN then Inl (constraint_failed ''NOT NULL tak_positions.longitude'')
      else if \<not> between 90 (poLatitude p) then Inl (constraint_failed ''CHECK latitude'')
      else if \<not> between 180 (poLongitude p) then Inl (constraint_failed ''CHECK longitude'')
      else if key \<in> trDedupeKey ` set (positions d)
        then Inl (constraint_failed ''UNIQUE tak_positions.dedupe_key'')
      else if packetID \<notin> prId ` set (packets d) then Inl (constraint_failed ''FOREIGN KEY'')
      else Inr (d\<lparr>position_seq := position_seq d + 1, positions := positions d @
        [position_row_of (position_seq d + 1) packetID key sourcePort p]\<rparr>))"

definition delivery_row_of :: "int \<Rightarrow> int \<Rightarrow> time \<Rightarrow> delivery_row" where
  "delivery_row_of i positionID now = \<lparr>drId = i, drPositionId = positionID, drState = Pending,
     drAttempts = 0, drNextAttemptAt = formatTime now, drLastError = None, drDeliveredAt = None\<rparr>"

definition insert_delivery :: "int \<Rightarrow> time \<Rightarrow> db \<Rightarrow> db result" where
  "insert_delivery positionID now d =
     (if positionID \<in> drPositionId ` set (deliveries d)
        then Inl (constraint_failed ''UNIQUE caltopo_deliveries.position_id'')
      else if positionID \<notin> trId ` set (positions d) then Inl (constraint_failed ''FOREIGN KEY'')
      else Inr (d\<lparr>delivery_seq := delivery_seq d + 1, deliveries := deliveries d @
        [delivery_row_of (delivery_seq d + 1) positionID now]\<rparr>))"

section \<open>Archive\<close>

text \<open>
  The statements run on the transaction's copy; each error returns the database as it was before
  \<open>BeginTx\<close>, each commit the copy. \<open>commit\<close> is the call the three return paths end in.
\<close>

definition commit :: "faults \<Rightarrow> string \<Rightarrow> db \<Rightarrow> db \<Rightarrow> 'a \<Rightarrow> 'a result \<times> db" where
  "commit io what old new v =
     (case attempt io Commit (Inr ()) of
        Inl e \<Rightarrow> (Inl (WrapError what e), old)
      | Inr u \<Rightarrow> (Inr v, new))"

definition Archive ::
  "(string \<Rightarrow> byte list) \<Rightarrow> faults \<Rightarrow> time \<Rightarrow> packet \<Rightarrow> position option \<Rightarrow> bool \<Rightarrow> db
    \<Rightarrow> (int \<times> int \<times> bool) result \<times> db" where
  "Archive sum256 io now p pos enqueue d =
     (case attempt io Begin (Inr ()) of
        Inl e \<Rightarrow> (Inl (WrapError ''begin packet archive'' e), d)
      | Inr u \<Rightarrow>
      (case attempt io Insert_Packet (insert_packet p d) of
        Inl e \<Rightarrow> (Inl (WrapError ''insert mesh packet'' e), d)
      | Inr tx1 \<Rightarrow>
      (case attempt io Packet_RowID (Inr (packet_seq tx1)) of
        Inl e \<Rightarrow> (Inl (WrapError ''read mesh packet ID'' e), d)
      | Inr packetID \<Rightarrow>
      (case pos of
        None \<Rightarrow> commit io ''commit packet archive'' d tx1 (packetID, 0, False)
      | Some position \<Rightarrow>
        (let sourcePort = (if poSourcePort position = 0 then pkPort p else poSourcePort position);
             dedupeKey = positionKey sum256 position in
         case attempt io Select_Duplicate (Inr (position_of_key dedupeKey tx1)) of
           Inl e \<Rightarrow> (Inl (WrapError ''query duplicate position'' e), d)
         | Inr (Some existing) \<Rightarrow>
             commit io ''commit duplicate packet archive'' d tx1 (packetID, trId existing, False)
         | Inr None \<Rightarrow>
         (case attempt io Insert_Position (insert_position packetID dedupeKey sourcePort position tx1) of
           Inl e \<Rightarrow> (Inl (WrapError ''insert position'' e), d)
         | Inr tx2 \<Rightarrow>
         (case attempt io Position_RowID (Inr (position_seq tx2)) of
           Inl e \<Rightarrow> (Inl (WrapError ''read TAK position ID'' e), d)
         | Inr positionID \<Rightarrow>
         (case (if enqueue then attempt io Insert_Delivery (insert_delivery positionID now tx2)
                else Inr tx2) of
           Inl e \<Rightarrow> (Inl (WrapError ''enqueue CalTopo delivery'' e), d)
         | Inr tx3 \<Rightarrow>
             commit io ''commit packet and position archive'' d tx3 (packetID, positionID, True)))))))))"

section \<open>The delivery queue\<close>

definition joined :: "db \<Rightarrow> (delivery_row \<times> position_row) list" where
  "joined d = [(r, p). r \<leftarrow> deliveries d, p \<leftarrow> positions d, trId p = drPositionId r]"

text \<open>The pairs the \<open>NOT EXISTS\<close> subquery looks for.\<close>

definition earlier :: "delivery_row \<times> position_row \<Rightarrow> delivery_row \<times> position_row \<Rightarrow> bool" where
  "earlier x y \<longleftrightarrow>
     (let (er, ep) = x; (r, p) = y in
      drState er = Pending \<and> trSourceNode ep = trSourceNode p \<and>
      (trSourceTime ep < trSourceTime p \<or> (trSourceTime ep = trSourceTime p \<and> drId er < drId r)))"

definition eligible :: "time \<Rightarrow> db \<Rightarrow> delivery_row \<times> position_row \<Rightarrow> bool" where
  "eligible now d x \<longleftrightarrow>
     drState (fst x) = Pending \<and> drNextAttemptAt (fst x) \<le> formatTime now \<and>
     \<not> (\<exists>y \<in> set (joined d). earlier y x)"

definition limit_rows :: "int \<Rightarrow> 'a list \<Rightarrow> 'a list" where
  "limit_rows n xs = (if n < 0 then xs else take (nat n) xs)"

definition pending_rows :: "time \<Rightarrow> int \<Rightarrow> db \<Rightarrow> (delivery_row \<times> position_row) list" where
  "pending_rows now n d =
     limit_rows n (sort_key (\<lambda>(r, p). (trSourceTime p, drId r)) (filter (eligible now d) (joined d)))"

text \<open>
  Both queries select the position's own id into the field \<open>PacketID\<close> of the model.
\<close>

definition floatPointer :: "f64 option \<Rightarrow> f64 option" where
  "floatPointer value = (case value of None \<Rightarrow> None | Some x \<Rightarrow> Some x)"

definition scan_position :: "position_row \<Rightarrow> position result" where
  "scan_position r =
     (case parseTime (trSourceTime r) of
        Inl e \<Rightarrow> Inl e
      | Inr sourceTime \<Rightarrow>
      (case parseTime (trReceivedAt r) of
        Inl e \<Rightarrow> Inl e
      | Inr receivedAt \<Rightarrow>
          Inr \<lparr>poPacketID = trId r, poSourceNode = trSourceNode r, poMeshPacketID = trMeshPacketId r,
            poSourcePort = trSourcePort r, poCallsign = trCallsign r,
            poDeviceCallsign = coalesce (trDeviceCallsign r), poLatitude = trLatitude r,
            poLongitude = trLongitude r, poAltitude = floatPointer (trAltitude r),
            poSpeed = floatPointer (trSpeed r), poCourse = floatPointer (trCourse r),
            poLocationSource = coalesce (trLocationSource r),
            poPrecisionBits = trPrecisionBits r, poSourceTime = sourceTime,
            poReceivedAt = receivedAt\<rparr>))"

text \<open>The loop over \<open>rows.Next\<close>: \<open>rows.Scan\<close> of row \<open>n\<close>, then the conversion \<open>f\<close> of its columns.\<close>

fun scan_all :: "faults \<Rightarrow> string \<Rightarrow> nat \<Rightarrow> ('r \<Rightarrow> 'a result) \<Rightarrow> 'r list \<Rightarrow> 'a list result" where
  "scan_all io what n f [] = Inr []"
| "scan_all io what n f (r # rs) =
     (case attempt io (Scan_Row n) (Inr r) of
        Inl e \<Rightarrow> Inl (WrapError what e)
      | Inr columns \<Rightarrow>
      (case f columns of Inl e \<Rightarrow> Inl e
       | Inr a \<Rightarrow> (case scan_all io what (Suc n) f rs of Inl e \<Rightarrow> Inl e | Inr as \<Rightarrow> Inr (a # as))))"

definition scan_delivery :: "delivery_row \<times> position_row \<Rightarrow> delivery result" where
  "scan_delivery x =
     (case scan_position (snd x) of Inl e \<Rightarrow> Inl e
      | Inr p \<Rightarrow> Inr \<lparr>dvID = drId (fst x), dvPosition = p, dvAttempts = drAttempts (fst x)\<rparr>)"

definition PendingDeliveries :: "faults \<Rightarrow> time \<Rightarrow> int \<Rightarrow> db \<Rightarrow> delivery list result" where
  "PendingDeliveries io now n d =
     (case attempt io Query (Inr (pending_rows now n d)) of
        Inl e \<Rightarrow> Inl (WrapError ''query pending CalTopo deliveries'' e)
      | Inr rows \<Rightarrow>
      (case scan_all io ''scan pending CalTopo delivery'' 0 scan_delivery rows of
        Inl e \<Rightarrow> Inl e
      | Inr ds \<Rightarrow>
      (case attempt io Iterate (Inr ()) of
        Inl e \<Rightarrow> Inl (WrapError ''iterate pending CalTopo deliveries'' e)
      | Inr u \<Rightarrow> Inr ds)))"

definition update_deliveries :: "int \<Rightarrow> (delivery_row \<Rightarrow> delivery_row) \<Rightarrow> db \<Rightarrow> db" where
  "update_deliveries i f d =
     d\<lparr>deliveries := map (\<lambda>r. if drId r = i \<and> drState r = Pending then f r else r) (deliveries d)\<rparr>"

definition matching_deliveries :: "int \<Rightarrow> db \<Rightarrow> int" where
  "matching_deliveries i d = int (length (filter (\<lambda>r. drId r = i \<and> drState r = Pending) (deliveries d)))"

definition update_pending ::
  "faults \<Rightarrow> string \<Rightarrow> int \<Rightarrow> (delivery_row \<Rightarrow> delivery_row) \<Rightarrow> db \<Rightarrow> go_error option \<times> db" where
  "update_pending io what i f d =
     (case attempt io Exec (Inr ()) of
        Inl e \<Rightarrow> (Some (WrapError what e), d)
      | Inr u \<Rightarrow>
          (case attempt io Rows_Affected (Inr (matching_deliveries i d)) of
             Inl e \<Rightarrow> (Some e, update_deliveries i f d)
           | Inr rows \<Rightarrow> (requireChanged rows ''pending CalTopo delivery'', update_deliveries i f d)))"

definition MarkDelivered :: "faults \<Rightarrow> time \<Rightarrow> int \<Rightarrow> db \<Rightarrow> go_error option \<times> db" where
  "MarkDelivered io now deliveryID d =
     update_pending io ''mark CalTopo delivery complete'' deliveryID
       (\<lambda>r. r\<lparr>drState := Delivered, drDeliveredAt := Some (formatTime now), drLastError := None\<rparr>) d"

definition MarkFailed ::
  "faults \<Rightarrow> int \<Rightarrow> int \<Rightarrow> time \<Rightarrow> bool \<Rightarrow> go_error \<Rightarrow> db \<Rightarrow> go_error option \<times> db" where
  "MarkFailed io deliveryID attempts next_at terminal deliveryErr d =
     (let st = (if terminal then Failed else Pending) in
      update_pending io ''record CalTopo delivery failure'' deliveryID
        (\<lambda>r. r\<lparr>drState := st, drAttempts := attempts, drNextAttemptAt := formatTime next_at,
           drLastError := Some (error_text deliveryErr)\<rparr>) d)"

section \<open>Latest positions\<close>

definition newer :: "position_row \<Rightarrow> position_row \<Rightarrow> bool" where
  "newer n p \<longleftrightarrow> trSourceNode n = trSourceNode p \<and>
     (trSourceTime n > trSourceTime p \<or> (trSourceTime n = trSourceTime p \<and> trId n > trId p))"

definition latest_rows :: "db \<Rightarrow> position_row list" where
  "latest_rows d = sort_key (\<lambda>p. (trSourceTime p, trId p))
     (filter (\<lambda>p. \<not> (\<exists>n \<in> set (positions d). newer n p)) (positions d))"

definition Positions :: "faults \<Rightarrow> db \<Rightarrow> position list result" where
  "Positions io d =
     (case attempt io Query (Inr (latest_rows d)) of
        Inl e \<Rightarrow> Inl (WrapError ''query TAK positions'' e)
      | Inr rows \<Rightarrow>
      (case scan_all io ''scan TAK position'' 0 scan_position rows of
        Inl e \<Rightarrow> Inl e
      | Inr ps \<Rightarrow>
      (case attempt io Iterate (Inr ()) of
        Inl e \<Rightarrow> Inl (WrapError ''iterate TAK positions'' e)
      | Inr u \<Rightarrow> Inr ps)))"

section \<open>Nodes\<close>

definition upsert_node_row :: "u32 \<Rightarrow> string \<Rightarrow> string \<Rightarrow> time \<Rightarrow> db \<Rightarrow> db" where
  "upsert_node_row node short long now d =
     (let new = \<lparr>nrNodeNum = node, nrShortName = short, nrLongName = long, nrUpdatedAt = formatTime now\<rparr> in
      if node \<in> nrNodeNum ` set (nodes d)
      then d\<lparr>nodes := map (\<lambda>r. if nrNodeNum r = node then new else r) (nodes d)\<rparr>
      else d\<lparr>nodes := nodes d @ [new]\<rparr>)"

definition rename_positions :: "u32 \<Rightarrow> string \<Rightarrow> db \<Rightarrow> db" where
  "rename_positions node callsign d =
     d\<lparr>positions := map (\<lambda>r. if trSourceNode r = node \<and> trCallsign r = NodeID node
        then r\<lparr>trCallsign := callsign\<rparr> else r) (positions d)\<rparr>"

definition UpsertNode :: "faults \<Rightarrow> time \<Rightarrow> u32 \<Rightarrow> string \<Rightarrow> string \<Rightarrow> db \<Rightarrow> go_error option \<times> db" where
  "UpsertNode io now node shortName longName d =
     (let short = trim_space shortName; long = trim_space longName in
      case attempt io Begin (Inr ()) of
        Inl e \<Rightarrow> (Some (WrapError ''begin node update'' e), d)
      | Inr u \<Rightarrow>
      (case attempt io Upsert_Node (Inr (upsert_node_row node short long now d)) of
        Inl e \<Rightarrow> (Some (WrapError ''upsert mesh node'' e), d)
      | Inr tx1 \<Rightarrow>
        (let callsign = (if short = [] then long else short) in
         case (if callsign \<noteq> [] then attempt io Update_Callsigns (Inr (rename_positions node callsign tx1))
               else Inr tx1) of
           Inl e \<Rightarrow> (Some (WrapError ''update node position callsigns'' e), d)
         | Inr tx2 \<Rightarrow>
         (case attempt io Commit (Inr ()) of
           Inl e \<Rightarrow> (Some (WrapError ''commit node update'' e), d)
         | Inr u \<Rightarrow> (None, tx2)))))"

definition NodeCallsign :: "faults \<Rightarrow> u32 \<Rightarrow> db \<Rightarrow> string result" where
  "NodeCallsign io node d =
     (case attempt io Query (Inr (List.find (\<lambda>r. nrNodeNum r = node) (nodes d))) of
        Inl e \<Rightarrow> Inl (WrapError ''query mesh node'' e)
      | Inr None \<Rightarrow> Inr []
      | Inr (Some r) \<Rightarrow> Inr (if nrShortName r \<noteq> [] then nrShortName r else nrLongName r))"

section \<open>Live tracks\<close>

definition TrackID :: "faults \<Rightarrow> string \<Rightarrow> db \<Rightarrow> (string \<times> bool) result" where
  "TrackID io sourceID d =
     (case attempt io Query (Inr (List.find (\<lambda>r. krSourceId r = sourceID) (tracks d))) of
        Inl e \<Rightarrow> Inl (WrapError ''query CalTopo track mapping'' e)
      | Inr None \<Rightarrow> Inr ([], False)
      | Inr (Some r) \<Rightarrow> Inr (krTrackId r, True))"

text \<open>The upsert's conflict target is \<open>source_id\<close>; a clash on another unique column is an error.\<close>

definition upsert_track :: "string \<Rightarrow> string \<Rightarrow> string \<Rightarrow> time \<Rightarrow> db \<Rightarrow> db result" where
  "upsert_track sourceID deviceID trackID now d =
     (if \<exists>r \<in> set (tracks d). krSourceId r \<noteq> sourceID \<and> krDeviceId r = deviceID
      then Inl (constraint_failed ''UNIQUE caltopo_tracks.device_id'')
      else if \<exists>r \<in> set (tracks d). krSourceId r \<noteq> sourceID \<and> krTrackId r = trackID
      then Inl (constraint_failed ''UNIQUE caltopo_tracks.track_id'')
      else if \<exists>r \<in> set (tracks d). krSourceId r = sourceID
      then Inr (d\<lparr>tracks := map (\<lambda>r. if krSourceId r = sourceID
        then r\<lparr>krDeviceId := deviceID, krTrackId := trackID\<rparr> else r) (tracks d)\<rparr>)
      else Inr (d\<lparr>tracks := tracks d @ [\<lparr>krSourceId = sourceID, krDeviceId = deviceID,
        krTrackId = trackID, krCreatedAt = formatTime now\<rparr>]\<rparr>))"

definition SaveTrack :: "faults \<Rightarrow> time \<Rightarrow> string \<Rightarrow> string \<Rightarrow> string \<Rightarrow> db \<Rightarrow> go_error option \<times> db" where
  "SaveTrack io now sourceID deviceID trackID d =
     (case attempt io Exec (upsert_track sourceID deviceID trackID now d) of
        Inl e \<Rightarrow> (Some (WrapError ''save CalTopo track mapping'' e), d)
      | Inr d' \<Rightarrow> (None, d'))"

lemma between_NaN [simp]: "\<not> between b NaN"
  by (simp add: between_def f64_le_def)

lemma floatPointer_eq [simp]: "floatPointer v = v"
  by (simp add: floatPointer_def split: option.splits)

lemmas row_of_defs = packet_row_of_def position_row_of_def delivery_row_of_def
lemmas statement_defs = insert_packet_def insert_position_def insert_delivery_def
  upsert_node_row_def rename_positions_def upsert_track_def update_deliveries_def

end
