(* ===== verification/PositionFilter.thy ===== *)
theory PositionFilter
  imports Store
begin

text \<open>
  The position filter of \<^verbatim>\<open>internal/caltopo/worker.go\<close>: per node the last three positions and the
  last published one, and per delivery the decision taken, kept until the delivery is completed. The
  distance is a parameter \<open>dst\<close> of \<open>prepare\<close>; \<open>Distance.thy\<close> has the haversine formula.
\<close>

section \<open>State\<close>

record filter_state =
  fsSamples :: "position list"
  fsLastPublished :: "position option"

record position_filter =
  pfNodes :: "u32 \<Rightarrow> filter_state option"
  pfPrepared :: "int \<Rightarrow> (position \<times> bool) option"
  pfMovementMeters :: f64
  pfHeartbeat :: duration

type_synonym distance = "position \<Rightarrow> position \<Rightarrow> real"

definition newPositionFilter :: "f64 \<Rightarrow> duration \<Rightarrow> position_filter" where
  "newPositionFilter movement heartbeat =
     \<lparr>pfNodes = Map.empty, pfPrepared = Map.empty, pfMovementMeters = movement, pfHeartbeat = heartbeat\<rparr>"

section \<open>Operations\<close>

definition medianCoordinate :: "position list \<Rightarrow> (position \<Rightarrow> f64) \<Rightarrow> f64" where
  "medianCoordinate ps coord = (let values = sort (map coord ps) in values ! (length values div 2))"

text \<open>\<open>distance >= threshold\<close> for a real distance and a \<open>float64\<close> threshold.\<close>

fun at_least :: "real \<Rightarrow> f64 \<Rightarrow> bool" where
  "at_least r (Fin x) = (real_of_rat x \<le> r)"
| "at_least r NegInf = True"
| "at_least r PosInf = False"
| "at_least r NaN = False"

definition last_three :: "position list \<Rightarrow> position list" where
  "last_three samples = (if length samples > 3 then drop (length samples - 3) samples else samples)"

definition node_state :: "position_filter \<Rightarrow> u32 \<Rightarrow> filter_state" where
  "node_state f node =
     (case pfNodes f node of None \<Rightarrow> \<lparr>fsSamples = [], fsLastPublished = None\<rparr> | Some st \<Rightarrow> st)"

definition new_samples :: "position_filter \<Rightarrow> delivery \<Rightarrow> position list" where
  "new_samples f d =
     last_three (fsSamples (node_state f (poSourceNode (dvPosition d))) @ [dvPosition d])"

definition candidate :: "position_filter \<Rightarrow> delivery \<Rightarrow> position" where
  "candidate f d =
     (if length (new_samples f d) = 3
      then (dvPosition d)\<lparr>poLatitude := medianCoordinate (new_samples f d) poLatitude,
        poLongitude := medianCoordinate (new_samples f d) poLongitude\<rparr>
      else dvPosition d)"

definition heartbeat_due :: "position_filter \<Rightarrow> position \<Rightarrow> position \<Rightarrow> bool" where
  "heartbeat_due f pos published \<longleftrightarrow>
     time_sub (poSourceTime pos) (poSourceTime published) \<ge> pfHeartbeat f"

definition decide :: "distance \<Rightarrow> position_filter \<Rightarrow> delivery \<Rightarrow> bool" where
  "decide dst f d =
     (case fsLastPublished (node_state f (poSourceNode (dvPosition d))) of
        None \<Rightarrow> True
      | Some published \<Rightarrow>
          heartbeat_due f (dvPosition d) published \<or>
          (length (new_samples f d) = 3 \<and> at_least (dst published (candidate f d)) (pfMovementMeters f)))"

definition prepare :: "distance \<Rightarrow> position_filter \<Rightarrow> delivery \<Rightarrow> (position \<times> bool) \<times> position_filter" where
  "prepare dst f d =
     (case pfPrepared f (dvID d) of
        Some prepared \<Rightarrow> (prepared, f)
      | None \<Rightarrow>
          (let node = poSourceNode (dvPosition d); pos = candidate f d; publish = decide dst f d in
           ((pos, publish),
            f\<lparr>pfNodes := (pfNodes f)(node := Some ((node_state f node)\<lparr>fsSamples := new_samples f d\<rparr>)),
              pfPrepared := (pfPrepared f)(dvID d := Some (pos, publish))\<rparr>)))"

text \<open>
  \<open>f.prepared[id]\<close> of an absent id is the zero value, whose node is 0; \<open>f.nodes[node]\<close> of an absent
  node is nil, and writing through it panics: the result None.
\<close>

definition zero_position :: position where
  "zero_position = \<lparr>poPacketID = 0, poSourceNode = 0, poMeshPacketID = 0, poSourcePort = 0,
     poCallsign = [], poDeviceCallsign = [], poLatitude = Fin 0, poLongitude = Fin 0, poAltitude = None,
     poSpeed = None, poCourse = None, poLocationSource = [], poPrecisionBits = 0,
     poSourceTime = zero_time, poReceivedAt = zero_time\<rparr>"

definition complete :: "position_filter \<Rightarrow> int \<Rightarrow> bool \<Rightarrow> position_filter option" where
  "complete f deliveryID published =
     (let position = (case pfPrepared f deliveryID of None \<Rightarrow> zero_position | Some (p, _) \<Rightarrow> p);
          done_f = f\<lparr>pfPrepared := (pfPrepared f)(deliveryID := None)\<rparr> in
      if published
      then (case pfNodes f (poSourceNode position) of
              None \<Rightarrow> None
            | Some st \<Rightarrow> Some (done_f\<lparr>pfNodes := (pfNodes f)(poSourceNode position :=
                Some (st\<lparr>fsLastPublished := Some position\<rparr>))\<rparr>))
      else Some done_f)"

section \<open>The median of three\<close>

lemma median_three:
  "length ps = 3 \<Longrightarrow> \<exists>a b c. ps = [a, b, c]"
  by (auto simp: numeral_eq_Suc length_Suc_conv)

lemma median3_cases:
  fixes x y z :: f64
  shows "sort [x, y, z] ! 1 = (if x \<le> y then (if y \<le> z then y else if x \<le> z then z else x)
     else (if x \<le> z then x else if y \<le> z then z else y))"
  by auto

lemma medianCoordinate_three:
  "medianCoordinate [a, b, c] coord = sort [coord a, coord b, coord c] ! 1"
  by (simp add: medianCoordinate_def del: sort_key_simps)

lemma median_member: "medianCoordinate [a, b, c] coord \<in> {coord a, coord b, coord c}"
  unfolding medianCoordinate_three median3_cases by auto

lemma median_majority:
  assumes "lo \<le> coord a" "coord a \<le> hi" "lo \<le> coord b" "coord b \<le> hi"
  shows "lo \<le> medianCoordinate [a, b, c] coord \<and> medianCoordinate [a, b, c] coord \<le> hi"
    and "lo \<le> medianCoordinate [a, c, b] coord \<and> medianCoordinate [a, c, b] coord \<le> hi"
    and "lo \<le> medianCoordinate [c, a, b] coord \<and> medianCoordinate [c, a, b] coord \<le> hi"
  using assms unfolding medianCoordinate_three median3_cases by auto

section \<open>Invariant\<close>

text \<open>
  At most three samples per node, all of that node, and every prepared position is of a node the
  filter knows.
\<close>

definition state_ok :: "u32 \<Rightarrow> filter_state \<Rightarrow> bool" where
  "state_ok node st \<longleftrightarrow> length (fsSamples st) \<le> 3 \<and> (\<forall>p \<in> set (fsSamples st). poSourceNode p = node) \<and>
     (\<forall>p. fsLastPublished st = Some p \<longrightarrow> poSourceNode p = node)"

definition filter_ok :: "position_filter \<Rightarrow> bool" where
  "filter_ok f \<longleftrightarrow>
     (\<forall>node st. pfNodes f node = Some st \<longrightarrow> state_ok node st) \<and>
     (\<forall>i x. pfPrepared f i = Some x \<longrightarrow> pfNodes f (poSourceNode (fst x)) \<noteq> None)"

lemma filter_ok_new: "filter_ok (newPositionFilter movement heartbeat)"
  by (simp add: filter_ok_def newPositionFilter_def)

lemma length_last_three: "length (last_three xs) = min 3 (length xs)"
  by (simp add: last_three_def)

lemma set_last_three: "set (last_three xs) \<subseteq> set xs"
  by (simp add: last_three_def set_drop_subset)

lemma prepare_known: "pfPrepared f (dvID d) = Some x \<Longrightarrow> prepare dst f d = (x, f)"
  by (simp add: prepare_def)

lemma candidate_fields [simp]:
  "poSourceNode (candidate f d) = poSourceNode (dvPosition d)"
  "poCallsign (candidate f d) = poCallsign (dvPosition d)"
  "poSourceTime (candidate f d) = poSourceTime (dvPosition d)"
  "poAltitude (candidate f d) = poAltitude (dvPosition d)"
  by (simp_all add: candidate_def)

lemma prepare_fresh:
  "pfPrepared f (dvID d) = None \<Longrightarrow> prepare dst f d = ((candidate f d, decide dst f d),
     f\<lparr>pfNodes := (pfNodes f)(poSourceNode (dvPosition d) := Some ((node_state f (poSourceNode (dvPosition d)))
         \<lparr>fsSamples := new_samples f d\<rparr>)),
       pfPrepared := (pfPrepared f)(dvID d := Some (candidate f d, decide dst f d))\<rparr>)"
  by (simp add: prepare_def Let_def)

lemma prepare_prepared: "prepare dst f d = (x, f') \<Longrightarrow> pfPrepared f' (dvID d) = Some x"
  by (auto simp: prepare_def Let_def split: option.splits)

lemma prepare_settings:
  "prepare dst f d = (x, f') \<Longrightarrow> pfMovementMeters f' = pfMovementMeters f \<and> pfHeartbeat f' = pfHeartbeat f"
  by (auto simp: prepare_def Let_def split: option.splits)

lemma node_state_ok:
  "filter_ok f \<Longrightarrow> q \<in> set (fsSamples (node_state f node)) \<Longrightarrow> poSourceNode q = node"
  "filter_ok f \<Longrightarrow> fsLastPublished (node_state f node) = Some q \<Longrightarrow> poSourceNode q = node"
  by (auto simp: filter_ok_def state_ok_def node_state_def split: option.splits)

lemma new_samples_ok:
  assumes "filter_ok f" "q \<in> set (new_samples f d)"
  shows "poSourceNode q = poSourceNode (dvPosition d)"
proof -
  have "q \<in> set (fsSamples (node_state f (poSourceNode (dvPosition d))) @ [dvPosition d])"
    using assms(2) set_last_three unfolding new_samples_def by blast
  then show ?thesis using node_state_ok(1) [OF assms(1)] by auto
qed

lemma length_new_samples: "length (new_samples f d) \<le> 3"
  by (simp add: new_samples_def length_last_three)

lemma prepare_ok:
  assumes "filter_ok f" "prepare dst f d = (x, f')"
  shows "filter_ok f'"
proof (cases "pfPrepared f (dvID d)")
  case (Some y)
  with assms show ?thesis by (simp add: prepare_known)
next
  case None
  let ?node = "poSourceNode (dvPosition d)"
  have "state_ok ?node ((node_state f ?node)\<lparr>fsSamples := new_samples f d\<rparr>)"
    using node_state_ok(2) [OF assms(1)] new_samples_ok [OF assms(1)] length_new_samples [of f d]
    by (simp add: state_ok_def)
  moreover have "f' = snd (prepare dst f d)" using assms(2) by simp
  ultimately show ?thesis using assms(1) by (auto simp: prepare_fresh [OF None] filter_ok_def)
qed

lemma complete_Some:
  "pfPrepared f i = Some (p, b) \<Longrightarrow> pfNodes f (poSourceNode p) = Some st \<Longrightarrow>
     complete f i published = Some (f\<lparr>pfPrepared := (pfPrepared f)(i := None),
       pfNodes := (if published then (pfNodes f)(poSourceNode p := Some (st\<lparr>fsLastPublished := Some p\<rparr>))
         else pfNodes f)\<rparr>)"
  by (simp add: complete_def Let_def)

lemma complete_returns:
  assumes "filter_ok f" "pfPrepared f i = Some (p, b)"
  shows "\<exists>f'. complete f i published = Some f' \<and> filter_ok f'"
proof -
  from assms obtain st where st: "pfNodes f (poSourceNode p) = Some st"
    unfolding filter_ok_def by (metis fst_conv option.exhaust)
  then have "state_ok (poSourceNode p) (st\<lparr>fsLastPublished := Some p\<rparr>)"
    using assms(1) by (simp add: filter_ok_def state_ok_def)
  then show ?thesis
    using assms(1) by (auto simp: complete_Some [OF assms(2) st] filter_ok_def)
qed

end
