(* ===== verification/Worker.thy ===== *)
theory Worker
  imports PositionFilter
begin

text \<open>
  The delivery loop of \<^verbatim>\<open>internal/caltopo/worker.go\<close> over its two interfaces, \<open>WorkerStore\<close> and
  \<open>Publisher\<close>: the record \<open>worker_env\<close> holds their operations on a state \<open>'s\<close>, the locale
  \<open>delivery_queue\<close> the laws the worker relies on. A panic is the result None.
\<close>

section \<open>The loop\<close>

record 's worker_env =
  wPending :: "int \<Rightarrow> 's \<Rightarrow> delivery list result \<times> 's"
  wMarkDelivered :: "int \<Rightarrow> 's \<Rightarrow> go_error option \<times> 's"
  wMarkFailed :: "int \<Rightarrow> int \<Rightarrow> time \<Rightarrow> bool \<Rightarrow> go_error \<Rightarrow> 's \<Rightarrow> go_error option \<times> 's"
  wPublish :: "duration \<Rightarrow> position \<Rightarrow> 's \<Rightarrow> go_error option \<times> 's"
  wNow :: "'s \<Rightarrow> time"

text \<open>\<open>1<<n\<close> panics for a negative \<open>n\<close>.\<close>

definition retry_delay :: "int \<Rightarrow> duration option" where
  "retry_delay attempts =
     (let n = min attempts 8 in
      if n < 0 then None else Some (min (second * 2 ^ nat n) (5 * 60 * second)))"

definition request_timeout :: "duration \<Rightarrow> duration" where
  "request_timeout timeout = (if timeout \<le> 0 then 10 * second else timeout)"

text \<open>One iteration: an error ends the drain, None continues with the next delivery.\<close>

definition deliver_one ::
  "'s worker_env \<Rightarrow> distance \<Rightarrow> duration \<Rightarrow> delivery \<Rightarrow> position_filter \<Rightarrow> 's
    \<Rightarrow> (go_error option \<times> position_filter \<times> 's) option" where
  "deliver_one env dst timeout d f s =
     (case prepare dst f d of
        ((pos, publish), f1) \<Rightarrow>
          if \<not> publish then
            (case wMarkDelivered env (dvID d) s of
               (Some e, s1) \<Rightarrow> Some (Some e, f1, s1)
             | (None, s1) \<Rightarrow> map_option (\<lambda>f2. (None, f2, s1)) (complete f1 (dvID d) False))
          else
            (case wPublish env (request_timeout timeout) pos s of
               (None, s1) \<Rightarrow>
                 (case wMarkDelivered env (dvID d) s1 of
                    (Some e, s2) \<Rightarrow> Some (Some e, f1, s2)
                  | (None, s2) \<Rightarrow> map_option (\<lambda>f2. (None, f2, s2)) (complete f1 (dvID d) True))
             | (Some err, s1) \<Rightarrow>
                 (let attempts = dvAttempts d + 1 in
                  case retry_delay attempts of
                    None \<Rightarrow> None
                  | Some delay \<Rightarrow>
                      (case wMarkFailed env (dvID d) attempts (wNow env s1 + delay) False err s1 of
                         (markErr, s2) \<Rightarrow> Some (markErr, f1, s2)))))"

fun deliver_all ::
  "'s worker_env \<Rightarrow> distance \<Rightarrow> duration \<Rightarrow> delivery list \<Rightarrow> position_filter \<Rightarrow> 's
    \<Rightarrow> (go_error option \<times> position_filter \<times> 's) option" where
  "deliver_all env dst timeout [] f s = Some (None, f, s)"
| "deliver_all env dst timeout (d # ds) f s =
     (case deliver_one env dst timeout d f s of
        None \<Rightarrow> None
      | Some (Some e, f1, s1) \<Rightarrow> Some (Some e, f1, s1)
      | Some (None, f1, s1) \<Rightarrow> deliver_all env dst timeout ds f1 s1)"

definition drain ::
  "'s worker_env \<Rightarrow> distance \<Rightarrow> duration \<Rightarrow> position_filter \<Rightarrow> 's
    \<Rightarrow> ((int \<times> go_error option) \<times> position_filter \<times> 's) option" where
  "drain env dst timeout f s =
     (case wPending env 50 s of
        (Inl e, s1) \<Rightarrow> Some ((0, Some e), f, s1)
      | (Inr ds, s1) \<Rightarrow>
          (case deliver_all env dst timeout ds f s1 of
             None \<Rightarrow> None
           | Some (Some e, f', s') \<Rightarrow> Some ((0, Some e), f', s')
           | Some (None, f', s') \<Rightarrow> Some ((int (length ds), None), f', s')))"

text \<open>
  The inner loop of \<open>Run\<close>: drain until nothing is due or an error occurs. It need not end while
  deliveries keep becoming due, so the result is None when it does not return (or panics).
\<close>

partial_function (option) drain_loop ::
  "'s worker_env \<Rightarrow> distance \<Rightarrow> duration \<Rightarrow> position_filter \<Rightarrow> 's \<Rightarrow> (go_error option \<times> position_filter \<times> 's) option" where
  "drain_loop env dst timeout f s =
     (case drain env dst timeout f s of
        None \<Rightarrow> None
      | Some ((count, Some e), f', s') \<Rightarrow> Some (Some e, f', s')
      | Some ((count, None), f', s') \<Rightarrow>
          if count = 0 then Some (None, f', s') else drain_loop env dst timeout f' s')"

section \<open>No panics\<close>

lemma retry_delay_Some: "0 \<le> attempts \<Longrightarrow> retry_delay attempts = Some (second * 2 ^ nat (min attempts 8))"
proof -
  assume a: "0 \<le> attempts"
  have "(2 :: int) ^ nat (min attempts 8) \<le> 2 ^ 8" by (intro power_increasing) auto
  with a show ?thesis by (simp add: retry_delay_def Let_def second_def)
qed

lemma deliver_one_total:
  assumes "filter_ok f" "0 \<le> dvAttempts d"
  shows "\<exists>r f' s'. deliver_one env dst timeout d f s = Some (r, f', s') \<and> filter_ok f'"
proof -
  obtain pos b f1 where p: "prepare dst f d = ((pos, b), f1)" by (metis surj_pair)
  have ok: "filter_ok f1" by (rule prepare_ok [OF assms(1) p])
  have c: "\<exists>f2. complete f1 (dvID d) c = Some f2 \<and> filter_ok f2" for c
    by (rule complete_returns [OF ok prepare_prepared [OF p]])
  have a: "retry_delay (dvAttempts d + 1) = Some (second * 2 ^ nat (min (dvAttempts d + 1) 8))"
    by (rule retry_delay_Some) (use assms(2) in simp)
  show ?thesis
    using c [of True] c [of False] ok a
    by (auto simp: deliver_one_def p Let_def split: prod.split option.split)
qed

lemma deliver_all_total:
  assumes "filter_ok f" "\<forall>d \<in> set ds. 0 \<le> dvAttempts d"
  shows "\<exists>r f' s'. deliver_all env dst timeout ds f s = Some (r, f', s') \<and> filter_ok f'"
  using assms
proof (induction ds arbitrary: f s)
  case (Cons d ds)
  obtain r f1 s1 where o: "deliver_one env dst timeout d f s = Some (r, f1, s1)" "filter_ok f1"
    using deliver_one_total [OF Cons.prems(1), of d env dst timeout s] Cons.prems(2) by auto
  then show ?case using Cons.IH [OF o(2), of s1] Cons.prems(2) by (cases r) auto
qed simp

section \<open>What happened to each delivery\<close>

datatype outcome = Suppressed | Published position | Rejected position go_error

fun settled_outcome :: "outcome \<Rightarrow> bool" where
  "settled_outcome Suppressed = True"
| "settled_outcome (Published p) = True"
| "settled_outcome (Rejected p e) = False"

definition outcome_of :: "'s worker_env \<Rightarrow> distance \<Rightarrow> duration \<Rightarrow> delivery \<Rightarrow> position_filter \<Rightarrow> 's \<Rightarrow> outcome" where
  "outcome_of env dst timeout d f s =
     (let (pos, publish) = fst (prepare dst f d) in
      if \<not> publish then Suppressed
      else (case fst (wPublish env (request_timeout timeout) pos s) of
              None \<Rightarrow> Published pos | Some e \<Rightarrow> Rejected pos e))"

fun outcomes ::
  "'s worker_env \<Rightarrow> distance \<Rightarrow> duration \<Rightarrow> delivery list \<Rightarrow> position_filter \<Rightarrow> 's \<Rightarrow> (delivery \<times> outcome) list" where
  "outcomes env dst timeout [] f s = []"
| "outcomes env dst timeout (d # ds) f s =
     (d, outcome_of env dst timeout d f s) #
       (case deliver_one env dst timeout d f s of
          Some (None, f1, s1) \<Rightarrow> outcomes env dst timeout ds f1 s1
        | Some (Some e, f1, s1) \<Rightarrow> []
        | None \<Rightarrow> [])"

definition settled_ids :: "(delivery \<times> outcome) list \<Rightarrow> int set" where
  "settled_ids outs = set (map (\<lambda>x. dvID (fst x)) (filter (\<lambda>x. settled_outcome (snd x)) outs))"

lemma settled_ids_Nil [simp]: "settled_ids [] = {}"
  by (simp add: settled_ids_def)

lemma settled_ids_Cons [simp]:
  "settled_ids ((d, out) # outs) = (if settled_outcome out then insert (dvID d) (settled_ids outs) else settled_ids outs)"
  by (auto simp: settled_ids_def)

lemma outcomes_all:
  "deliver_all env dst timeout ds f s = Some (None, f', s') \<Longrightarrow> map fst (outcomes env dst timeout ds f s) = ds"
  by (induction ds arbitrary: f s) (auto split: option.splits)

section \<open>A retry repeats the decision\<close>

lemma prepare_other: "prepare dst f d = (x, f') \<Longrightarrow> i \<noteq> dvID d \<Longrightarrow> pfPrepared f' i = pfPrepared f i"
  by (auto simp: prepare_def Let_def split: option.splits)

lemma complete_other: "complete f j b = Some f' \<Longrightarrow> i \<noteq> j \<Longrightarrow> pfPrepared f' i = pfPrepared f i"
  by (auto simp: complete_def Let_def split: if_splits option.splits)

lemma deliver_one_other:
  assumes "deliver_one env dst timeout d f s = Some (r, f', s')" "i \<noteq> dvID d"
  shows "pfPrepared f' i = pfPrepared f i"
proof -
  obtain pos b f1 where p: "prepare dst f d = ((pos, b), f1)" by (metis surj_pair)
  from assms(1) have "f' = f1 \<or> (\<exists>c. complete f1 (dvID d) c = Some f')"
    by (auto simp: deliver_one_def p Let_def split: if_splits prod.splits option.splits)
  with prepare_other [OF p assms(2)] complete_other [OF _ assms(2)] show ?thesis by auto
qed

lemma deliver_all_other:
  "deliver_all env dst timeout ds f s = Some (r, f', s') \<Longrightarrow> i \<notin> dvID ` set ds \<Longrightarrow> pfPrepared f' i = pfPrepared f i"
proof (induction ds arbitrary: f s)
  case (Cons d ds)
  obtain r1 f1 s1 where o: "deliver_one env dst timeout d f s = Some (r1, f1, s1)"
    using Cons.prems(1) by (auto split: option.splits)
  have "pfPrepared f1 i = pfPrepared f i" by (rule deliver_one_other [OF o]) (use Cons.prems(2) in simp)
  with Cons o show ?case by (cases r1) auto
qed simp

lemma deliver_one_rejected:
  assumes "deliver_one env dst timeout d f s = Some (r, f', s')"
    and "outcome_of env dst timeout d f s = Rejected p e"
  shows "pfPrepared f' (dvID d) = Some (p, True)"
proof -
  obtain pos b f1 where pr: "prepare dst f d = ((pos, b), f1)" by (metis surj_pair)
  from assms(2) have "b" "p = pos" "\<exists>s1. wPublish env (request_timeout timeout) pos s = (Some e, s1)"
    by (auto simp: outcome_of_def pr prod_eq_iff split: if_splits option.splits)
  with assms(1) prepare_prepared [OF pr] show ?thesis
    by (auto simp: deliver_one_def pr Let_def split: prod.splits option.splits)
qed

lemma deliver_all_rejected:
  "deliver_all env dst timeout ds f s = Some (r, f', s') \<Longrightarrow> distinct (map dvID ds)
    \<Longrightarrow> (d, Rejected p e) \<in> set (outcomes env dst timeout ds f s) \<Longrightarrow> pfPrepared f' (dvID d) = Some (p, True)"
proof (induction ds arbitrary: f s)
  case (Cons c ds)
  obtain r1 f1 s1 where o: "deliver_one env dst timeout c f s = Some (r1, f1, s1)"
    using Cons.prems(1) by (auto split: option.splits)
  show ?case
  proof (cases "d = c \<and> outcome_of env dst timeout c f s = Rejected p e")
    case True
    then have "pfPrepared f1 (dvID d) = Some (p, True)" using deliver_one_rejected [OF o] by simp
    moreover have "pfPrepared f' (dvID d) = pfPrepared f1 (dvID d)"
      using Cons.prems(1,2) o True deliver_all_other by (cases r1) auto
    ultimately show ?thesis by simp
  next
    case False
    then show ?thesis using Cons o by (cases r1) auto
  qed
qed simp

section \<open>The interface\<close>

text \<open>
  \<open>outstanding\<close> is the set of deliveries that are neither delivered nor failed. What the worker relies
  on: the deliveries it is given are outstanding, distinct and have a non-negative attempt count; a
  completed mark removes exactly its delivery, one that reports an error removes nothing else; a
  failure that is not terminal and a publication remove none.
\<close>

locale delivery_queue =
  fixes env :: "'s worker_env"
    and outstanding :: "'s \<Rightarrow> int set"
    and inv :: "'s \<Rightarrow> bool"
  assumes pending: "inv s \<Longrightarrow> wPending env n s = (out, s') \<Longrightarrow> inv s' \<and> outstanding s' = outstanding s"
    and pending_outstanding: "inv s \<Longrightarrow> wPending env n s = (Inr ds, s') \<Longrightarrow>
      distinct (map dvID ds) \<and> dvID ` set ds \<subseteq> outstanding s \<and> (\<forall>d \<in> set ds. 0 \<le> dvAttempts d)"
    and delivered: "inv s \<Longrightarrow> wMarkDelivered env i s = (r, s') \<Longrightarrow>
      inv s' \<and> outstanding s - {i} \<subseteq> outstanding s' \<and> outstanding s' \<subseteq> outstanding s \<and>
      (r = None \<longrightarrow> i \<notin> outstanding s')"
    and failed: "inv s \<Longrightarrow> 0 \<le> n \<Longrightarrow> wMarkFailed env i n t False e s = (r, s') \<Longrightarrow>
      inv s' \<and> outstanding s' = outstanding s"
    and publish: "inv s \<Longrightarrow> wPublish env timeout p s = (r, s') \<Longrightarrow> inv s' \<and> outstanding s' = outstanding s"
    and finite_outstanding: "inv s \<Longrightarrow> finite (outstanding s)"
begin

text \<open>What one iteration may do to the queue.\<close>

lemma deliver_one_queue:
  assumes "inv s" "0 \<le> dvAttempts d" "deliver_one env dst timeout d f s = Some (r, f', s')"
  shows "inv s' \<and> outstanding s - {dvID d} \<subseteq> outstanding s' \<and> outstanding s' \<subseteq> outstanding s \<and>
    (\<not> settled_outcome (outcome_of env dst timeout d f s) \<longrightarrow> outstanding s' = outstanding s) \<and>
    (settled_outcome (outcome_of env dst timeout d f s) \<longrightarrow> r = None \<longrightarrow> dvID d \<notin> outstanding s')"
proof -
  obtain pos b f1 where p: "prepare dst f d = ((pos, b), f1)" by (metis surj_pair)
  consider (suppressed) e where "\<not> b" "wMarkDelivered env (dvID d) s = (e, s')" "r = None \<longrightarrow> e = None"
    | (published) s1 e where "b" "wPublish env (request_timeout timeout) pos s = (None, s1)"
        "wMarkDelivered env (dvID d) s1 = (e, s')" "r = None \<longrightarrow> e = None"
    | (retried) s1 e t where "b" "wPublish env (request_timeout timeout) pos s = (Some e, s1)"
        "wMarkFailed env (dvID d) (dvAttempts d + 1) t False e s1 = (r, s')"
    using assms(3) by (auto simp: deliver_one_def p Let_def split: if_splits prod.splits option.splits)
  then show ?thesis
  proof cases
    case suppressed
    then show ?thesis using delivered [OF assms(1) suppressed(2)] by (auto simp: outcome_of_def p)
  next
    case published
    then show ?thesis
      using publish [OF assms(1) published(2)] delivered [OF _ published(3)] by (auto simp: outcome_of_def p)
  next
    case retried
    then show ?thesis
      using publish [OF assms(1) retried(2)] failed [OF _ _ retried(3)] assms(2) by (auto simp: outcome_of_def p)
  qed
qed

lemma deliver_all_queue:
  assumes "inv s" "\<forall>d \<in> set ds. 0 \<le> dvAttempts d" "deliver_all env dst timeout ds f s = Some (r, f', s')"
  shows "inv s' \<and> outstanding s' \<subseteq> outstanding s \<and>
    outstanding s - outstanding s' \<subseteq> settled_ids (outcomes env dst timeout ds f s) \<and>
    (r = None \<longrightarrow> settled_ids (outcomes env dst timeout ds f s) \<inter> outstanding s' = {})"
  using assms
proof (induction ds arbitrary: f s)
  case Nil
  then show ?case by simp
next
  case (Cons d ds)
  obtain r1 f1 s1 where o: "deliver_one env dst timeout d f s = Some (r1, f1, s1)"
    using Cons.prems(3) by (auto split: option.splits)
  have q: "inv s1 \<and> outstanding s - {dvID d} \<subseteq> outstanding s1 \<and> outstanding s1 \<subseteq> outstanding s \<and>
    (\<not> settled_outcome (outcome_of env dst timeout d f s) \<longrightarrow> outstanding s1 = outstanding s) \<and>
    (settled_outcome (outcome_of env dst timeout d f s) \<longrightarrow> r1 = None \<longrightarrow> dvID d \<notin> outstanding s1)"
    by (rule deliver_one_queue [OF Cons.prems(1) _ o]) (use Cons.prems(2) in simp)
  show ?case
  proof (cases r1)
    case (Some e)
    then have "r = Some e" "s' = s1" using Cons.prems(3) o by simp_all
    with q Some o show ?thesis by auto
  next
    case None
    then have a: "deliver_all env dst timeout ds f1 s1 = Some (r, f', s')" using Cons.prems(3) o by simp
    have IH: "inv s' \<and> outstanding s' \<subseteq> outstanding s1 \<and>
      outstanding s1 - outstanding s' \<subseteq> settled_ids (outcomes env dst timeout ds f1 s1) \<and>
      (r = None \<longrightarrow> settled_ids (outcomes env dst timeout ds f1 s1) \<inter> outstanding s' = {})"
      by (rule Cons.IH [OF _ _ a]) (use q Cons.prems(2) in auto)
    have outs: "settled_ids (outcomes env dst timeout (d # ds) f s) =
        (if settled_outcome (outcome_of env dst timeout d f s)
         then insert (dvID d) (settled_ids (outcomes env dst timeout ds f1 s1))
         else settled_ids (outcomes env dst timeout ds f1 s1))"
      using o None by simp
    show ?thesis
    proof (cases "settled_outcome (outcome_of env dst timeout d f s)")
      case True
      with q None have "dvID d \<notin> outstanding s1" "outstanding s - {dvID d} \<subseteq> outstanding s1"
        "outstanding s1 \<subseteq> outstanding s" by simp_all
      with IH True show ?thesis unfolding outs by auto
    next
      case False
      with q have "outstanding s1 = outstanding s" by simp
      with IH False show ?thesis unfolding outs by auto
    qed
  qed
qed

end

section \<open>The queue under a clock\<close>

text \<open>
  While the clock stands at \<open>T\<close>, \<open>ready\<close> is the part of the queue that may be handed out. A failure
  recorded for later than \<open>T\<close> takes its delivery out of it.
\<close>

locale timed_queue = delivery_queue env outstanding inv
  for env :: "'s worker_env" and outstanding :: "'s \<Rightarrow> int set" and inv :: "'s \<Rightarrow> bool" +
  fixes ready :: "'s \<Rightarrow> int set"
    and T :: time
  assumes now: "wNow env s = T"
    and ready_outstanding: "ready s \<subseteq> outstanding s"
    and pending_ready: "inv s \<Longrightarrow> wPending env n s = (out, s') \<Longrightarrow>
      ready s' = ready s \<and> (\<forall>ds. out = Inr ds \<longrightarrow> dvID ` set ds \<subseteq> ready s)"
    and delivered_ready: "inv s \<Longrightarrow> wMarkDelivered env i s = (r, s') \<Longrightarrow> ready s' \<subseteq> ready s"
    and publish_ready: "inv s \<Longrightarrow> wPublish env timeout p s = (r, s') \<Longrightarrow> ready s' = ready s"
    and failed_ready: "inv s \<Longrightarrow> T + second \<le> t \<Longrightarrow> t \<le> T + 256 * second \<Longrightarrow>
      wMarkFailed env i n t False e s = (r, s') \<Longrightarrow> ready s' \<subseteq> ready s \<and> (r = None \<longrightarrow> i \<notin> ready s')"
begin

lemma deliver_one_ready:
  assumes "inv s" "0 \<le> dvAttempts d" "deliver_one env dst timeout d f s = Some (r, f', s')"
  shows "ready s' \<subseteq> ready s \<and> (r = None \<longrightarrow> dvID d \<notin> ready s')"
proof -
  obtain pos b f1 where p: "prepare dst f d = ((pos, b), f1)" by (metis surj_pair)
  have "(1 :: int) \<le> 2 ^ nat (min (dvAttempts d + 1) 8)" by simp
  moreover have "(2 :: int) ^ nat (min (dvAttempts d + 1) 8) \<le> 2 ^ 8" by (intro power_increasing) auto
  ultimately have delay: "second \<le> second * 2 ^ nat (min (dvAttempts d + 1) 8)"
    "second * 2 ^ nat (min (dvAttempts d + 1) 8) \<le> 256 * second"
    by (simp_all add: second_def)
  consider (suppressed) e where "\<not> b" "wMarkDelivered env (dvID d) s = (e, s')" "r = None \<longrightarrow> e = None"
    | (published) s1 e where "b" "wPublish env (request_timeout timeout) pos s = (None, s1)"
        "wMarkDelivered env (dvID d) s1 = (e, s')" "r = None \<longrightarrow> e = None"
    | (retried) s1 e where "b" "wPublish env (request_timeout timeout) pos s = (Some e, s1)"
        "wMarkFailed env (dvID d) (dvAttempts d + 1)
          (T + second * 2 ^ nat (min (dvAttempts d + 1) 8)) False e s1 = (r, s')"
    using assms(2,3) now
    by (auto simp: deliver_one_def p Let_def retry_delay_Some split: if_splits prod.splits option.splits)
  then show ?thesis
  proof cases
    case suppressed
    then show ?thesis
      using delivered [OF assms(1) suppressed(2)] delivered_ready [OF assms(1) suppressed(2)] ready_outstanding [of s']
      by auto
  next
    case published
    then have "inv s1" "ready s1 = ready s" using publish publish_ready assms(1) by blast+
    then show ?thesis
      using published delivered [OF \<open>inv s1\<close> published(3)] delivered_ready [OF \<open>inv s1\<close> published(3)]
        ready_outstanding [of s'] by auto
  next
    case retried
    then have "inv s1" "ready s1 = ready s" using publish publish_ready assms(1) by blast+
    then show ?thesis using failed_ready [OF \<open>inv s1\<close> _ _ retried(3)] delay by simp
  qed
qed

lemma deliver_all_ready:
  assumes "inv s" "\<forall>d \<in> set ds. 0 \<le> dvAttempts d" "deliver_all env dst timeout ds f s = Some (r, f', s')"
  shows "ready s' \<subseteq> ready s \<and> (r = None \<longrightarrow> ready s' \<inter> dvID ` set ds = {})"
  using assms
proof (induction ds arbitrary: f s)
  case (Cons d ds)
  obtain r1 f1 s1 where o: "deliver_one env dst timeout d f s = Some (r1, f1, s1)"
    using Cons.prems(3) by (auto split: option.splits)
  have d: "0 \<le> dvAttempts d" using Cons.prems(2) by simp
  have one: "ready s1 \<subseteq> ready s \<and> (r1 = None \<longrightarrow> dvID d \<notin> ready s1)"
    by (rule deliver_one_ready [OF Cons.prems(1) d o])
  have inv1: "inv s1" using deliver_one_queue [OF Cons.prems(1) d o] by blast
  show ?case
  proof (cases r1)
    case (Some e)
    then have "r = Some e" "s' = s1" using Cons.prems(3) o by simp_all
    then show ?thesis using one by simp
  next
    case None
    then have a: "deliver_all env dst timeout ds f1 s1 = Some (r, f', s')" using Cons.prems(3) o by simp
    have "ready s' \<subseteq> ready s1 \<and> (r = None \<longrightarrow> ready s' \<inter> dvID ` set ds = {})"
      by (rule Cons.IH [OF inv1 _ a]) (use Cons.prems(2) in simp)
    with one None show ?thesis by auto
  qed
qed simp

text \<open>
  The inner loop of \<open>Run\<close> ends while the clock stands: a round without error takes every delivery it
  was given out of the ready set, delivered or postponed, so at some point it is given none.
\<close>

lemma drain_loop_ends:
  assumes "inv s" "filter_ok f"
  shows "\<exists>r f' s'. drain_loop env dst timeout f s = Some (r, f', s') \<and> filter_ok f' \<and> inv s' \<and>
    (r = None \<longrightarrow> (\<exists>s1. inv s1 \<and> wPending env 50 s1 = (Inr [], s')))"
  using assms
proof (induction "card (ready s)" arbitrary: f s rule: less_induct)
  case less
  obtain out s1 where p: "wPending env 50 s = (out, s1)" by (cases "wPending env 50 s")
  have inv1: "inv s1" using pending [OF less.prems(1) p] by simp
  have ready1: "ready s1 = ready s" using pending_ready [OF less.prems(1) p] by simp
  show ?case
  proof (cases out)
    case (Inl e)
    then show ?thesis using less.prems(2) inv1 by (subst drain_loop.simps) (simp add: drain_def p)
  next
    case (Inr ds)
    have given: "\<forall>d \<in> set ds. 0 \<le> dvAttempts d" "dvID ` set ds \<subseteq> ready s"
      using pending_outstanding [OF less.prems(1) p [unfolded Inr]] pending_ready [OF less.prems(1) p] Inr by auto
    obtain r f' s' where a: "deliver_all env dst timeout ds f s1 = Some (r, f', s')" "filter_ok f'"
      using deliver_all_total [OF less.prems(2) given(1), of env dst timeout s1] by blast
    have inv': "inv s'" using deliver_all_queue [OF inv1 given(1) a(1)] by blast
    show ?thesis
    proof (cases "r = None \<and> ds \<noteq> []")
      case False
      then show ?thesis
        using a inv' p Inr less.prems(1)
        by (subst drain_loop.simps) (auto simp: drain_def split: option.splits)
    next
      case True
      then have "ready s' \<subset> ready s"
        using deliver_all_ready [OF inv1 given(1) a(1)] given(2) ready1 by (cases ds) auto
      moreover have "finite (ready s)"
        using finite_outstanding [OF less.prems(1)] ready_outstanding by (rule rev_finite_subset)
      ultimately have "card (ready s') < card (ready s)" by (simp add: psubset_card_mono)
      then obtain r2 f2 s2 where "drain_loop env dst timeout f' s' = Some (r2, f2, s2)" "filter_ok f2" "inv s2"
          "r2 = None \<longrightarrow> (\<exists>s1. inv s1 \<and> wPending env 50 s1 = (Inr [], s2))"
        using less.hyps [of s' f'] inv' a(2) by blast
      then show ?thesis using a True by (subst drain_loop.simps) (simp add: drain_def p Inr)
    qed
  qed
qed

end

end
