(* ===== verification/Config.thy ===== *)
theory Config
  imports Adapter Worker
begin

text \<open>
  \<^verbatim>\<open>internal/config/config.go\<close>: the defaults from the environment, the command-line flags over them,
  and the validation. The loop of Go's \<open>flag\<close> package, \<open>strconv.ParseBool\<close> and \<open>strconv.Atoi\<close> are
  written out; the three larger number parsers of the standard library (\<open>ParseInt\<close> in any base,
  \<open>ParseFloat\<close>, \<open>ParseDuration\<close>) are the record \<open>number_parsers\<close>. The lemmas say which endpoints
  count as hosted, what a valid configuration guarantees to the other components, that a malformed
  variable is never replaced by a default, and that no flag sets a credential.
\<close>

section \<open>The configuration\<close>

record cal_topo =
  ccEnabled :: bool
  ccEndpoint :: string
  ccMapID :: string
  ccCredentialID :: string
  ccKey :: string
  ccAccountID :: string
  ccGroup :: string
  ccTimeout :: duration
  ccMovement :: f64
  ccHeartbeat :: duration

record config =
  cfSerialDevice :: string
  cfSerialBaud :: int
  cfDatabasePath :: string
  cfHTTPListenAddress :: string
  cfDebug :: bool
  cfDecodePositionApp :: bool
  cfListDevices :: bool
  cfVersion :: bool
  cfCalTopo :: cal_topo

definition zero_config :: config where
  "zero_config =
     \<lparr>cfSerialDevice = [], cfSerialBaud = 0, cfDatabasePath = [], cfHTTPListenAddress = [], cfDebug = False,
      cfDecodePositionApp = False, cfListDevices = False, cfVersion = False,
      cfCalTopo = \<lparr>ccEnabled = False, ccEndpoint = [], ccMapID = [], ccCredentialID = [], ccKey = [],
        ccAccountID = [], ccGroup = [], ccTimeout = 0, ccMovement = Fin 0, ccHeartbeat = 0\<rparr>\<rparr>"

section \<open>Hosted endpoints\<close>

text \<open>
  \<open>strings.ToLower\<close> on the bytes of a string. Of the letters outside ASCII only two have an ASCII lower
  case, the dotted capital I and the Kelvin sign; the others stay outside ASCII, which is all that
  \<open>isHosted\<close> depends on, so they are left as they are.
\<close>

definition lower_char :: "char \<Rightarrow> char" where
  "lower_char c = (if CHR ''A'' \<le> c \<and> c \<le> CHR ''Z'' then char_of (of_char c + 32 :: nat) else c)"

fun to_lower :: "string \<Rightarrow> string" where
  "to_lower [] = []"
| "to_lower (c # s) =
     (if is_prefix [CHR 0xC4, CHR 0xB0] (c # s) then CHR ''i'' # to_lower (drop 1 s)
      else if is_prefix [CHR 0xE2, CHR 0x84, CHR 0xAA] (c # s) then CHR ''k'' # to_lower (drop 2 s)
      else lower_char c # to_lower s)"

definition before :: "char \<Rightarrow> string \<Rightarrow> string" where
  "before sep s = takeWhile (\<lambda>c. c \<noteq> sep) s"

definition isHosted :: "string \<Rightarrow> bool" where
  "isHosted endpoint =
     (let host = before CHR '':'' (before CHR ''/''
        (trim_prefix (trim_prefix (to_lower endpoint) ''https://'') ''http://''))
      in host = ''caltopo.com'' \<or> host = ''sartopo.com'' \<or> host = ''testing.caltopo.com'')"

section \<open>Validation\<close>

definition f64_nonpositive :: "f64 \<Rightarrow> bool" where
  "f64_nonpositive x = f64_le x (Fin 0)"

definition is_inf :: "f64 \<Rightarrow> bool" where
  "is_inf x \<longleftrightarrow> x = PosInf \<or> x = NegInf"

definition complain :: "bool \<Rightarrow> string \<Rightarrow> go_error list" where
  "complain b msg = (if b then [NewError msg] else [])"

definition caltopo_errors :: "cal_topo \<Rightarrow> go_error list" where
  "caltopo_errors c =
     (if ccMapID c = [] then [NewError ''CalTopo map ID is required when CalTopo is enabled'']
      else complain (length (ccMapID c) < 3 \<or> length (ccMapID c) > 7) ''CalTopo map ID must contain 3 to 7 characters'') @
     complain (ccGroup c = [] \<or> CHR ''-'' \<in> set (ccGroup c)) (''CalTopo group must be non-empty and cannot contain '' @ [CHR 0x27, CHR ''-'', CHR 0x27]) @
     complain (isHosted (ccEndpoint c) \<and> (ccCredentialID c = [] \<or> ccKey c = []))
       ''CalTopo credential ID and key are required for hosted endpoints'' @
     complain (ccTimeout c \<le> 0) ''CalTopo timeout must be positive'' @
     complain (f64_nonpositive (ccMovement c) \<or> ccMovement c = NaN \<or> is_inf (ccMovement c))
       ''CalTopo movement threshold must be positive'' @
     complain (ccHeartbeat c \<le> 0) ''CalTopo heartbeat must be positive''"

definition Validate :: "config \<Rightarrow> go_error option" where
  "Validate c =
     (if cfListDevices c \<or> cfVersion c then None
      else errors_join (map Some
        (complain (cfSerialDevice c = []) ''serial device is required (set -serial-device or MESHTASTIC_SERIAL_DEVICE)'' @
         complain (cfSerialBaud c \<le> 0) ''serial baud must be positive'' @
         complain (cfDatabasePath c = []) ''database path is required'' @
         complain (cfHTTPListenAddress c = []) ''HTTP listen address is required'' @
         (if ccEnabled (cfCalTopo c) then caltopo_errors (cfCalTopo c) else []))))"

section \<open>The environment\<close>

definition ParseBool :: "string \<Rightarrow> bool result" where
  "ParseBool s =
     (if s \<in> {''1'', ''t'', ''T'', ''true'', ''TRUE'', ''True''} then Inr True
      else if s \<in> {''0'', ''f'', ''F'', ''false'', ''FALSE'', ''False''} then Inr False
      else Inl (NewError ''invalid syntax''))"

text \<open>A sign, then decimal digits only, and a value that an \<open>int\<close> holds.\<close>

definition Atoi :: "string \<Rightarrow> int result" where
  "Atoi s =
     (let negative = (s \<noteq> [] \<and> hd s = CHR ''-'');
          digits = (if s \<noteq> [] \<and> (hd s = CHR ''-'' \<or> hd s = CHR ''+'') then tl s else s)
      in case (if digits = [] then None else digits_val 0 digits) of
           None \<Rightarrow> Inl (NewError ''invalid syntax'')
         | Some n \<Rightarrow>
             (let v = (if negative then - int n else int n) in
              if - (2 ^ 63) \<le> v \<and> v < 2 ^ 63 then Inr v else Inl (NewError ''value out of range'')))"

record number_parsers =
  npParseInt :: "string \<Rightarrow> int result"
  npParseFloat :: "string \<Rightarrow> f64 result"
  npParseDuration :: "string \<Rightarrow> duration result"

type_synonym environ = "string \<Rightarrow> string option"

definition env :: "environ \<Rightarrow> string \<Rightarrow> string \<Rightarrow> string" where
  "env vars key fallback = (case vars key of Some value \<Rightarrow> value | None \<Rightarrow> fallback)"

definition env_parsed :: "(string \<Rightarrow> 'a result) \<Rightarrow> string \<Rightarrow> environ \<Rightarrow> string \<Rightarrow> 'a \<Rightarrow> 'a result" where
  "env_parsed parse what vars key fallback =
     (case vars key of
        None \<Rightarrow> Inr fallback
      | Some value \<Rightarrow>
          (case parse value of Inl e \<Rightarrow> Inl (WrapError (key @ '' must be '' @ what) e) | Inr v \<Rightarrow> Inr v))"

definition envInt :: "environ \<Rightarrow> string \<Rightarrow> int \<Rightarrow> int result" where
  "envInt = env_parsed Atoi ''an integer''"

definition envFloat :: "number_parsers \<Rightarrow> environ \<Rightarrow> string \<Rightarrow> f64 \<Rightarrow> f64 result" where
  "envFloat np = env_parsed (npParseFloat np) ''a number''"

definition envBool :: "environ \<Rightarrow> string \<Rightarrow> bool \<Rightarrow> bool result" where
  "envBool = env_parsed ParseBool ''a boolean''"

definition envDuration :: "number_parsers \<Rightarrow> environ \<Rightarrow> string \<Rightarrow> duration \<Rightarrow> duration result" where
  "envDuration np = env_parsed (npParseDuration np) ''a duration''"

definition bind_result :: "'a result \<Rightarrow> ('a \<Rightarrow> 'b result) \<Rightarrow> 'b result" where
  "bind_result r f = (case r of Inl e \<Rightarrow> Inl e | Inr a \<Rightarrow> f a)"

definition env_config :: "number_parsers \<Rightarrow> environ \<Rightarrow> config result" where
  "env_config np vars =
     bind_result (envInt vars ''MESHTASTIC_SERIAL_BAUD'' 115200) (\<lambda>serialBaud.
     bind_result (envBool vars ''CALTOPO_ENABLED'' False) (\<lambda>calTopoEnabled.
     bind_result (envDuration np vars ''CALTOPO_TIMEOUT'' (10 * second)) (\<lambda>calTopoTimeout.
     bind_result (envFloat np vars ''CALTOPO_MOVEMENT_METERS'' (Fin 25)) (\<lambda>calTopoMovement.
     bind_result (envDuration np vars ''CALTOPO_HEARTBEAT'' (5 * 60 * second)) (\<lambda>calTopoHeartbeat.
     bind_result (envBool vars ''BRIDGE_DEBUG'' False) (\<lambda>debug.
     bind_result (envBool vars ''DECODE_POSITION_APP'' True) (\<lambda>decodePositionApp.
     Inr \<lparr>cfSerialDevice = env vars ''MESHTASTIC_SERIAL_DEVICE'' [], cfSerialBaud = serialBaud,
       cfDatabasePath = env vars ''BRIDGE_DATABASE_PATH'' ''bridge.db'',
       cfHTTPListenAddress = env vars ''HTTP_LISTEN_ADDRESS'' ''127.0.0.1:8080'',
       cfDebug = debug, cfDecodePositionApp = decodePositionApp, cfListDevices = False, cfVersion = False,
       cfCalTopo = \<lparr>ccEnabled = calTopoEnabled, ccEndpoint = env vars ''CALTOPO_ENDPOINT'' ''caltopo.com'',
         ccMapID = env vars ''CALTOPO_MAP_ID'' [], ccCredentialID = env vars ''CALTOPO_CREDENTIAL_ID'' [],
         ccKey = env vars ''CALTOPO_KEY'' [], ccAccountID = env vars ''CALTOPO_ACCOUNT_ID'' [],
         ccGroup = env vars ''CALTOPO_GROUP'' ''mesh'', ccTimeout = calTopoTimeout,
         ccMovement = calTopoMovement, ccHeartbeat = calTopoHeartbeat\<rparr>\<rparr>)))))))"

section \<open>The flags\<close>

type_synonym setter = "string \<Rightarrow> config \<Rightarrow> config result"

definition set_parsed :: "(string \<Rightarrow> 'a result) \<Rightarrow> ('a \<Rightarrow> config \<Rightarrow> config) \<Rightarrow> setter" where
  "set_parsed parse upd value c = (case parse value of Inl e \<Rightarrow> Inl e | Inr v \<Rightarrow> Inr (upd v c))"

text \<open>The flag set: the name, whether it is a boolean flag, and the variable it sets.\<close>

definition flag_set :: "number_parsers \<Rightarrow> (string \<times> bool \<times> setter) list" where
  "flag_set np =
     [(''serial-device'', False, set_parsed Inr (\<lambda>v c. c\<lparr>cfSerialDevice := v\<rparr>)),
      (''serial-baud'', False, set_parsed (npParseInt np) (\<lambda>v c. c\<lparr>cfSerialBaud := v\<rparr>)),
      (''database'', False, set_parsed Inr (\<lambda>v c. c\<lparr>cfDatabasePath := v\<rparr>)),
      (''http-listen'', False, set_parsed Inr (\<lambda>v c. c\<lparr>cfHTTPListenAddress := v\<rparr>)),
      (''debug'', True, set_parsed ParseBool (\<lambda>v c. c\<lparr>cfDebug := v\<rparr>)),
      (''list-devices'', True, set_parsed ParseBool (\<lambda>v c. c\<lparr>cfListDevices := v\<rparr>)),
      (''version'', True, set_parsed ParseBool (\<lambda>v c. c\<lparr>cfVersion := v\<rparr>)),
      (''caltopo'', True, set_parsed ParseBool (\<lambda>v c. c\<lparr>cfCalTopo := (cfCalTopo c)\<lparr>ccEnabled := v\<rparr>\<rparr>)),
      (''caltopo-endpoint'', False, set_parsed Inr (\<lambda>v c. c\<lparr>cfCalTopo := (cfCalTopo c)\<lparr>ccEndpoint := v\<rparr>\<rparr>)),
      (''caltopo-map'', False, set_parsed Inr (\<lambda>v c. c\<lparr>cfCalTopo := (cfCalTopo c)\<lparr>ccMapID := v\<rparr>\<rparr>)),
      (''caltopo-group'', False, set_parsed Inr (\<lambda>v c. c\<lparr>cfCalTopo := (cfCalTopo c)\<lparr>ccGroup := v\<rparr>\<rparr>)),
      (''caltopo-movement'', False,
        set_parsed (npParseFloat np) (\<lambda>v c. c\<lparr>cfCalTopo := (cfCalTopo c)\<lparr>ccMovement := v\<rparr>\<rparr>)),
      (''caltopo-heartbeat'', False,
        set_parsed (npParseDuration np) (\<lambda>v c. c\<lparr>cfCalTopo := (cfCalTopo c)\<lparr>ccHeartbeat := v\<rparr>\<rparr>))]"

text \<open>The name of a flag and, after an equals sign, its value.\<close>

definition split_flag :: "string \<Rightarrow> string \<times> string option" where
  "split_flag s =
     (let name = hd s # before CHR ''='' (tl s); rest = drop (length name) s
      in (name, if rest = [] then None else Some (tl rest)))"

text \<open>
  One step of \<open>FlagSet.Parse\<close>: False where the flags end, True after a flag was set.
\<close>

definition set_flag ::
  "string \<Rightarrow> bool \<times> setter \<Rightarrow> string option \<Rightarrow> config \<Rightarrow> string list \<Rightarrow> (bool \<times> config \<times> string list) result" where
  "set_flag name flag value c args =
     (let (isBool, setv) = flag in
      if isBool
      then (case setv (case value of Some v \<Rightarrow> v | None \<Rightarrow> ''true'') c of
          Inl e \<Rightarrow> Inl (WrapError (''invalid boolean value for -'' @ name) e)
        | Inr c' \<Rightarrow> Inr (True, c', args))
      else if value = None \<and> args = [] then Inl (NewError (''flag needs an argument: -'' @ name))
      else (case setv (case value of Some v \<Rightarrow> v | None \<Rightarrow> hd args) c of
          Inl e \<Rightarrow> Inl (WrapError (''invalid value for flag -'' @ name) e)
        | Inr c' \<Rightarrow> Inr (True, c', if value = None then tl args else args)))"

fun parse_one :: "(string \<times> bool \<times> setter) list \<Rightarrow> config \<Rightarrow> string list \<Rightarrow> (bool \<times> config \<times> string list) result" where
  "parse_one flags c [] = Inr (False, c, [])"
| "parse_one flags c (a # args) =
     (if length a < 2 \<or> hd a \<noteq> CHR ''-'' then Inr (False, c, a # args)
      else if a = ''--'' then Inr (False, c, args)
      else
        (let s = drop (if a ! 1 = CHR ''-'' then 2 else 1) a in
         if s = [] \<or> hd s = CHR ''-'' \<or> hd s = CHR ''='' then Inl (NewError (''bad flag syntax: '' @ a))
         else
           (let (name, value) = split_flag s in
            case map_of flags name of
              None \<Rightarrow> Inl (if name = ''help'' \<or> name = ''h'' then NewError ''flag: help requested''
                else NewError (''flag provided but not defined: -'' @ name))
            | Some flag \<Rightarrow> set_flag name flag value c args)))"

lemma set_flag_Inr:
  assumes "set_flag name (b, setv) value c args = Inr (going, c', rest)"
  shows "length rest \<le> length args \<and> (\<exists>v. setv v c = Inr c')"
  using assms by (auto simp: set_flag_def split: if_splits sum.splits option.splits)

lemma parse_one_Inr:
  assumes "parse_one flags c args = Inr (going, c', rest)"
  shows "(going \<longrightarrow> length rest < length args) \<and>
    (c' = c \<or> (\<exists>name b setv v. map_of flags name = Some (b, setv) \<and> setv v c = Inr c'))"
proof (cases args)
  case (Cons a as)
  with assms show ?thesis
    by (auto simp: Let_def dest!: set_flag_Inr split: if_splits prod.splits option.splits)
qed (use assms in simp)

function parse_flags :: "(string \<times> bool \<times> setter) list \<Rightarrow> config \<Rightarrow> string list \<Rightarrow> (config \<times> string list) result" where
  "parse_flags flags c args =
     (case parse_one flags c args of
        Inl e \<Rightarrow> Inl e
      | Inr (going, c', rest) \<Rightarrow> if going then parse_flags flags c' rest else Inr (c', rest))"
  by pat_completeness auto
termination
  by (relation "measure (\<lambda>(flags, c, args). length args)") (auto dest: parse_one_Inr)

declare parse_flags.simps [simp del]

fun join_words :: "string list \<Rightarrow> string" where
  "join_words [] = []"
| "join_words [s] = s"
| "join_words (s # t # ss) = s @ '' '' @ join_words (t # ss)"

text \<open>The configuration and the error, as the source returns them.\<close>

definition Parse :: "number_parsers \<Rightarrow> environ \<Rightarrow> string list \<Rightarrow> config \<times> go_error option" where
  "Parse np vars args =
     (case env_config np vars of
        Inl e \<Rightarrow> (zero_config, Some e)
      | Inr cfg \<Rightarrow>
      (case parse_flags (flag_set np) cfg args of
        Inl e \<Rightarrow> (zero_config, Some e)
      | Inr (cfg', rest) \<Rightarrow>
          if rest \<noteq> [] then (zero_config, Some (NewError (''unexpected arguments: '' @ join_words rest)))
          else (cfg', Validate cfg')))"


section \<open>Lemmas\<close>

lemma before_both: "before CHR '':'' (before CHR ''/'' x) = takeWhile (\<lambda>c. c \<noteq> CHR ''/'' \<and> c \<noteq> CHR '':'') x"
  unfolding before_def by (induction x) auto

lemma trim_prefix_split: "\<exists>q. s = q @ trim_prefix s p \<and> q \<in> {[], p}"
proof (cases "is_prefix p s")
  case True
  then have "s = p @ drop (length p) s" unfolding is_prefix_def by (metis append_take_drop_id)
  with True show ?thesis by (auto simp: trim_prefix_def)
qed (simp add: trim_prefix_def)

lemma complain_Nil [simp]: "complain b msg = [] \<longleftrightarrow> \<not> b"
  by (simp add: complain_def)

lemma Validate_None:
  assumes "Validate c = None" "\<not> cfListDevices c" "\<not> cfVersion c"
  shows "cfSerialDevice c \<noteq> [] \<and> 0 < cfSerialBaud c \<and> cfDatabasePath c \<noteq> [] \<and> cfHTTPListenAddress c \<noteq> [] \<and>
    (ccEnabled (cfCalTopo c) \<longrightarrow> caltopo_errors (cfCalTopo c) = [])"
proof -
  have none: "errors_join (map Some es) = None \<longleftrightarrow> es = []" for es
    by (cases es) (auto simp: errors_join_None)
  from assms have "complain (cfSerialDevice c = []) ''serial device is required (set -serial-device or MESHTASTIC_SERIAL_DEVICE)'' = [] \<and>
      complain (cfSerialBaud c \<le> 0) ''serial baud must be positive'' = [] \<and>
      complain (cfDatabasePath c = []) ''database path is required'' = [] \<and>
      complain (cfHTTPListenAddress c = []) ''HTTP listen address is required'' = [] \<and>
      (if ccEnabled (cfCalTopo c) then caltopo_errors (cfCalTopo c) else []) = []"
    by (simp only: Validate_def none append_is_Nil_conv if_False simp_thms)
  then show ?thesis by (auto split: if_splits)
qed

lemma positive_movement:
  assumes "\<not> f64_nonpositive x" "x \<noteq> NaN" "\<not> is_inf x"
  shows "\<exists>r > 0. x = Fin r"
  using assms by (cases x) (auto simp: f64_nonpositive_def is_inf_def f64_le_def)

lemma bind_result_Inr: "bind_result r f = Inr c \<longleftrightarrow> (\<exists>a. r = Inr a \<and> f a = Inr c)"
  by (auto simp: bind_result_def split: sum.splits)

lemma env_parsed_Inr:
  "env_parsed parse what vars key fallback = Inr x \<Longrightarrow> vars key = Some v \<Longrightarrow> parse v = Inr x"
  by (simp add: env_parsed_def split: sum.splits)

lemma env_config_Inr:
  assumes "env_config np vars = Inr cfg"
  shows "envInt vars ''MESHTASTIC_SERIAL_BAUD'' 115200 = Inr (cfSerialBaud cfg)"
    "envBool vars ''CALTOPO_ENABLED'' False = Inr (ccEnabled (cfCalTopo cfg))"
    "envDuration np vars ''CALTOPO_TIMEOUT'' (10 * second) = Inr (ccTimeout (cfCalTopo cfg))"
    "envBool vars ''BRIDGE_DEBUG'' False = Inr (cfDebug cfg)"
    "envBool vars ''DECODE_POSITION_APP'' True = Inr (cfDecodePositionApp cfg)"
    "ccCredentialID (cfCalTopo cfg) = env vars ''CALTOPO_CREDENTIAL_ID'' []"
    "ccKey (cfCalTopo cfg) = env vars ''CALTOPO_KEY'' []"
    "ccAccountID (cfCalTopo cfg) = env vars ''CALTOPO_ACCOUNT_ID'' []"
  using assms unfolding env_config_def bind_result_Inr by clarsimp+

text \<open>What the flags cannot set.\<close>

definition env_only :: "config \<Rightarrow> string \<times> string \<times> string \<times> duration \<times> bool" where
  "env_only c = (ccCredentialID (cfCalTopo c), ccKey (cfCalTopo c), ccAccountID (cfCalTopo c),
     ccTimeout (cfCalTopo c), cfDecodePositionApp c)"

lemma flag_set_keeps:
  "map_of (flag_set np) name = Some (b, setv) \<Longrightarrow> setv v c = Inr c' \<Longrightarrow> env_only c' = env_only c"
  by (auto simp: flag_set_def env_only_def set_parsed_def split: if_splits sum.splits)

lemma parse_flags_keeps:
  "parse_flags (flag_set np) c args = Inr (c', rest) \<Longrightarrow> env_only c' = env_only c"
proof (induction "length args" arbitrary: c args rule: less_induct)
  case less
  then obtain going c1 rest1 where o: "parse_one (flag_set np) c args = Inr (going, c1, rest1)"
    by (subst (asm) parse_flags.simps) (auto split: sum.splits)
  from parse_one_Inr [OF o] have k: "env_only c1 = env_only c" "going \<Longrightarrow> length rest1 < length args"
    using flag_set_keeps by auto
  show ?case
  proof (cases going)
    case True
    with less.prems o have "parse_flags (flag_set np) c1 rest1 = Inr (c', rest)"
      by (subst (asm) parse_flags.simps) simp
    with less.hyps k True show ?thesis by simp
  next
    case False
    with less.prems o k show ?thesis by (subst (asm) parse_flags.simps) simp
  qed
qed


section \<open>A configuration\<close>

definition sample_parsers :: number_parsers where
  "sample_parsers = \<lparr>npParseInt = Atoi, npParseFloat = \<lambda>s. Inr (Fin 10), npParseDuration = \<lambda>s. Inr second\<rparr>"

definition sample_environ :: environ where
  "sample_environ = [''MESHTASTIC_SERIAL_DEVICE'' \<mapsto> ''/dev/ttyACM0'', ''CALTOPO_CREDENTIAL_ID'' \<mapsto> ''id'',
     ''CALTOPO_KEY'' \<mapsto> ''key'', ''CALTOPO_ENDPOINT'' \<mapsto> ''HTTPS://CalTopo.com/api'']"

definition sample_args :: "string list" where
  "sample_args = [''-caltopo'', ''--caltopo-map=ABCD'', ''-caltopo-group'', ''sar'']"

definition sample_config :: config where
  "sample_config = fst (Parse sample_parsers sample_environ sample_args)"

lemma sample_parse:
  "snd (Parse sample_parsers sample_environ sample_args) = None \<and> ccEnabled (cfCalTopo sample_config) \<and>
   \<not> cfListDevices sample_config \<and> \<not> cfVersion sample_config \<and> ccGroup (cfCalTopo sample_config) = ''sar''"
  unfolding sample_config_def sample_args_def sample_environ_def sample_parsers_def
  by code_simp

section \<open>Properties\<close>

text \<open>
  C36: What a configuration that \<open>Parse\<close> accepts guarantees to the rest of the bridge when CalTopo is
  enabled: the worker's default timeout is never used, a node that has not moved is never published
  for its movement, the heartbeat is positive, a hosted endpoint has credentials, and the group can be
  read back from every device id as the part before the first dash.
\<close>
theorem accepted_config_safe:
  assumes "Parse np vars args = (c, None)" "\<not> cfListDevices c" "\<not> cfVersion c" "ccEnabled (cfCalTopo c)"
    and "adGroup a = ccGroup (cfCalTopo c)"
  shows "request_timeout (ccTimeout (cfCalTopo c)) = ccTimeout (cfCalTopo c) \<and>
    \<not> at_least 0 (ccMovement (cfCalTopo c)) \<and> 0 < ccHeartbeat (cfCalTopo c) \<and>
    (isHosted (ccEndpoint (cfCalTopo c)) \<longrightarrow> ccCredentialID (cfCalTopo c) \<noteq> [] \<and> ccKey (cfCalTopo c) \<noteq> []) \<and>
    3 \<le> length (ccMapID (cfCalTopo c)) \<and> length (ccMapID (cfCalTopo c)) \<le> 7 \<and> 0 < cfSerialBaud c \<and>
    adGroup a \<noteq> [] \<and> before CHR ''-'' (device_id a (NodeID node)) = adGroup a"
proof -
  have v: "Validate c = None"
    using assms(1) by (auto simp: Parse_def split: sum.splits if_splits prod.splits)
  note ok = Validate_None [OF v assms(2,3)]
  then have e: "caltopo_errors (cfCalTopo c) = []" using assms(4) by blast
  have "takeWhile (\<lambda>x. x \<noteq> CHR ''-'') (g @ ''-'' @ y) = g" if "CHR ''-'' \<notin> set g" for g y :: string
    using that by (induction g) auto
  moreover obtain r where "0 < r" "ccMovement (cfCalTopo c) = Fin r"
    using e positive_movement [of "ccMovement (cfCalTopo c)"] by (auto simp: caltopo_errors_def)
  ultimately show ?thesis
    using e ok assms(5) by (auto simp: caltopo_errors_def request_timeout_def before_def device_id_node split: if_splits)
qed

theorem accepted_config_safe_witness:
  "request_timeout (ccTimeout (cfCalTopo sample_config)) = ccTimeout (cfCalTopo sample_config) \<and>
   before CHR ''-'' (device_id (sample_adapter\<lparr>adGroup := ''sar''\<rparr>) (NodeID 42)) = ''sar''"
proof -
  have p: "Parse sample_parsers sample_environ sample_args = (sample_config, None)"
    using sample_parse by (simp add: sample_config_def prod_eq_iff)
  from accepted_config_safe [OF p, of "sample_adapter\<lparr>adGroup := ''sar''\<rparr>" 42] sample_parse show ?thesis by simp
qed

text \<open>
  Credentials are demanded for exactly the endpoints whose host, in any letter case, is one of the
  three hosted ones, with or without a scheme in front and a port or a path behind.
\<close>
theorem hosted_exactly:
  "isHosted endpoint \<longleftrightarrow>
     (\<exists>scheme host rest. to_lower endpoint = scheme @ host @ rest \<and>
        scheme \<in> {[], ''https://'', ''http://'', ''https://'' @ ''http://''} \<and>
        host \<in> {''caltopo.com'', ''sartopo.com'', ''testing.caltopo.com''} \<and>
        (rest = [] \<or> hd rest = CHR ''/'' \<or> hd rest = CHR '':''))" (is "?l \<longleftrightarrow> ?r")
proof
  let ?p = "\<lambda>c. c \<noteq> CHR ''/'' \<and> c \<noteq> CHR '':''"
  define x where "x = trim_prefix (trim_prefix (to_lower endpoint) ''https://'') ''http://''"
  assume ?l
  then have host: "takeWhile ?p x \<in> {''caltopo.com'', ''sartopo.com'', ''testing.caltopo.com''}"
    by (auto simp: isHosted_def before_both x_def)
  obtain q1 q2 where q: "to_lower endpoint = (q1 @ q2) @ x" "q1 \<in> {[], ''https://''}" "q2 \<in> {[], ''http://''}"
    using trim_prefix_split [of "to_lower endpoint" "''https://''"]
      trim_prefix_split [of "trim_prefix (to_lower endpoint) ''https://''" "''http://''"]
    unfolding x_def by (metis append_assoc)
  have "dropWhile ?p x = [] \<or> hd (dropWhile ?p x) = CHR ''/'' \<or> hd (dropWhile ?p x) = CHR '':''"
    using hd_dropWhile [of ?p x] by auto
  moreover have "to_lower endpoint = (q1 @ q2) @ takeWhile ?p x @ dropWhile ?p x" using q(1) by simp
  moreover have "q1 @ q2 \<in> {[], ''https://'', ''http://'', ''https://'' @ ''http://''}" using q(2,3) by auto
  ultimately show ?r using host by blast
next
  assume ?r
  then obtain scheme host rest where r: "to_lower endpoint = scheme @ host @ rest"
      "scheme \<in> {[], ''https://'', ''http://'', ''https://'' @ ''http://''}"
      "host \<in> {''caltopo.com'', ''sartopo.com'', ''testing.caltopo.com''}"
      "rest = [] \<or> hd rest = CHR ''/'' \<or> hd rest = CHR '':''" by blast
  have "trim_prefix (trim_prefix (scheme @ host @ rest) ''https://'') ''http://'' = host @ rest"
    using r(2,3) by (elim insertE; simp add: trim_prefix_def is_prefix_def)
  moreover have "takeWhile (\<lambda>c. c \<noteq> CHR ''/'' \<and> c \<noteq> CHR '':'') (host @ rest) = host"
    using r(3,4) by (cases rest; elim insertE) auto
  ultimately show ?l using r(1,3) by (auto simp: isHosted_def before_both)
qed

text \<open>
  No flag sets a credential, so none appears in the process list: whatever the arguments, an
  accepted configuration has the credential id, the key, the account id and the timeout of the
  environment; and a variable that is set but malformed is an error, never replaced by its default.
\<close>
theorem credentials_from_environment:
  assumes "Parse np vars args = (c, None)"
  shows "ccCredentialID (cfCalTopo c) = env vars ''CALTOPO_CREDENTIAL_ID'' [] \<and>
    ccKey (cfCalTopo c) = env vars ''CALTOPO_KEY'' [] \<and>
    ccAccountID (cfCalTopo c) = env vars ''CALTOPO_ACCOUNT_ID'' [] \<and>
    envDuration np vars ''CALTOPO_TIMEOUT'' (10 * second) = Inr (ccTimeout (cfCalTopo c)) \<and>
    envBool vars ''DECODE_POSITION_APP'' True = Inr (cfDecodePositionApp c) \<and>
    (\<forall>v. vars ''MESHTASTIC_SERIAL_BAUD'' = Some v \<longrightarrow> (\<exists>n. Atoi v = Inr n)) \<and>
    (\<forall>key \<in> {''CALTOPO_ENABLED'', ''BRIDGE_DEBUG'', ''DECODE_POSITION_APP''}. \<forall>v. vars key = Some v \<longrightarrow>
      (\<exists>b. ParseBool v = Inr b))"
proof -
  obtain cfg rest where e: "env_config np vars = Inr cfg" and f: "parse_flags (flag_set np) cfg args = Inr (c, rest)"
    using assms by (auto simp: Parse_def split: sum.splits if_splits prod.splits)
  have k: "env_only c = env_only cfg" by (rule parse_flags_keeps [OF f])
  note ec = env_config_Inr [OF e]
  have "\<exists>n. Atoi v = Inr n" if "vars ''MESHTASTIC_SERIAL_BAUD'' = Some v" for v
    using env_parsed_Inr [OF ec(1) [unfolded envInt_def] that] by blast
  moreover have "\<exists>b. ParseBool v = Inr b"
    if "key \<in> {''CALTOPO_ENABLED'', ''BRIDGE_DEBUG'', ''DECODE_POSITION_APP''}" "vars key = Some v" for key v
    using that env_parsed_Inr [OF ec(2) [unfolded envBool_def]] env_parsed_Inr [OF ec(4) [unfolded envBool_def]]
      env_parsed_Inr [OF ec(5) [unfolded envBool_def]] by blast
  ultimately show ?thesis using ec(3,5-8) k unfolding env_only_def by simp
qed

theorem credentials_from_environment_witness:
  "ccKey (cfCalTopo sample_config) = ''key''"
proof -
  have p: "Parse sample_parsers sample_environ sample_args = (sample_config, None)"
    using sample_parse by (simp add: sample_config_def prod_eq_iff)
  from credentials_from_environment [OF p] show ?thesis by (simp add: env_def sample_environ_def)
qed

end
