(* ===== verification/Migration.thy ===== *)
theory Migration
  imports Store
begin

text \<open>
  Opening the database in \<^verbatim>\<open>internal/store/store.go\<close>: \<open>initialize\<close>, the schema and \<open>migrate\<close>. The
  catalog holds the tables with their columns, the migrations recorded, and the rows of
  \<open>tak_positions\<close> by column name, which is what a migration rewrites. Every call of the driver may fail;
  the schema's statements commit one by one, the migration is one transaction. The indexes and the
  text of \<open>applied_at\<close>, which nothing reads, are left out.
\<close>

section \<open>The catalog\<close>

datatype sql_value = SqlNull | SqlInteger int | SqlReal f64 | SqlText string

datatype sql_type = INTEGER | REAL | TEXT | BLOB

record column =
  coName :: string
  coType :: sql_type
  coNotNull :: bool
  coDefault :: sql_value

type_synonym sql_row = "string \<Rightarrow> sql_value option"

record catalog =
  ctTables :: "(string \<times> column list) list"
  ctVersions :: "int list"
  ctRows :: "sql_row list"

definition col :: "string \<Rightarrow> sql_type \<Rightarrow> column" where
  "col name ty = \<lparr>coName = name, coType = ty, coNotNull = False, coDefault = SqlNull\<rparr>"

definition required :: "string \<Rightarrow> sql_type \<Rightarrow> column" where
  "required name ty = \<lparr>coName = name, coType = ty, coNotNull = True, coDefault = SqlNull\<rparr>"

definition defaulting :: "string \<Rightarrow> sql_type \<Rightarrow> sql_value \<Rightarrow> column" where
  "defaulting name ty v = \<lparr>coName = name, coType = ty, coNotNull = True, coDefault = v\<rparr>"

definition schema_tables :: "(string \<times> column list) list" where
  "schema_tables =
     [(''schema_migrations'', [col ''version'' INTEGER, required ''applied_at'' TEXT]),
      (''mesh_packets'',
        [col ''id'' INTEGER, required ''source_node'' INTEGER, required ''destination_node'' INTEGER,
         required ''mesh_packet_id'' INTEGER, required ''channel_id'' INTEGER, col ''port_num'' INTEGER,
         required ''hop_limit'' INTEGER, required ''hop_start'' INTEGER, col ''rssi'' INTEGER,
         required ''snr'' REAL, required ''via_mqtt'' INTEGER, required ''pki_encrypted'' INTEGER,
         required ''encrypted'' INTEGER, required ''received_at'' TEXT, col ''radio_rx_time'' TEXT,
         required ''raw_packet'' BLOB, required ''raw_payload'' BLOB, required ''parse_status'' TEXT,
         col ''parse_error'' TEXT]),
      (''mesh_nodes'',
        [col ''node_num'' INTEGER, required ''short_name'' TEXT, required ''long_name'' TEXT,
         required ''updated_at'' TEXT]),
      (''tak_positions'',
        [col ''id'' INTEGER, required ''packet_id'' INTEGER, required ''dedupe_key'' TEXT,
         required ''source_node'' INTEGER, required ''mesh_packet_id'' INTEGER,
         defaulting ''source_port'' INTEGER (SqlInteger 72), required ''callsign'' TEXT,
         col ''device_callsign'' TEXT, required ''latitude'' REAL, required ''longitude'' REAL,
         col ''altitude'' REAL, col ''speed'' REAL, col ''course'' REAL, col ''location_source'' TEXT,
         defaulting ''precision_bits'' INTEGER (SqlInteger 0), required ''source_time'' TEXT,
         required ''received_at'' TEXT]),
      (''caltopo_tracks'',
        [col ''source_id'' TEXT, required ''device_id'' TEXT, required ''track_id'' TEXT,
         required ''created_at'' TEXT]),
      (''caltopo_deliveries'',
        [col ''id'' INTEGER, required ''position_id'' INTEGER, required ''state'' TEXT,
         required ''attempts'' INTEGER, required ''next_attempt_at'' TEXT, col ''last_error'' TEXT,
         col ''delivered_at'' TEXT])]"

section \<open>Driver calls\<close>

datatype init_call = Pragma string | Create string | Insert_Version int | Query_Version | Begin_Migration
  | Inspect string | Scan_Schema string nat | Iterate_Schema string | Add_Column string | Commit_Migration

type_synonym init_faults = "init_call \<Rightarrow> go_error option"

definition statement :: "init_faults \<Rightarrow> init_call \<Rightarrow> 'a result \<Rightarrow> 'a result" where
  "statement io call r = (case io call of Some e \<Rightarrow> Inl e | None \<Rightarrow> r)"

definition create_table :: "string \<Rightarrow> column list \<Rightarrow> catalog \<Rightarrow> catalog" where
  "create_table t cols c =
     (if t \<in> fst ` set (ctTables c) then c else c\<lparr>ctTables := ctTables c @ [(t, cols)]\<rparr>)"

text \<open>
  The plain \<open>INSERT\<close> of version 2 violates the primary key when the version is there. Version 1 is inserted
  with \<open>OR IGNORE\<close> and version 3 with \<open>ON CONFLICT DO NOTHING\<close>, which keep the row.
\<close>

definition insert_version :: "int \<Rightarrow> catalog \<Rightarrow> catalog result" where
  "insert_version v c =
     (if v \<in> set (ctVersions c) then Inl (constraint_failed ''UNIQUE schema_migrations.version'')
      else Inr (c\<lparr>ctVersions := ctVersions c @ [v]\<rparr>))"

definition record_version :: "int \<Rightarrow> catalog \<Rightarrow> catalog" where
  "record_version v c = (if v \<in> set (ctVersions c) then c else c\<lparr>ctVersions := ctVersions c @ [v]\<rparr>)"

definition columns_of :: "string \<Rightarrow> catalog \<Rightarrow> string list" where
  "columns_of t c = (case map_of (ctTables c) t of None \<Rightarrow> [] | Some cols \<Rightarrow> map coName cols)"

definition has_column :: "string \<Rightarrow> string \<Rightarrow> catalog \<Rightarrow> bool" where
  "has_column t name c =
     (case map_of (ctTables c) t of None \<Rightarrow> False | Some cols \<Rightarrow> name \<in> coName ` set cols)"

text \<open>
  \<open>ALTER TABLE tak_positions ADD COLUMN\<close> appends the column, and the stored rows read its default; a column
  that is there and a table that is not are errors.
\<close>

definition append_column :: "column \<Rightarrow> catalog \<Rightarrow> catalog" where
  "append_column k c =
     c\<lparr>ctTables := map (\<lambda>(t, cols). (t, if t = ''tak_positions'' then cols @ [k] else cols)) (ctTables c),
       ctRows := map (\<lambda>r. r(coName k \<mapsto> coDefault k)) (ctRows c)\<rparr>"

definition add_column :: "column \<Rightarrow> catalog \<Rightarrow> catalog result" where
  "add_column k c =
     (if ''tak_positions'' \<notin> fst ` set (ctTables c) then Inl (NewError ''no such table: tak_positions'')
      else if has_column ''tak_positions'' (coName k) c then Inl (NewError (''duplicate column name: '' @ coName k))
      else Inr (append_column k c))"

definition migration_columns :: "column list" where
  "migration_columns =
     [defaulting ''source_port'' INTEGER (SqlInteger 72), col ''location_source'' TEXT,
      defaulting ''precision_bits'' INTEGER (SqlInteger 0)]"

section \<open>Initialisation\<close>

fun create_tables :: "init_faults \<Rightarrow> (string \<times> column list) list \<Rightarrow> catalog \<Rightarrow> go_error option \<times> catalog" where
  "create_tables io [] c = (None, c)"
| "create_tables io ((t, cols) # ts) c =
     (case io (Create t) of
        Some e \<Rightarrow> (Some e, c)
      | None \<Rightarrow> create_tables io ts (create_table t cols c))"

text \<open>The statement \<open>schema\<close>: the tables, and the record of version 1 unless it is there.\<close>

definition exec_schema :: "init_faults \<Rightarrow> catalog \<Rightarrow> go_error option \<times> catalog" where
  "exec_schema io c =
     (case create_tables io schema_tables c of
        (Some e, c1) \<Rightarrow> (Some e, c1)
      | (None, c1) \<Rightarrow>
          (case io (Insert_Version 1) of
             Some e \<Rightarrow> (Some e, c1)
           | None \<Rightarrow> (None, record_version 1 c1)))"

text \<open>
  \<open>PRAGMA table_info\<close> of the table, one row per column in order; the search stops at the column.
  The calls are named by the column looked for.
\<close>

fun scan_columns :: "init_faults \<Rightarrow> string \<Rightarrow> string \<Rightarrow> nat \<Rightarrow> string list \<Rightarrow> bool result" where
  "scan_columns io table name n [] =
     (case io (Iterate_Schema name) of
        Some e \<Rightarrow> Inl (WrapError (''iterate '' @ table @ '' schema'') e)
      | None \<Rightarrow> Inr False)"
| "scan_columns io table name n (c # cs) =
     (case io (Scan_Schema name n) of
        Some e \<Rightarrow> Inl (WrapError (''scan '' @ table @ '' schema'') e)
      | None \<Rightarrow> if c = name then Inr True else scan_columns io table name (Suc n) cs)"

definition tableHasColumn :: "init_faults \<Rightarrow> string \<Rightarrow> string \<Rightarrow> catalog \<Rightarrow> bool result" where
  "tableHasColumn io table name c =
     (case io (Inspect name) of
        Some e \<Rightarrow> Inl (WrapError (''inspect '' @ table @ '' schema'') e)
      | None \<Rightarrow> scan_columns io table name 0 (columns_of table c))"

fun add_columns :: "init_faults \<Rightarrow> column list \<Rightarrow> catalog \<Rightarrow> catalog result" where
  "add_columns io [] c = Inr c"
| "add_columns io (k # ks) c =
     (case tableHasColumn io ''tak_positions'' (coName k) c of
        Inl e \<Rightarrow> Inl e
      | Inr exists \<Rightarrow>
          if exists then add_columns io ks c
          else
            (case statement io (Add_Column (coName k)) (add_column k c) of
               Inl e \<Rightarrow> Inl (WrapError (''add tak_positions.'' @ coName k) e)
             | Inr c1 \<Rightarrow> add_columns io ks c1))"

text \<open>The transaction of version 2; on an error it is rolled back.\<close>

definition migrate_columns :: "init_faults \<Rightarrow> catalog \<Rightarrow> go_error option \<times> catalog" where
  "migrate_columns io c =
     (case io Begin_Migration of
        Some e \<Rightarrow> (Some (WrapError ''begin schema migration'' e), c)
      | None \<Rightarrow>
      (case add_columns io migration_columns c of
        Inl e \<Rightarrow> (Some e, c)
      | Inr tx \<Rightarrow>
      (case statement io (Insert_Version 2) (insert_version 2 tx) of
        Inl e \<Rightarrow> (Some (WrapError ''record schema migration 2'' e), c)
      | Inr tx2 \<Rightarrow>
      (case io Commit_Migration of
        Some e \<Rightarrow> (Some (WrapError ''commit schema migration 2'' e), c)
      | None \<Rightarrow> (None, tx2)))))"

definition migrate :: "init_faults \<Rightarrow> catalog \<Rightarrow> go_error option \<times> catalog" where
  "migrate io c =
     (case io Query_Version of
        Some e \<Rightarrow> (Some (WrapError ''query schema migration'' e), c)
      | None \<Rightarrow>
      (case (if 2 \<in> set (ctVersions c) then (None, c) else migrate_columns io c) of
        (Some e, c1) \<Rightarrow> (Some e, c1)
      | (None, c1) \<Rightarrow>
      (case io (Insert_Version 3) of
        Some e \<Rightarrow> (Some (WrapError ''record schema migration 3'' e), c1)
      | None \<Rightarrow> (None, record_version 3 c1))))"

fun run_pragmas :: "init_faults \<Rightarrow> string list \<Rightarrow> go_error option" where
  "run_pragmas io [] = None"
| "run_pragmas io (p # ps) = (case io (Pragma p) of Some e \<Rightarrow> Some e | None \<Rightarrow> run_pragmas io ps)"

definition initialize :: "init_faults \<Rightarrow> catalog \<Rightarrow> go_error option \<times> catalog" where
  "initialize io c =
     (case run_pragmas io [''journal_mode=WAL'', ''foreign_keys=ON'', ''busy_timeout=5000''] of
        Some e \<Rightarrow> (Some (WrapError ''initialize SQLite database'' e), c)
      | None \<Rightarrow>
      (case exec_schema io c of
        (Some e, c1) \<Rightarrow> (Some (WrapError ''initialize SQLite database'' e), c1)
      | (None, c1) \<Rightarrow> migrate io c1))"

section \<open>What happens when nothing fails\<close>

abbreviation ok_calls :: init_faults where
  "ok_calls \<equiv> \<lambda>_. None"

definition with_tables :: "(string \<times> column list) list \<Rightarrow> catalog \<Rightarrow> catalog" where
  "with_tables ts c = fold (\<lambda>(t, cols). create_table t cols) ts c"

definition with_schema :: "catalog \<Rightarrow> catalog" where
  "with_schema c = record_version 1 (with_tables schema_tables c)"

definition with_column :: "column \<Rightarrow> catalog \<Rightarrow> catalog" where
  "with_column k c = (if has_column ''tak_positions'' (coName k) c then c else append_column k c)"

definition with_columns :: "catalog \<Rightarrow> catalog" where
  "with_columns c = (if 2 \<in> set (ctVersions c) then c else record_version 2 (fold with_column migration_columns c))"

lemma create_tables_ok: "create_tables ok_calls ts c = (None, with_tables ts c)"
  by (induction ts arbitrary: c) (auto simp: with_tables_def)

lemma scan_columns_ok: "scan_columns ok_calls table name n cs = Inr (name \<in> set cs)"
  by (induction cs arbitrary: n) auto

lemma scan_columns_Inr: "scan_columns io table name n cs = Inr b \<Longrightarrow> b \<longleftrightarrow> name \<in> set cs"
  by (induction cs arbitrary: n) (auto split: option.splits if_splits)

lemma set_columns_of: "name \<in> set (columns_of table c) \<longleftrightarrow> has_column table name c"
  by (auto simp: columns_of_def has_column_def split: option.splits)

lemma tableHasColumn_ok: "tableHasColumn ok_calls table name c = Inr (has_column table name c)"
  by (simp add: tableHasColumn_def scan_columns_ok set_columns_of)

lemma tableHasColumn_Inr: "tableHasColumn io table name c = Inr b \<Longrightarrow> b = has_column table name c"
  by (auto simp: tableHasColumn_def set_columns_of dest: scan_columns_Inr split: option.splits)

definition table_names :: "catalog \<Rightarrow> string set" where
  "table_names c = fst ` set (ctTables c)"

lemma with_column_simps [simp]:
  "table_names (with_column k c) = table_names c" "ctVersions (with_column k c) = ctVersions c"
  by (force simp: with_column_def append_column_def table_names_def)+

lemma fold_with_column_simps [simp]:
  "table_names (fold with_column ks c) = table_names c" "ctVersions (fold with_column ks c) = ctVersions c"
  by (induction ks arbitrary: c) simp_all

lemma add_columns_ok: "''tak_positions'' \<in> table_names c \<Longrightarrow> add_columns ok_calls ks c = Inr (fold with_column ks c)"
proof (induction ks arbitrary: c)
  case (Cons k ks)
  from Cons.prems have "add_column k c = Inr (with_column k c)" if "\<not> has_column ''tak_positions'' (coName k) c"
    using that by (simp add: add_column_def with_column_def table_names_def)
  with Cons show ?case
    using with_column_simps(1) [of k c] by (auto simp: tableHasColumn_ok statement_def) (simp add: with_column_def)
qed simp

lemma add_columns_Inr: "add_columns io ks c = Inr c' \<Longrightarrow> c' = fold with_column ks c"
proof (induction ks arbitrary: c)
  case (Cons k ks)
  then show ?case
    by (auto simp: with_column_def statement_def add_column_def dest!: tableHasColumn_Inr
        split: sum.splits option.splits if_splits)
qed simp

lemma insert_version_Inr: "insert_version v c = Inr c' \<longleftrightarrow> v \<notin> set (ctVersions c) \<and> c' = record_version v c"
  by (auto simp: insert_version_def record_version_def)

section \<open>What an interrupted start leaves behind\<close>

lemma create_table_names [simp]: "table_names (create_table t cols c) = insert t (table_names c)"
  by (auto simp: create_table_def table_names_def)

lemma create_table_exists: "t \<in> table_names c \<Longrightarrow> create_table t cols c = c"
  by (simp add: create_table_def table_names_def)

lemma create_tables_keeps: "table_names c \<subseteq> table_names (snd (create_tables io ts c))"
proof (induction io ts c rule: create_tables.induct)
  case (2 io t cols ts c)
  then show ?case by (cases "io (Create t)") simp_all
qed simp

lemma create_tables_retry: "with_tables ts (snd (create_tables io ts c)) = with_tables ts c"
proof (induction io ts c rule: create_tables.induct)
  case (2 io t cols ts c)
  show ?case
  proof (cases "io (Create t)")
    case None
    let ?c = "snd (create_tables io ts (create_table t cols c))"
    have "t \<in> table_names ?c" using create_tables_keeps [of "create_table t cols c" io ts] by auto
    then have "create_table t cols ?c = ?c" by (rule create_table_exists)
    with 2 None show ?thesis by (simp add: with_tables_def)
  qed simp
qed (simp add: with_tables_def)

lemma with_tables_idem: "with_tables ts (with_tables ts c) = with_tables ts c"
  using create_tables_retry [of ts ok_calls c] by (simp add: create_tables_ok)

lemma with_tables_names: "table_names (with_tables ts c) = fst ` set ts \<union> table_names c"
  unfolding with_tables_def by (induction ts arbitrary: c) (simp_all add: case_prod_beta)

lemma tables_exist: "fst ` set ts \<subseteq> table_names c \<Longrightarrow> with_tables ts c = c"
  unfolding with_tables_def
  by (induction ts) (simp_all add: create_table_exists case_prod_beta)

lemma with_tables_versions: "ctVersions (with_tables ts c) = ctVersions c"
  unfolding with_tables_def by (induction ts arbitrary: c) (simp_all add: create_table_def case_prod_beta)

lemma record_version_simps [simp]:
  "ctTables (record_version v c) = ctTables c" "ctRows (record_version v c) = ctRows c"
  "set (ctVersions (record_version v c)) = insert v (set (ctVersions c))"
  "table_names (record_version v c) = table_names c"
  by (auto simp: record_version_def table_names_def)

lemma record_version_idem: "v \<in> set (ctVersions c) \<Longrightarrow> record_version v c = c"
  by (simp add: record_version_def)

lemma create_table_record_version: "create_table t cols (record_version v c) = record_version v (create_table t cols c)"
  by (simp add: create_table_def record_version_def)

lemma with_columns_simps:
  "table_names (with_columns c) = table_names c" "set (ctVersions (with_columns c)) = insert 2 (set (ctVersions c))"
  by (auto simp: with_columns_def)

lemma with_schema_done:
  assumes "fst ` set schema_tables \<subseteq> table_names c" "1 \<in> set (ctVersions c)"
  shows "with_schema c = c"
  using assms by (simp add: with_schema_def tables_exist record_version_idem)

lemma with_schema_simps:
  "fst ` set schema_tables \<subseteq> table_names (with_schema c)" "1 \<in> set (ctVersions (with_schema c))"
  by (simp_all add: with_schema_def with_tables_names)

lemma migrate_columns_ok:
  assumes "''tak_positions'' \<in> table_names c" "2 \<notin> set (ctVersions c)"
  shows "migrate_columns ok_calls c = (None, with_columns c)"
  using assms by (simp add: migrate_columns_def add_columns_ok statement_def insert_version_def record_version_def with_columns_def)

lemma initialize_ok: "initialize ok_calls c = (None, record_version 3 (with_columns (with_schema c)))"
proof -
  have "''tak_positions'' \<in> table_names (with_schema c)"
    using with_schema_simps(1) [of c] by (auto simp: schema_tables_def)
  then have "migrate ok_calls (with_schema c) = (None, record_version 3 (with_columns (with_schema c)))"
    by (simp add: migrate_def migrate_columns_ok) (simp add: with_columns_def)
  then show ?thesis by (simp add: initialize_def exec_schema_def create_tables_ok with_schema_def)
qed

lemma initialize_cases:
  assumes "initialize io c = (r, c')"
  obtains (tables) "r \<noteq> None" "with_tables schema_tables c' = with_tables schema_tables c"
  | (schema_done) "r \<noteq> None" "c' = with_schema c"
  | (migrated) "r \<noteq> None" "c' = with_columns (with_schema c)"
  | (finished) "r = None" "c' = record_version 3 (with_columns (with_schema c))"
proof -
  obtain x c1 where t: "create_tables io schema_tables c = (x, c1)" by fastforce
  have c1: "with_tables schema_tables c1 = with_tables schema_tables c"
    using create_tables_retry [of schema_tables io c] t by simp
  have ok: "c1 = with_tables schema_tables c" if "x = None"
  proof -
    have "create_tables io ts d = (None, d') \<Longrightarrow> d' = with_tables ts d" for ts d d'
      by (induction ts arbitrary: d) (auto simp: with_tables_def split: option.splits)
    with t that show ?thesis by blast
  qed
  show ?thesis
  proof (cases "run_pragmas io [''journal_mode=WAL'', ''foreign_keys=ON'', ''busy_timeout=5000''] = None \<and>
      x = None \<and> io (Insert_Version 1) = None")
    case False
    with assms t c1 tables show ?thesis
      by (auto simp: initialize_def exec_schema_def split: option.splits if_splits)
  next
    case True
    with assms t ok have m: "migrate io (with_schema c) = (r, c')"
      by (auto simp: initialize_def exec_schema_def with_schema_def split: option.splits)
    have col: "c2 = with_columns d" if "migrate_columns io d = (None, c2)" "2 \<notin> set (ctVersions d)" for d c2
      using that by (auto simp: migrate_columns_def with_columns_def statement_def insert_version_Inr
          dest!: add_columns_Inr split: option.splits sum.splits)
    have fail: "c2 = d" if "migrate_columns io d = (Some e, c2)" for d c2 e
      using that by (auto simp: migrate_columns_def split: option.splits sum.splits)
    obtain y c2 where y: "(if 2 \<in> set (ctVersions (with_schema c)) then (None, with_schema c)
        else migrate_columns io (with_schema c)) = (y, c2)" by fastforce
    show ?thesis
    proof (cases "io Query_Version = None \<and> y = None")
      case False
      with m y fail schema_done show ?thesis
        by (auto simp: migrate_def split: option.splits if_splits)
    next
      case True
      then have "c2 = with_columns (with_schema c)"
        using y col [of "with_schema c"] by (auto simp: with_columns_def split: if_splits)
      with True m y migrated finished show ?thesis
        by (auto simp: migrate_def split: option.splits)
    qed
  qed
qed


section \<open>What the migration adds\<close>

abbreviation positions_columns :: "catalog \<Rightarrow> column list option" where
  "positions_columns c \<equiv> map_of (ctTables c) ''tak_positions''"

lemma append_column_positions:
  "positions_columns c = Some cols \<Longrightarrow> positions_columns (append_column k c) = Some (cols @ [k])"
proof -
  have "map_of (map (\<lambda>(t, cols). (t, if t = u then f cols else cols)) ts) u = map_option f (map_of ts u)" for ts u f
    by (induction ts) auto
  from this [of "''tak_positions''" "\<lambda>cols. cols @ [k]" "ctTables c"]
  show "positions_columns c = Some cols \<Longrightarrow> positions_columns (append_column k c) = Some (cols @ [k])"
    by (simp add: append_column_def)
qed

lemma fold_with_column:
  assumes "positions_columns c = Some cols" "distinct (map coName ks)"
  shows "let new = filter (\<lambda>k. coName k \<notin> coName ` set cols) ks; c' = fold with_column ks c in
    positions_columns c' = Some (cols @ new) \<and>
    ctRows c' = map (\<lambda>r. r ++ map_of (map (\<lambda>k. (coName k, coDefault k)) new)) (ctRows c)"
  using assms
proof (induction ks arbitrary: c cols)
  case (Cons k ks)
  show ?case
  proof (cases "coName k \<in> coName ` set cols")
    case True
    then have "with_column k c = c" using Cons.prems(1) by (simp add: with_column_def has_column_def)
    with Cons.IH [OF Cons.prems(1)] Cons.prems(2) True show ?thesis by (simp add: Let_def)
  next
    case False
    define new where "new = filter (\<lambda>k. coName k \<notin> coName ` set cols) ks"
    have w: "with_column k c = append_column k c"
      using Cons.prems(1) False by (simp add: with_column_def has_column_def)
    have same: "filter (\<lambda>k'. coName k' \<notin> coName ` set (cols @ [k])) ks = new"
      unfolding new_def by (rule filter_cong) (use Cons.prems(2) in \<open>auto simp: rev_image_eqI\<close>)
    have fresh: "coName k \<notin> dom (map_of (map (\<lambda>k. (coName k, coDefault k)) new))"
      using Cons.prems(2) by (auto simp: new_def dom_map_of_conv_image_fst image_image)
    have "positions_columns (fold with_column ks (append_column k c)) = Some ((cols @ [k]) @ new) \<and>
        ctRows (fold with_column ks (append_column k c)) =
          map (\<lambda>r. r ++ map_of (map (\<lambda>k. (coName k, coDefault k)) new)) (ctRows (append_column k c))"
      using Cons.IH [OF append_column_positions [OF Cons.prems(1)], of k] Cons.prems(2)
      unfolding Let_def same by simp
    with w False fresh show ?thesis
      by (simp add: Let_def new_def [symmetric] append_column_def map_add_upd_left)
  qed
qed simp

lemma with_tables_positions:
  "positions_columns c = Some cols \<Longrightarrow> positions_columns (with_tables ts c) = Some cols \<and> ctRows (with_tables ts c) = ctRows c"
  unfolding with_tables_def
  by (induction ts arbitrary: c) (auto simp: create_table_def case_prod_beta)

section \<open>Opening again\<close>

lemma restart_same:
  assumes "initialize io c = (r, c')"
  shows "initialize (\<lambda>_. None) c' = initialize (\<lambda>_. None) c"
  using assms
proof (cases rule: initialize_cases)
  case tables
  then show ?thesis by (simp add: initialize_ok with_schema_def)
next
  case schema_done
  then show ?thesis using with_schema_done [OF with_schema_simps] by (simp add: initialize_ok)
next
  case migrated
  have s: "with_schema c' = c'"
    by (rule with_schema_done) (use with_schema_simps in \<open>simp_all add: migrated(2) with_columns_simps\<close>)
  have "2 \<in> set (ctVersions c')" by (simp add: migrated(2) with_columns_simps)
  then have w: "with_columns c' = c'" by (simp only: with_columns_def if_True)
  show ?thesis unfolding initialize_ok s w unfolding migrated(2) ..
next
  case finished
  have s: "with_schema c' = c'"
    by (rule with_schema_done) (use with_schema_simps in \<open>simp_all add: finished(2) with_columns_simps\<close>)
  have "2 \<in> set (ctVersions c')" by (simp add: finished(2) with_columns_simps)
  then have w: "with_columns c' = c'" by (simp only: with_columns_def if_True)
  have v: "record_version 3 c' = c'" by (rule record_version_idem) (simp add: finished(2))
  show ?thesis unfolding initialize_ok s w v unfolding finished(2) ..
qed

section \<open>Properties\<close>

text \<open>
  C27: A start that was interrupted is repaired by the next one: whichever driver call failed, and also
  when none did, opening the database again without a failure succeeds, and gives exactly what a single
  start without a failure gives; in particular it does not record version 2, whose \<open>INSERT\<close> is a plain
  one, a second time.
\<close>
theorem interrupted_start_repaired:
  assumes "initialize io c = (r, c')"
  shows "fst (initialize (\<lambda>_. None) c') = None \<and> initialize (\<lambda>_. None) c' = initialize (\<lambda>_. None) c"
  using restart_same [OF assms] by (simp add: initialize_ok)

text \<open>
  C38: Opening a database of the first version keeps its positions and gives them the columns they
  lack: \<open>tak_positions\<close> gets those of \<open>source_port\<close>, \<open>location_source\<close> and \<open>precision_bits\<close> that it does not
  have, behind its own; every stored row keeps the values it had and reads port 72, no location source
  and precision 0 in the new ones; and all three versions are recorded.
\<close>
theorem migration_keeps_rows:
  assumes "positions_columns c = Some cols" "2 \<notin> set (ctVersions c)"
  shows "let new = filter (\<lambda>k. coName k \<notin> coName ` set cols) migration_columns in
    \<exists>c'. initialize (\<lambda>_. None) c = (None, c') \<and> map_of (ctTables c') ''tak_positions'' = Some (cols @ new) \<and>
      ctRows c' = map (\<lambda>r. r ++ map_of (map (\<lambda>k. (coName k, coDefault k)) new)) (ctRows c) \<and>
      set (ctVersions c') = {1, 2, 3} \<union> set (ctVersions c)"
proof -
  have s: "positions_columns (with_schema c) = Some cols" "ctRows (with_schema c) = ctRows c"
    "set (ctVersions (with_schema c)) = insert 1 (set (ctVersions c))"
    using with_tables_positions [OF assms(1), of schema_tables]
    by (simp_all add: with_schema_def with_tables_versions)
  have d: "distinct (map coName migration_columns)"
    by (simp add: migration_columns_def defaulting_def col_def)
  have w: "with_columns (with_schema c) = record_version 2 (fold with_column migration_columns (with_schema c))"
    using assms(2) s(3) by (simp add: with_columns_def)
  show ?thesis
    using fold_with_column [OF s(1) d] s(2,3) unfolding initialize_ok w Let_def by auto
qed

section \<open>A database of the first version\<close>

definition legacy_catalog :: catalog where
  "legacy_catalog =
     \<lparr>ctTables = [(''schema_migrations'', []), (''tak_positions'', [col ''id'' INTEGER, required ''callsign'' TEXT])],
      ctVersions = [1], ctRows = [[''id'' \<mapsto> SqlInteger 1, ''callsign'' \<mapsto> SqlText ''R12'']]\<rparr>"

text \<open>The commit of the migration fails; and a start after one in which nothing failed.\<close>
theorem interrupted_start_repaired_witness:
  "initialize (\<lambda>_. None) (snd (initialize (\<lambda>k. if k = Commit_Migration then Some (NewError ''disk full'') else None) legacy_catalog))
     = initialize (\<lambda>_. None) legacy_catalog \<and>
   fst (initialize (\<lambda>_. None) (snd (initialize (\<lambda>_. None) legacy_catalog))) = None"
  using interrupted_start_repaired [OF surjective_pairing, where c = legacy_catalog] by blast

theorem migration_keeps_rows_witness:
  "\<exists>c'. initialize (\<lambda>_. None) legacy_catalog = (None, c') \<and>
     map (\<lambda>r. (r ''callsign'', r ''source_port'')) (ctRows c') = [(Some (SqlText ''R12''), Some (SqlInteger 72))]"
proof -
  have p: "positions_columns legacy_catalog = Some [col ''id'' INTEGER, required ''callsign'' TEXT]"
    "2 \<notin> set (ctVersions legacy_catalog)"
    by (simp_all add: legacy_catalog_def)
  from migration_keeps_rows [OF p] show ?thesis
    by (auto simp: legacy_catalog_def migration_columns_def col_def required_def defaulting_def Let_def map_add_def)
qed

end
