(* ===== verification/StoreArchive.thy ===== *)
theory StoreArchive
  imports Store
begin

text \<open>
  What \<open>Archive\<close> does to the database: the well-formedness invariant of the tables (the schema's
  constraints and the \<open>AUTOINCREMENT\<close> counters), atomicity, one packet row per success, and the
  deduplication of positions by their key.
\<close>

section \<open>The invariant\<close>

definition ids_ok :: "int list \<Rightarrow> int \<Rightarrow> bool" where
  "ids_ok is n \<longleftrightarrow> distinct is \<and> (\<forall>i \<in> set is. 0 < i \<and> i \<le> n) \<and> 0 \<le> n"

definition db_wf :: "db \<Rightarrow> bool" where
  "db_wf d \<longleftrightarrow>
     ids_ok (map prId (packets d)) (packet_seq d) \<and>
     ids_ok (map trId (positions d)) (position_seq d) \<and>
     ids_ok (map drId (deliveries d)) (delivery_seq d) \<and>
     distinct (map trDedupeKey (positions d)) \<and>
     (\<forall>r \<in> set (positions d). trPacketId r \<in> prId ` set (packets d) \<and>
        between 90 (trLatitude r) \<and> between 180 (trLongitude r)) \<and>
     (\<forall>r \<in> set (packets d). prSnr r \<noteq> NaN) \<and>
     distinct (map drPositionId (deliveries d)) \<and>
     drPositionId ` set (deliveries d) \<subseteq> trId ` set (positions d) \<and>
     distinct (map nrNodeNum (nodes d)) \<and>
     distinct (map krSourceId (tracks d)) \<and> distinct (map krDeviceId (tracks d)) \<and>
     distinct (map krTrackId (tracks d))"

lemma ids_ok_snoc: "ids_ok is n \<Longrightarrow> ids_ok (is @ [n + 1]) (n + 1)"
  by (auto simp: ids_ok_def)

lemma db_wf_empty: "db_wf empty_db"
  by (simp add: db_wf_def empty_db_def ids_ok_def)

text \<open>The times of the rows were written by \<open>formatTime\<close> from years it prints with four digits.\<close>

definition time_text :: "string \<Rightarrow> bool" where
  "time_text s \<longleftrightarrow> (case parse_rfc3339 s of None \<Rightarrow> False | Some t \<Rightarrow> four_digit_year t \<and> formatTime t = s)"

definition times_ok :: "db \<Rightarrow> bool" where
  "times_ok d \<longleftrightarrow> (\<forall>r \<in> set (positions d). time_text (trSourceTime r) \<and> time_text (trReceivedAt r))"

lemma time_text_formatTime [simp]: "four_digit_year t \<Longrightarrow> time_text (formatTime t)"
  by (simp add: time_text_def formatTime_def rfc3339_roundtrip)

section \<open>Statements\<close>

lemma attempt_Inr: "attempt io c r = Inr v \<longleftrightarrow> io c = None \<and> r = Inr v"
  by (auto simp: attempt_def split: option.splits)

lemma attempt_ok [simp]: "attempt no_faults c r = r"
  by (simp add: attempt_def)

lemma row_of_ids [simp]:
  "prId (packet_row_of i p) = i" "trId (position_row_of i j key port q) = i"
  "trPacketId (position_row_of i j key port q) = j" "trDedupeKey (position_row_of i j key port q) = key"
  "drId (delivery_row_of i j now) = i" "drPositionId (delivery_row_of i j now) = j"
  by (simp_all add: row_of_defs)

lemma insert_packet_Inr:
  "insert_packet p d = Inr d' \<longleftrightarrow> pkSNR p \<noteq> NaN \<and>
     d' = d\<lparr>packet_seq := packet_seq d + 1, packets := packets d @ [packet_row_of (packet_seq d + 1) p]\<rparr>"
  by (auto simp: insert_packet_def)

lemma insert_position_Inr:
  "insert_position i key port p d = Inr d' \<longleftrightarrow>
     i \<in> prId ` set (packets d) \<and> key \<notin> trDedupeKey ` set (positions d) \<and>
     between 90 (poLatitude p) \<and> between 180 (poLongitude p) \<and>
     d' = d\<lparr>position_seq := position_seq d + 1,
       positions := positions d @ [position_row_of (position_seq d + 1) i key port p]\<rparr>"
  by (auto simp: insert_position_def)

lemma insert_delivery_Inr:
  "insert_delivery i now d = Inr d' \<longleftrightarrow>
     i \<in> trId ` set (positions d) \<and> i \<notin> drPositionId ` set (deliveries d) \<and>
     d' = d\<lparr>delivery_seq := delivery_seq d + 1,
       deliveries := deliveries d @ [delivery_row_of (delivery_seq d + 1) i now]\<rparr>"
  by (auto simp: insert_delivery_def)

lemma insert_packet_wf: "db_wf d \<Longrightarrow> insert_packet p d = Inr d' \<Longrightarrow> db_wf d'"
  by (auto simp: insert_packet_Inr db_wf_def row_of_defs intro: ids_ok_snoc)

lemma insert_position_wf: "db_wf d \<Longrightarrow> insert_position i key port p d = Inr d' \<Longrightarrow> db_wf d'"
  by (auto simp: insert_position_Inr db_wf_def row_of_defs intro: ids_ok_snoc)

lemma insert_delivery_wf: "db_wf d \<Longrightarrow> insert_delivery i now d = Inr d' \<Longrightarrow> db_wf d'"
  by (auto simp: insert_delivery_Inr db_wf_def row_of_defs intro: ids_ok_snoc)

lemma position_of_key_None: "position_of_key key d = None \<longleftrightarrow> key \<notin> trDedupeKey ` set (positions d)"
  by (auto simp: position_of_key_def find_None_iff)

lemma position_of_key_Some: "position_of_key key d = Some r \<Longrightarrow> r \<in> set (positions d) \<and> trDedupeKey r = key"
  by (auto simp: position_of_key_def find_Some_iff)

section \<open>The outcomes of Archive\<close>

lemma commit_cases:
  "commit io what old new v = (r, d) \<longleftrightarrow>
     (io Commit = None \<and> r = Inr v \<and> d = new) \<or>
     (\<exists>e. io Commit = Some e \<and> r = Inl (WrapError what e) \<and> d = old)"
  by (auto simp: commit_def attempt_def split: option.splits)

lemma Archive_cases:
  assumes "Archive sum256 io now p pos enqueue d = (r, d')"
  obtains (failed) e where "r = Inl e" "d' = d"
  | (plain) "pos = None" "insert_packet p d = Inr d'" "r = Inr (packet_seq d', 0, False)"
  | (duplicate) q row where "pos = Some q" "insert_packet p d = Inr d'"
      "position_of_key (positionKey sum256 q) d = Some row" "r = Inr (packet_seq d', trId row, False)"
  | (stored) q d1 d2 where "pos = Some q" "insert_packet p d = Inr d1"
      "position_of_key (positionKey sum256 q) d = None"
      "insert_position (packet_seq d1) (positionKey sum256 q)
         (if poSourcePort q = 0 then pkPort p else poSourcePort q) q d1 = Inr d2"
      "(if enqueue then insert_delivery (position_seq d2) now d2 else Inr d2) = Inr d'"
      "r = Inr (packet_seq d1, position_seq d2, True)"
proof -
  have same: "position_of_key k d1 = position_of_key k d" if "insert_packet p d = Inr d1" for k d1
    using that by (auto simp: insert_packet_Inr position_of_key_def)
  show ?thesis
  proof (cases r)
    case (Inl e)
    with assms have "d' = d"
      by (auto simp: Archive_def commit_cases Let_def split: sum.splits option.splits)
    with Inl show ?thesis by (rule failed)
  next
    case (Inr v)
    show ?thesis
    proof (cases pos)
      case None
      with assms Inr show ?thesis
        by (intro plain) (auto simp: Archive_def commit_cases attempt_Inr split: sum.splits)
    next
      case (Some q)
      from assms Inr Some obtain d1 where d1: "insert_packet p d = Inr d1"
        by (auto simp: Archive_def attempt_Inr split: sum.splits)
      show ?thesis
      proof (cases "position_of_key (positionKey sum256 q) d")
        case None
        with assms Inr Some d1 same [OF d1] obtain d2 where
          d2: "insert_position (packet_seq d1) (positionKey sum256 q)
             (if poSourcePort q = 0 then pkPort p else poSourcePort q) q d1 = Inr d2"
          by (auto simp: Archive_def attempt_Inr Let_def split: sum.splits)
        with assms Inr Some d1 same [OF d1] None show ?thesis
          by (intro stored [OF Some d1 None d2])
            (auto simp: Archive_def commit_cases attempt_Inr Let_def split: sum.splits if_splits)
      next
        case (Some row)
        with assms Inr \<open>pos = Some q\<close> d1 same [OF d1] show ?thesis
          by (intro duplicate [OF \<open>pos = Some q\<close> _ Some])
            (auto simp: Archive_def commit_cases attempt_Inr Let_def split: sum.splits)
      qed
    qed
  qed
qed


lemma Archive_wf:
  assumes "db_wf d"
  shows "db_wf (snd (Archive sum256 io now p pos enqueue d))"
proof -
  obtain r d' where a: "Archive sum256 io now p pos enqueue d = (r, d')" by fastforce
  from a have "db_wf d'"
  proof (cases rule: Archive_cases)
    case (stored q d1 d2)
    then have "db_wf d2" using assms by (blast intro: insert_packet_wf insert_position_wf)
    with stored(5) show ?thesis by (auto split: if_splits intro: insert_delivery_wf)
  qed (use assms in \<open>auto intro: insert_packet_wf\<close>)
  with a show ?thesis by simp
qed

text \<open>With a well-formed database the only reasons to refuse are a NaN signal ratio and the range checks.\<close>

lemma Archive_succeeds:
  assumes "db_wf d" "pkSNR p \<noteq> NaN"
    and "\<And>q. pos = Some q \<Longrightarrow> between 90 (poLatitude q) \<and> between 180 (poLongitude q)"
  shows "\<not> isl (fst (Archive sum256 no_faults now p pos enqueue d))"
proof -
  let ?d1 = "d\<lparr>packet_seq := packet_seq d + 1, packets := packets d @ [packet_row_of (packet_seq d + 1) p]\<rparr>"
  have d1: "insert_packet p d = Inr ?d1" using assms(2) by (simp add: insert_packet_Inr)
  have wf1: "db_wf ?d1" using insert_packet_wf [OF assms(1) d1] .
  have fresh: "position_seq d + 1 \<notin> drPositionId ` set (deliveries d)"
    using assms(1) by (fastforce simp: db_wf_def ids_ok_def)
  have same: "position_of_key k ?d1 = position_of_key k d" for k
    by (simp add: position_of_key_def)
  show ?thesis
  proof (cases pos)
    case None
    with d1 show ?thesis by (simp add: Archive_def commit_def)
  next
    case (Some q)
    show ?thesis
    proof (cases "position_of_key (positionKey sum256 q) d")
      case None
      then have "positionKey sum256 q \<notin> trDedupeKey ` set (positions d)"
        by (simp add: position_of_key_None)
      with d1 fresh assms(3) [OF Some] Some None same show ?thesis
        by (auto simp: Archive_def commit_def Let_def insert_position_def insert_delivery_def)
    next
      case (Some row)
      with d1 \<open>pos = Some q\<close> same show ?thesis by (simp add: Archive_def commit_def Let_def)
    qed
  qed
qed

section \<open>Concrete inputs\<close>

definition sample_record :: "u32 \<Rightarrow> packet" where
  "sample_record node = \<lparr>pkFrom = node, pkTo = 0xffffffff, pkMeshPacketID = 7, pkChannel = 0, pkPort = 3,
     pkHopLimit = 3, pkHopStart = 3, pkRSSI = None, pkSNR = Fin (25 / 4), pkViaMQTT = False,
     pkPKIEncrypted = False, pkEncrypted = False, pkReceivedAt = 1700000000 * second,
     pkRadioRxTime = None, pkRawPacket = [1], pkRawPayload = [8], pkParseStatus = ''position'',
     pkParseError = []\<rparr>"

definition sample_fix :: "u32 \<Rightarrow> time \<Rightarrow> position" where
  "sample_fix node t = \<lparr>poPacketID = 0, poSourceNode = node, poMeshPacketID = 7, poSourcePort = 3,
     poCallsign = NodeID node, poDeviceCallsign = [], poLatitude = coordinate 398765432,
     poLongitude = coordinate (- 1041234567), poAltitude = None, poSpeed = None, poCourse = None,
     poLocationSource = [], poPrecisionBits = 32, poSourceTime = t, poReceivedAt = t\<rparr>"

lemma between_coordinate:
  assumes "\<bar>v\<bar> \<le> 2 ^ 31"
  shows "\<bar>v\<bar> \<le> 900000000 \<Longrightarrow> between 90 (coordinate v)"
    and "\<bar>v\<bar> \<le> 1800000000 \<Longrightarrow> between 180 (coordinate v)"
  using coord_val_le_iff [of "- 900000000" v] coord_val_le_iff [of v 900000000]
    coord_val_le_iff [of "- 1800000000" v] coord_val_le_iff [of v 1800000000] assms coord_val_bounds
  by (auto simp: between_def f64_le_def coordinate_val less_le)

lemma sample_fix_between:
  "between 90 (poLatitude (sample_fix node t)) \<and> between 180 (poLongitude (sample_fix node t))"
  by (simp add: sample_fix_def between_coordinate)

definition sample_hash :: "string \<Rightarrow> byte list" where
  "sample_hash s = map (\<lambda>c. of_nat (of_char c)) (take 8 s)"

section \<open>Properties\<close>

text \<open>
  C23: \<open>Archive\<close> is atomic and exact. When it reports an error (any statement, row id, or the commit
  failing) the database is unchanged. When it succeeds, exactly one packet row with the returned id
  was appended; without a position nothing else changed; a position whose key is stored already
  changed nothing else and returned the stored row's id; a new one was appended with the returned id,
  with exactly one pending delivery if enqueueing is on and none otherwise.
\<close>
theorem archive_atomic:
  "case Archive sum256 io now p pos enqueue d of
     (Inl e, d') \<Rightarrow> d' = d
   | (Inr (packetID, positionID, inserted), d') \<Rightarrow>
       packetID = packet_seq d + 1 \<and> packets d' = packets d @ [packet_row_of packetID p] \<and>
       nodes d' = nodes d \<and> tracks d' = tracks d \<and>
       (case pos of
          None \<Rightarrow> \<not> inserted \<and> positionID = 0 \<and> positions d' = positions d \<and> deliveries d' = deliveries d
        | Some q \<Rightarrow>
            if positionKey sum256 q \<in> trDedupeKey ` set (positions d)
            then \<not> inserted \<and> positions d' = positions d \<and> deliveries d' = deliveries d \<and>
              (\<exists>r \<in> set (positions d). trDedupeKey r = positionKey sum256 q \<and> trId r = positionID)
            else inserted \<and> positionID = position_seq d + 1 \<and>
              positions d' = positions d @ [position_row_of positionID packetID (positionKey sum256 q)
                (if poSourcePort q = 0 then pkPort p else poSourcePort q) q] \<and>
              deliveries d' = deliveries d @
                (if enqueue then [delivery_row_of (delivery_seq d + 1) positionID now] else []))"
proof -
  obtain r d' where a: "Archive sum256 io now p pos enqueue d = (r, d')" by fastforce
  from a show ?thesis
  proof (cases rule: Archive_cases)
    case (duplicate q row)
    then show ?thesis
      using position_of_key_Some [of _ d] a
      by (force simp: insert_packet_Inr)
  next
    case (stored q d1 d2)
    then show ?thesis
      using a by (auto simp: insert_packet_Inr insert_position_Inr insert_delivery_Inr position_of_key_None
          split: if_splits)
  qed (use a in \<open>auto simp: insert_packet_Inr\<close>)
qed

text \<open>
  Nothing but the radio's data or the driver makes \<open>Archive\<close> fail: on a well-formed database with
  no failing call, a packet whose signal-to-noise ratio is a number and whose position, if any, is in
  range is always stored.
\<close>
theorem archive_available:
  assumes "db_wf d" "pkSNR p \<noteq> NaN"
    and "case pos of None \<Rightarrow> True | Some q \<Rightarrow> between 90 (poLatitude q) \<and> between 180 (poLongitude q)"
  shows "\<exists>i j inserted. fst (Archive sum256 no_faults now p pos enqueue d) = Inr (i, j, inserted)"
proof -
  have "\<not> isl (fst (Archive sum256 no_faults now p pos enqueue d))"
    using assms by (intro Archive_succeeds) auto
  then show ?thesis by (cases "fst (Archive sum256 no_faults now p pos enqueue d)") auto
qed

theorem archive_available_witness:
  "\<exists>i j inserted. fst (Archive sample_hash no_faults 0 (sample_record 42) (Some (sample_fix 42 0)) True empty_db)
     = Inr (i, j, inserted)"
  by (rule archive_available) (simp_all add: db_wf_empty sample_record_def sample_fix_between)

text \<open>
  C40: A packet whose signal-to-noise ratio is NaN can never be archived: SQLite stores NaN as NULL and
  the column refuses it, so \<open>Archive\<close> fails with the database unchanged at every attempt.
\<close>
theorem archive_nan_refused:
  assumes "pkSNR p = NaN"
  shows "\<exists>e. Archive sum256 io now p pos enqueue d = (Inl e, d)"
proof -
  obtain r d' where a: "Archive sum256 io now p pos enqueue d = (r, d')" by fastforce
  then show ?thesis
    by (cases rule: Archive_cases) (use assms a in \<open>auto simp: insert_packet_Inr\<close>)
qed

theorem archive_nan_refused_witness:
  "\<exists>e. Archive sample_hash no_faults 0 ((sample_record 42)\<lparr>pkSNR := NaN\<rparr>) None True empty_db = (Inl e, empty_db)"
  by (rule archive_nan_refused) simp

end
