(* ===== verification/StoreKey.thy ===== *)
theory StoreKey
  imports StoreArchive
begin

text \<open>
  The deduplication key of \<open>store.positionKey\<close>: what two positions have in common when the text
  that is hashed is the same, and when their keys are.
\<close>

section \<open>Decimal texts are injective\<close>

definition dec_value :: "string \<Rightarrow> nat" where
  "dec_value s = foldl (\<lambda>a c. 10 * a + (of_char c - 48)) 0 s"

lemma dec_value_snoc: "n < 10 \<Longrightarrow> dec_value (s @ [digit_char n]) = 10 * dec_value s + n"
  by (simp add: dec_value_def)

lemma dec_value_dec_nat: "dec_value (dec_nat n) = n"
proof (induction n rule: dec_nat.induct)
  case (1 n)
  show ?case
  proof (cases "n < 10")
    case True
    then show ?thesis using dec_value_snoc [of n "[]"] by (simp add: dec_nat.simps [of n] dec_value_def)
  next
    case False
    then show ?thesis using 1 by (subst dec_nat.simps) (simp add: dec_value_snoc)
  qed
qed

lemma dec_nat_inj: "dec_nat m = dec_nat n \<longleftrightarrow> m = n"
  by (metis dec_value_dec_nat)

lemma set_dec_nat: "c \<in> set (dec_nat n) \<Longrightarrow> \<exists>k < 10. c = digit_char k"
proof (induction n rule: dec_nat.induct)
  case (1 n)
  then show ?case by (subst (asm) (2) dec_nat.simps) (auto split: if_splits intro: exI [where x = "n mod 10"])
qed

lemma set_dec_fixed: "c \<in> set (dec_fixed w n) \<Longrightarrow> \<exists>k < 10. c = digit_char k"
  by (induction w arbitrary: n) (auto intro: exI [where x = "n mod 10" for n])

lemma digit_char_range: "k < 10 \<Longrightarrow> digit_char k \<notin> {CHR '':'', CHR ''-'', CHR ''.''}"
proof -
  assume "k < 10"
  then have "k \<in> {0, 1, 2, 3, 4, 5, 6, 7, 8, 9}" by auto
  then show ?thesis by (auto simp: digit_char_def)
qed

lemma dec7_inj: "dec7 v = dec7 w \<longleftrightarrow> \<bar>v\<bar> = \<bar>w\<bar>"
proof
  assume "dec7 v = dec7 w"
  then have "dec_nat (nat (\<bar>v\<bar> div 10 ^ 7)) = dec_nat (nat (\<bar>w\<bar> div 10 ^ 7))"
    and "dec_fixed 7 (nat (\<bar>v\<bar> mod 10 ^ 7)) = dec_fixed 7 (nat (\<bar>w\<bar> mod 10 ^ 7))"
    by (simp_all add: dec7_def)
  then have "nat (\<bar>v\<bar> div 10 ^ 7) = nat (\<bar>w\<bar> div 10 ^ 7)" "nat (\<bar>v\<bar> mod 10 ^ 7) = nat (\<bar>w\<bar> mod 10 ^ 7)"
    by (auto simp: dec_nat_inj dec_fixed_eq_iff nat_less_iff)
  then have "\<bar>v\<bar> div 10 ^ 7 = \<bar>w\<bar> div 10 ^ 7" "\<bar>v\<bar> mod 10 ^ 7 = \<bar>w\<bar> mod 10 ^ 7"
    by (simp_all add: pos_imp_zdiv_nonneg_iff eq_nat_nat_iff)
  then show "\<bar>v\<bar> = \<bar>w\<bar>" by (metis mult_div_mod_eq)
next
  assume "\<bar>v\<bar> = \<bar>w\<bar>"
  then show "dec7 v = dec7 w" by (simp add: dec7_def)
qed

lemma set_dec7: "c \<in> set (dec7 v) \<Longrightarrow> c \<notin> {CHR '':'', CHR ''-''}"
  using set_dec_nat set_dec_fixed digit_char_range by (fastforce simp: dec7_def)

lemma coordinate_text_inj:
  assumes "\<bar>v\<bar> \<le> 2 ^ 31" "\<bar>w\<bar> \<le> 2 ^ 31"
  shows "fmt_fixed7 (coordinate v) = fmt_fixed7 (coordinate w) \<longleftrightarrow> v = w"
proof
  assume eq: "fmt_fixed7 (coordinate v) = fmt_fixed7 (coordinate w)"
  have sign: "CHR ''-'' \<in> set (fmt_fixed7 (coordinate x)) \<longleftrightarrow> x < 0" if "\<bar>x\<bar> \<le> 2 ^ 31" for x
    using set_dec7 [of "CHR ''-''" x] by (auto simp: fmt_fixed7_coordinate [OF that])
  have "v < 0 \<longleftrightarrow> w < 0" using eq sign assms by metis
  moreover from this eq have "dec7 v = dec7 w"
    using assms by (auto simp: fmt_fixed7_coordinate split: if_splits)
  then have "\<bar>v\<bar> = \<bar>w\<bar>" by (simp add: dec7_inj)
  ultimately show "v = w" by linarith
qed simp

lemma colon_coordinate: "\<bar>v\<bar> \<le> 2 ^ 31 \<Longrightarrow> CHR '':'' \<notin> set (fmt_fixed7 (coordinate v))"
  using set_dec7 [of "CHR '':''" v] by (auto simp: fmt_fixed7_coordinate)

lemma split_sep: "c \<notin> set xs \<Longrightarrow> c \<notin> set ys \<Longrightarrow> xs @ c # as = ys @ c # bs \<longleftrightarrow> xs = ys \<and> as = bs"
  by (induction xs arbitrary: ys) (case_tac ys; auto)+

lemma hex_node_inj: "hex_fixed 8 (unat a) = hex_fixed 8 (unat (b :: u32)) \<longleftrightarrow> a = b"
  using NodeID_inj [of a b] by (simp add: NodeID_hex)

lemma formatTime_inj:
  "four_digit_year t \<Longrightarrow> four_digit_year u \<Longrightarrow> formatTime t = formatTime u \<longleftrightarrow> t = u"
  unfolding formatTime_def by (metis rfc3339_roundtrip option.inject)

section \<open>The hashed text\<close>

definition coords_of :: "int \<Rightarrow> int \<Rightarrow> position \<Rightarrow> bool" where
  "coords_of la lo p \<longleftrightarrow> \<bar>la\<bar> \<le> 2 ^ 31 \<and> \<bar>lo\<bar> \<le> 2 ^ 31 \<and>
     poLatitude p = coordinate la \<and> poLongitude p = coordinate lo \<and> four_digit_year (poSourceTime p)"

lemma key_text_inj:
  assumes "coords_of la lo p" "coords_of la' lo' q"
  shows "key_text p = key_text q \<longleftrightarrow>
     poSourceNode p = poSourceNode q \<and> la = la' \<and> lo = lo' \<and> poSourceTime p = poSourceTime q"
proof -
  note c = assms [unfolded coords_of_def]
  have "key_text p = key_text q \<longleftrightarrow>
      hex_fixed 8 (unat (poSourceNode p)) = hex_fixed 8 (unat (poSourceNode q)) \<and>
      fmt_fixed7 (coordinate la) @ CHR '':'' # fmt_fixed7 (coordinate lo) @ CHR '':'' # formatTime (poSourceTime p) =
      fmt_fixed7 (coordinate la') @ CHR '':'' # fmt_fixed7 (coordinate lo') @ CHR '':'' # formatTime (poSourceTime q)"
    using c by (simp add: key_text_def)
  then show ?thesis
    using c by (simp add: split_sep colon_coordinate coordinate_text_inj hex_node_inj formatTime_inj)
qed

section \<open>The key\<close>

lemma hex_byte_inj: "hex_fixed 2 (unat a) = hex_fixed 2 (unat (b :: byte)) \<longleftrightarrow> a = b"
proof
  assume h: "hex_fixed 2 (unat a) = hex_fixed 2 (unat b)"
  have "unat a < 2 ^ LENGTH(8)" "unat b < 2 ^ LENGTH(8)" by (rule unsigned_less)+
  then have "unat a < 16 ^ 2" "unat b < 16 ^ 2" by simp_all
  from hex_fixed_inj [OF this h] show "a = b" by (simp only: word_unat_eq_iff)
qed simp

lemma hex_bytes_inj:
  "concat (map (\<lambda>b :: byte. hex_fixed 2 (unat b)) xs) = concat (map (\<lambda>b. hex_fixed 2 (unat b)) ys)
    \<longleftrightarrow> xs = ys"
proof (induction xs arbitrary: ys)
  case Nil
  have "concat (map (\<lambda>b :: byte. hex_fixed 2 (unat b)) ys) \<noteq> []" if "ys \<noteq> []" for ys
    using that length_hex_fixed [of 2] by (cases ys) (auto simp flip: length_greater_0_conv simp: add_pos_nonneg)
  then show ?case by (cases "ys = []") auto
next
  case (Cons x xs)
  show ?case
  proof (cases ys)
    case Nil
    then show ?thesis using length_hex_fixed [of 2 "unat x"] by (auto simp flip: length_0_conv)
  next
    case (Cons y ys')
    then show ?thesis by (simp del: hex_fixed.simps add: hex_byte_inj Cons.IH append_eq_append_conv)
  qed
qed

lemma positionKey_eq: "positionKey sum256 p = positionKey sum256 q \<longleftrightarrow> sum256 (key_text p) = sum256 (key_text q)"
  by (simp add: positionKey_def hex_bytes_inj)

text \<open>
  C33: The deduplication key identifies the observation: for coordinates as the decoder makes them and
  times in years 0 to 9999, two positions get the same key exactly when they have the same node, the
  same integer coordinates and the same source time (to the nanosecond), provided SHA-256 does not
  collide on their two texts. The mesh packet id, the port, the callsign and the time of receipt do
  not enter.
\<close>
theorem dedupe_key_identifies:
  assumes "coords_of la lo p" "coords_of la' lo' q"
    and "sum256 (key_text p) = sum256 (key_text q) \<longrightarrow> key_text p = key_text q"
  shows "positionKey sum256 p = positionKey sum256 q \<longleftrightarrow>
     poSourceNode p = poSourceNode q \<and> la = la' \<and> lo = lo' \<and> poSourceTime p = poSourceTime q"
  using assms(3) key_text_inj [OF assms(1,2)] by (auto simp: positionKey_eq)

lemma sample_fix_coords: "coords_of 398765432 (- 1041234567) (sample_fix node 0)"
  by (simp add: coords_of_def sample_fix_def four_digit_year_def year_at_def second_def unix_epoch_days_def
      year_of_def days_before_year_def Let_def)

text \<open>Two nodes at the same place and time get different keys.\<close>
theorem dedupe_key_identifies_witness:
  "positionKey sample_hash (sample_fix 1 0) \<noteq> positionKey sample_hash (sample_fix 2 0)"
proof -
  have "hex_fixed 8 1 = ''00000001''" "hex_fixed 8 2 = ''00000002''" by code_simp+
  then have "sample_hash (key_text (sample_fix 1 0)) \<noteq> sample_hash (key_text (sample_fix 2 0))"
    by (simp add: sample_hash_def key_text_def sample_fix_def of_char_def)
  then show ?thesis
    using dedupe_key_identifies [OF sample_fix_coords [of 1] sample_fix_coords [of 2], of sample_hash]
    by (simp add: sample_fix_def)
qed

end
