(* ===== verification/StoreQueue.thy ===== *)
theory StoreQueue
  imports StoreArchive
begin

text \<open>
  The delivery queue of \<^verbatim>\<open>store.go\<close>: what \<open>PendingDeliveries\<close> selects, in terms of an abstract queue
  per node whose head is the pending delivery with the least key; that the queue never blocks; and
  where the text order of the stored times is not the order of the times.
\<close>

section \<open>The abstract queue\<close>

definition queue_key :: "delivery_row \<times> position_row \<Rightarrow> string \<times> int" where
  "queue_key x = (trSourceTime (snd x), drId (fst x))"

definition node_of :: "delivery_row \<times> position_row \<Rightarrow> u32" where
  "node_of x = trSourceNode (snd x)"

text \<open>The pending deliveries of a node, and its head.\<close>

definition queued :: "db \<Rightarrow> u32 \<Rightarrow> (delivery_row \<times> position_row) set" where
  "queued d u = {x \<in> set (joined d). drState (fst x) = Pending \<and> node_of x = u}"

definition is_head :: "db \<Rightarrow> delivery_row \<times> position_row \<Rightarrow> bool" where
  "is_head d x \<longleftrightarrow> x \<in> queued d (node_of x) \<and> (\<forall>y \<in> queued d (node_of x). queue_key x \<le> queue_key y)"

definition due :: "time \<Rightarrow> delivery_row \<times> position_row \<Rightarrow> bool" where
  "due now x \<longleftrightarrow> drNextAttemptAt (fst x) \<le> formatTime now"

lemma earlier_iff:
  "earlier y x \<longleftrightarrow> drState (fst y) = Pending \<and> node_of y = node_of x \<and> queue_key y < queue_key x"
  by (cases x; cases y) (auto simp: earlier_def node_of_def queue_key_def)

lemma eligible_iff:
  "x \<in> set (joined d) \<Longrightarrow> eligible now d x \<longleftrightarrow> is_head d x \<and> due now x"
  by (auto simp: eligible_def is_head_def queued_def due_def earlier_iff not_less)

lemma joined_iff:
  "(r, p) \<in> set (joined d) \<longleftrightarrow> r \<in> set (deliveries d) \<and> p \<in> set (positions d) \<and> trId p = drPositionId r"
  by (auto simp: joined_def)

text \<open>Under the invariant a delivery occurs once in the join, with its position.\<close>

lemma joined_id_inj:
  assumes "db_wf d" "x \<in> set (joined d)" "y \<in> set (joined d)" "drId (fst x) = drId (fst y)"
  shows "x = y"
proof -
  have "inj_on drId (set (deliveries d))" "inj_on trId (set (positions d))"
    using assms(1) by (simp_all add: db_wf_def ids_ok_def distinct_map)
  moreover obtain r p r' p' where "x = (r, p)" "y = (r', p')" by (cases x, cases y)
  ultimately show ?thesis
    using assms(2-4) by (auto simp: joined_iff) (metis inj_onD)+
qed

lemma distinct_concat_map:
  assumes "distinct rs" "\<And>r. r \<in> set rs \<Longrightarrow> length (f r) \<le> 1" "\<And>r x. x \<in> set (f r) \<Longrightarrow> fst x = r"
  shows "distinct (concat (map f rs))"
  using assms(1,2)
proof (induction rs)
  case (Cons r rs)
  have "distinct (f r)" using Cons.prems(2) [of r] by (cases "f r") auto
  moreover have "set (f r) \<inter> set (concat (map f rs)) = {}" using Cons.prems(1) assms(3) by auto metis
  ultimately show ?case using Cons by simp
qed simp

lemma concat_map_if: "concat (map (\<lambda>p. if P p then [f p] else []) ps) = map f (filter P ps)"
  by (induction ps) auto

lemma distinct_joined:
  assumes "db_wf d"
  shows "distinct (joined d)"
proof -
  have inj: "distinct (positions d)" "inj_on trId (set (positions d))" and "distinct (deliveries d)"
    using assms by (auto simp: db_wf_def ids_ok_def distinct_map)
  have eq: "joined d = concat (map (\<lambda>r. map (Pair r) (filter (\<lambda>p. trId p = drPositionId r) (positions d))) (deliveries d))"
    unfolding joined_def
    by (intro arg_cong [where f = concat] map_cong refl) (simp add: concat_map_if)
  have "length (filter (\<lambda>p. trId p = drPositionId r) (positions d)) \<le> 1" for r
    using inj by (intro distinct_map_filter_le1) (auto, metis inj_onD)
  then show ?thesis unfolding eq
    by (intro distinct_concat_map) (use \<open>distinct (deliveries d)\<close> in auto)
qed

lemma is_head_unique:
  assumes "db_wf d" "is_head d x" "is_head d y" "node_of x = node_of y"
  shows "x = y"
proof -
  from assms(2-4) have "queue_key x = queue_key y" by (auto simp: is_head_def intro: antisym)
  with assms joined_id_inj [of d x y] show ?thesis by (simp add: is_head_def queued_def queue_key_def)
qed

lemma is_head_exists:
  assumes "x \<in> queued d u"
  shows "\<exists>h. is_head d h \<and> node_of h = u"
proof -
  have fin: "finite (queued d u)" by (simp add: queued_def)
  with assms obtain h where "h \<in> queued d u" "\<And>y. y \<in> queued d u \<Longrightarrow> queue_key h \<le> queue_key y"
    using ex_min_if_finite [of "queue_key ` queued d u"] by (force simp: not_less)
  moreover from this have "node_of h = u" by (simp add: queued_def)
  ultimately have "is_head d h \<and> node_of h = u" by (simp add: is_head_def)
  then show ?thesis by blast
qed

section \<open>The selected rows\<close>

lemma set_limit_rows: "set (limit_rows n xs) \<subseteq> set xs"
  by (auto simp: limit_rows_def dest: in_set_takeD)

lemma sorted_limit_rows: "sorted (map f xs) \<Longrightarrow> sorted (map f (limit_rows n xs))"
  by (auto simp: limit_rows_def take_map [symmetric] intro: sorted_wrt_take)

lemma distinct_limit_rows: "distinct xs \<Longrightarrow> distinct (limit_rows n xs)"
  by (auto simp: limit_rows_def)

lemma pending_rows_member: "x \<in> set (pending_rows now n d) \<Longrightarrow> is_head d x \<and> due now x \<and> x \<in> set (joined d)"
  using set_limit_rows by (fastforce simp: pending_rows_def eligible_iff)

lemma key_lambda: "(\<lambda>(r, p). (trSourceTime p, drId r)) = queue_key"
  by (auto simp: queue_key_def)

lemma sorted_pending_rows: "sorted (map queue_key (pending_rows now n d))"
  by (simp add: pending_rows_def key_lambda sorted_limit_rows)

lemma distinct_pending_rows: "db_wf d \<Longrightarrow> distinct (map node_of (pending_rows now n d))"
proof -
  assume wf: "db_wf d"
  have "distinct (pending_rows now n d)"
    using distinct_joined [OF wf] by (simp add: pending_rows_def distinct_limit_rows)
  then show ?thesis
    using is_head_unique [OF wf] pending_rows_member by (auto simp: distinct_map inj_on_def)
qed

lemma pending_rows_all:
  assumes "is_head d x" "due now x" "n < 0"
  shows "x \<in> set (pending_rows now n d)"
  using assms by (auto simp: pending_rows_def limit_rows_def eligible_iff is_head_def queued_def)

lemma pending_rows_empty:
  assumes "pending_rows now n d = []" "0 < n"
  shows "\<not> (is_head d x \<and> due now x)"
proof
  assume h: "is_head d x \<and> due now x"
  then have x: "x \<in> set (filter (eligible now d) (joined d))"
    by (auto simp: eligible_iff is_head_def queued_def)
  have "filter (eligible now d) (joined d) = []"
    using assms by (simp add: pending_rows_def limit_rows_def take_eq_Nil flip: length_0_conv)
  with x show False by simp
qed

section \<open>Reading the rows back\<close>

definition rows_scanned :: "faults \<Rightarrow> nat \<Rightarrow> nat \<Rightarrow> bool" where
  "rows_scanned io n k \<longleftrightarrow> (\<forall>i \<in> {n..<n + k}. io (Scan_Row i) = None)"

lemma rows_scanned_0 [simp]: "rows_scanned io n 0"
  by (simp add: rows_scanned_def)

lemma rows_scanned_Suc: "rows_scanned io n (Suc k) \<longleftrightarrow> io (Scan_Row n) = None \<and> rows_scanned io (Suc n) k"
proof -
  have "{n..<n + Suc k} = insert n {Suc n..<Suc n + k}" by auto
  then show ?thesis unfolding rows_scanned_def by simp
qed

lemma rows_scanned_ok [simp]: "rows_scanned no_faults n k"
  by (simp add: rows_scanned_def)

lemma scan_all_Inr:
  "scan_all io what n f xs = Inr ys \<longleftrightarrow>
     rows_scanned io n (length xs) \<and> list_all2 (\<lambda>x y. f x = Inr y) xs ys"
proof (induction xs arbitrary: n ys)
  case (Cons x xs)
  have "scan_all io what n f (x # xs) = Inr ys \<longleftrightarrow> io (Scan_Row n) = None \<and>
      (\<exists>z zs. ys = z # zs \<and> f x = Inr z \<and> scan_all io what (Suc n) f xs = Inr zs)"
    by (auto simp: attempt_def split: option.splits sum.splits)
  then show ?case by (auto simp: rows_scanned_Suc list_all2_Cons1 Cons.IH)
qed auto

lemma scan_all_ok:
  "(\<And>x. x \<in> set xs \<Longrightarrow> \<exists>y. f x = Inr y) \<Longrightarrow> \<exists>ys. scan_all no_faults what n f xs = Inr ys"
proof (induction xs arbitrary: n)
  case (Cons x xs)
  then obtain y ys where "f x = Inr y" "scan_all no_faults what (Suc n) f xs = Inr ys"
    by (meson list.set_intros)
  then show ?case by (simp add: attempt_def)
qed simp

lemma scan_position_fields:
  assumes "scan_position r = Inr p"
  shows "poSourceNode p = trSourceNode r" "poCallsign p = trCallsign r" "poPacketID p = trId r"
    "poLatitude p = trLatitude r" "poLongitude p = trLongitude r"
    "time_text (trSourceTime r) \<Longrightarrow> formatTime (poSourceTime p) = trSourceTime r"
  using assms by (auto simp: scan_position_def parseTime_def time_text_def split: sum.splits option.splits)

lemma scan_position_ok:
  "time_text (trSourceTime r) \<Longrightarrow> time_text (trReceivedAt r) \<Longrightarrow> \<exists>p. scan_position r = Inr p"
  by (auto simp: scan_position_def parseTime_def time_text_def split: option.splits)

lemma scan_delivery_Inr:
  "scan_delivery x = Inr v \<longleftrightarrow>
     (\<exists>p. scan_position (snd x) = Inr p \<and> v = \<lparr>dvID = drId (fst x), dvPosition = p, dvAttempts = drAttempts (fst x)\<rparr>)"
  by (auto simp: scan_delivery_def split: sum.splits)

lemma PendingDeliveries_Inr:
  "PendingDeliveries io now n d = Inr ds \<longleftrightarrow>
     io Query = None \<and> io Iterate = None \<and> rows_scanned io 0 (length (pending_rows now n d)) \<and>
     list_all2 (\<lambda>x v. scan_delivery x = Inr v) (pending_rows now n d) ds"
proof -
  have "PendingDeliveries io now n d = Inr ds \<longleftrightarrow> io Query = None \<and> io Iterate = None \<and>
      scan_all io ''scan pending CalTopo delivery'' 0 scan_delivery (pending_rows now n d) = Inr ds"
    by (auto simp: PendingDeliveries_def attempt_def split: option.splits sum.splits)
  then show ?thesis by (simp add: scan_all_Inr)
qed

lemma scanned_maps:
  assumes "list_all2 (\<lambda>x v. scan_delivery x = Inr v) xs ds"
  shows "map (\<lambda>v. poSourceNode (dvPosition v)) ds = map node_of xs"
    and "map dvID ds = map (\<lambda>x. drId (fst x)) xs"
  using assms
  by (induction rule: list_all2_induct) (auto simp: scan_delivery_Inr node_of_def scan_position_fields)

lemma scanned_keys:
  assumes "list_all2 (\<lambda>x v. scan_delivery x = Inr v) xs ds" "\<forall>x \<in> set xs. time_text (trSourceTime (snd x))"
  shows "map (\<lambda>v. (formatTime (poSourceTime (dvPosition v)), dvID v)) ds = map queue_key xs"
  using assms
  by (induction rule: list_all2_induct) (auto simp: scan_delivery_Inr queue_key_def scan_position_fields)

lemma list_all2_member2: "list_all2 P xs ys \<Longrightarrow> y \<in> set ys \<Longrightarrow> \<exists>x \<in> set xs. P x y"
  by (induction rule: list_all2_induct) auto

lemma joined_times:
  "times_ok d \<Longrightarrow> x \<in> set (joined d) \<Longrightarrow> time_text (trSourceTime (snd x)) \<and> time_text (trReceivedAt (snd x))"
  by (cases x) (auto simp: times_ok_def joined_iff)

lemma PendingDeliveries_ok:
  assumes "times_ok d"
  shows "\<exists>ds. PendingDeliveries no_faults now n d = Inr ds"
proof -
  have "\<exists>ds. scan_all no_faults ''scan pending CalTopo delivery'' 0 scan_delivery (pending_rows now n d) = Inr ds"
    using joined_times [OF assms] pending_rows_member scan_position_ok
    by (intro scan_all_ok) (metis scan_delivery_Inr)
  then show ?thesis by (auto simp: PendingDeliveries_Inr scan_all_Inr)
qed

section \<open>Text order and time order\<close>

lemma formatTime_le_iff:
  assumes "four_digit_year t" "four_digit_year u"
    and "t div second \<noteq> u div second \<or> (t mod second = 0 \<and> u mod second = 0)"
  shows "formatTime t \<le> formatTime u \<longleftrightarrow> t \<le> u"
proof (cases "t div second = u div second")
  case True
  with assms(3) have "t = u" by (metis mult_div_mod_eq)
  then show ?thesis by simp
next
  case False
  then show ?thesis
    using rfc3339_order [OF assms(2,1)] by (auto simp: formatTime_def not_less [symmetric])
qed

section \<open>Updating a delivery\<close>

lemma joined_update:
  assumes "\<And>r. drPositionId (f r) = drPositionId r"
  shows "joined (update_deliveries i f d) =
    map (\<lambda>(r, p). (if drId r = i \<and> drState r = Pending then f r else r, p)) (joined d)"
proof -
  have "drPositionId (if drId r = i \<and> drState r = Pending then f r else r) = drPositionId r" for r
    using assms by simp
  then show ?thesis
    by (simp add: joined_def update_deliveries_def map_concat o_def if_distrib [of "map _"] cong: if_cong)
qed

lemma update_deliveries_wf:
  assumes "\<And>r. drId (f r) = drId r" "\<And>r. drPositionId (f r) = drPositionId r" "db_wf d"
  shows "db_wf (update_deliveries i f d)"
proof -
  define h where "h = (\<lambda>r. if drId r = i \<and> drState r = Pending then f r else r)"
  have h: "drId (h r) = drId r" "drPositionId (h r) = drPositionId r" for r
    using assms(1,2) by (simp_all add: h_def)
  have "update_deliveries i f d = d\<lparr>deliveries := map h (deliveries d)\<rparr>"
    by (simp add: update_deliveries_def h_def)
  then show ?thesis using assms(3) by (simp add: db_wf_def o_def h image_image)
qed

lemma update_pending_ok:
  "update_pending no_faults what i f d =
     (requireChanged (matching_deliveries i d) ''pending CalTopo delivery'', update_deliveries i f d)"
  by (simp add: update_pending_def)

lemma matching_one:
  assumes "db_wf d" "r \<in> set (deliveries d)" "drState r = Pending"
  shows "matching_deliveries (drId r) d = 1"
proof -
  have d: "distinct (deliveries d)" "inj_on drId (set (deliveries d))"
    using assms(1) by (auto simp: db_wf_def ids_ok_def distinct_map)
  have "length (filter (\<lambda>s. drId s = drId r \<and> drState s = Pending) (deliveries d)) \<le> 1"
    using d by (intro distinct_map_filter_le1) (auto, metis inj_onD)
  moreover have "r \<in> set (filter (\<lambda>s. drId s = drId r \<and> drState s = Pending) (deliveries d))"
    using assms by simp
  then have "0 < length (filter (\<lambda>s. drId s = drId r \<and> drState s = Pending) (deliveries d))"
    by (rule length_pos_if_in_set)
  ultimately have "length (filter (\<lambda>s. drId s = drId r \<and> drState s = Pending) (deliveries d)) = 1" by linarith
  then show ?thesis unfolding matching_deliveries_def by simp
qed

lemma matching_none:
  "(\<And>r. r \<in> set (deliveries d) \<Longrightarrow> drId r = i \<Longrightarrow> drState r \<noteq> Pending) \<Longrightarrow> matching_deliveries i d = 0"
  by (auto simp: matching_deliveries_def filter_empty_conv)

section \<open>A concrete queue\<close>

text \<open>Two positions of node 42 at times \<open>t\<close> and \<open>u\<close>, both pending since time 0.\<close>

definition sample_queue :: "time \<Rightarrow> time \<Rightarrow> db" where
  "sample_queue t u = \<lparr>packets = [packet_row_of 1 (sample_record 42)], nodes = [],
     positions = [position_row_of 1 1 ''a'' 3 (sample_fix 42 t), position_row_of 2 1 ''b'' 3 (sample_fix 42 u)],
     tracks = [], deliveries = [delivery_row_of 1 1 0, delivery_row_of 2 2 0],
     packet_seq = 1, position_seq = 2, delivery_seq = 2\<rparr>"

lemma sample_queue_wf: "db_wf (sample_queue t u)"
  using sample_fix_between
  by (simp add: db_wf_def sample_queue_def ids_ok_def position_row_of_def packet_row_of_def sample_record_def)

lemma sample_queue_joined:
  "joined (sample_queue t u) =
     [(delivery_row_of 1 1 0, position_row_of 1 1 ''a'' 3 (sample_fix 42 t)),
      (delivery_row_of 2 2 0, position_row_of 2 1 ''b'' 3 (sample_fix 42 u))]"
  by (simp add: joined_def sample_queue_def)

lemma sample_queue_times:
  assumes "0 \<le> t" "t < 253402300800 * second" "0 \<le> u" "u < 253402300800 * second"
  shows "times_ok (sample_queue t u)"
  using assms
  by (simp add: times_ok_def sample_queue_def position_row_of_def sample_fix_def four_digit_yearI)

abbreviation sample_x :: "time \<Rightarrow> delivery_row \<times> position_row" where
  "sample_x t \<equiv> (delivery_row_of 1 1 0, position_row_of 1 1 ''a'' 3 (sample_fix 42 t))"

abbreviation sample_y :: "time \<Rightarrow> delivery_row \<times> position_row" where
  "sample_y u \<equiv> (delivery_row_of 2 2 0, position_row_of 2 1 ''b'' 3 (sample_fix 42 u))"

lemma sample_queued: "queued (sample_queue t u) 42 = {sample_x t, sample_y u}"
  by (auto simp: queued_def sample_queue_joined node_of_def position_row_of_def delivery_row_of_def sample_fix_def)

lemma sample_node: "node_of (sample_x t) = 42" "node_of (sample_y t) = 42"
  by (simp_all add: node_of_def position_row_of_def sample_fix_def)

lemma sample_head:
  assumes "t div second < u div second" "four_digit_year t" "four_digit_year u"
  shows "is_head (sample_queue t u) (sample_x t)"
  using rfc3339_less_seconds [OF assms(2,3,1)]
  by (simp add: is_head_def sample_node sample_queued)
    (simp add: queue_key_def position_row_of_def sample_fix_def formatTime_def)

section \<open>Properties\<close>

text \<open>
  C14: \<open>PendingDeliveries\<close> keeps the order per node: it returns at most one delivery per node, each the
  head of that node's queue (no pending delivery of the node has an earlier source time as stored, or
  the same with a smaller id) and each due; at most the limit.
\<close>
theorem pending_heads_only:
  assumes "db_wf d" "PendingDeliveries io now n d = Inr ds"
  shows "distinct (map (\<lambda>v. poSourceNode (dvPosition v)) ds) \<and> (n < 0 \<or> int (length ds) \<le> n) \<and>
    (\<forall>v \<in> set ds. \<exists>x. is_head d x \<and> due now x \<and> dvID v = drId (fst x) \<and>
       poSourceNode (dvPosition v) = node_of x)"
proof -
  from assms(2) have l: "list_all2 (\<lambda>x v. scan_delivery x = Inr v) (pending_rows now n d) ds"
    by (simp add: PendingDeliveries_Inr)
  have "distinct (map (\<lambda>v. poSourceNode (dvPosition v)) ds)"
    using distinct_pending_rows [OF assms(1)] by (simp add: scanned_maps [OF l])
  moreover have "n < 0 \<or> int (length ds) \<le> n"
    using list_all2_lengthD [OF l, symmetric] by (auto simp: pending_rows_def limit_rows_def)
  moreover have "\<exists>x. is_head d x \<and> due now x \<and> dvID v = drId (fst x) \<and> poSourceNode (dvPosition v) = node_of x"
    if "v \<in> set ds" for v
    using list_all2_member2 [OF l that] pending_rows_member
    by (force simp: scan_delivery_Inr node_of_def scan_position_fields)
  ultimately show ?thesis by blast
qed

theorem pending_heads_only_witness:
  "\<exists>ds. PendingDeliveries no_faults 0 50 (sample_queue 0 second) = Inr ds \<and>
     distinct (map (\<lambda>v. poSourceNode (dvPosition v)) ds)"
proof -
  obtain ds where ds: "PendingDeliveries no_faults 0 50 (sample_queue 0 second) = Inr ds"
    using PendingDeliveries_ok [OF sample_queue_times [of 0 second]] by (auto simp: second_def)
  with pending_heads_only [OF sample_queue_wf ds] show ?thesis by blast
qed

text \<open>
  No head is passed over: when the answer is shorter than the limit (or the limit negative), every
  due head of a node's queue is in it.
\<close>
theorem pending_complete:
  assumes "PendingDeliveries io now n d = Inr ds" "n < 0 \<or> int (length ds) < n"
    and "is_head d x" "due now x"
  shows "drId (fst x) \<in> dvID ` set ds"
proof -
  from assms(1) have l: "list_all2 (\<lambda>x v. scan_delivery x = Inr v) (pending_rows now n d) ds"
    by (simp add: PendingDeliveries_Inr)
  have "x \<in> set (filter (eligible now d) (joined d))"
    using assms(3,4) by (auto simp: eligible_iff is_head_def queued_def)
  moreover have "set (pending_rows now n d) = set (filter (eligible now d) (joined d))"
    using assms(2) list_all2_lengthD [OF l] by (auto simp: pending_rows_def limit_rows_def)
  ultimately have "drId (fst x) \<in> set (map (\<lambda>x. drId (fst x)) (pending_rows now n d))" by simp
  then show ?thesis by (simp add: scanned_maps(2) [OF l, symmetric])
qed

theorem pending_complete_witness:
  "\<exists>ds. PendingDeliveries no_faults 0 (- 1) (sample_queue 0 second) = Inr ds \<and> 1 \<in> dvID ` set ds"
proof -
  obtain ds where ds: "PendingDeliveries no_faults 0 (- 1) (sample_queue 0 second) = Inr ds"
    using PendingDeliveries_ok [OF sample_queue_times [of 0 second]] by (auto simp: second_def)
  have "is_head (sample_queue 0 second) (sample_x 0)"
    by (rule sample_head) (simp_all add: second_def four_digit_yearI)
  moreover have "due 0 (sample_x 0)" by (simp add: due_def delivery_row_of_def)
  ultimately have "drId (fst (sample_x 0)) \<in> dvID ` set ds"
    by (intro pending_complete [OF ds]) simp_all
  with ds show ?thesis by auto
qed

text \<open>
  The queue never blocks: while a delivery is pending and every pending delivery has reached its
  next attempt time, \<open>PendingDeliveries\<close> with a positive limit returns at least one.
\<close>
theorem pending_progress:
  assumes "times_ok d" "0 < n" "x \<in> queued d u" 
    and "\<forall>y \<in> set (joined d). drState (fst y) = Pending \<longrightarrow> due now y"
  shows "\<exists>v ds. PendingDeliveries no_faults now n d = Inr (v # ds)"
proof -
  obtain ds where ds: "PendingDeliveries no_faults now n d = Inr ds"
    using PendingDeliveries_ok [OF assms(1)] by blast
  obtain h where "is_head d h" using is_head_exists [OF assms(3)] by blast
  moreover from this have "due now h" using assms(4) by (auto simp: is_head_def queued_def)
  ultimately have "pending_rows now n d \<noteq> []" using pending_rows_empty [OF _ assms(2)] by blast
  with ds show ?thesis by (cases ds) (auto simp: PendingDeliveries_Inr)
qed

theorem pending_progress_witness:
  "\<exists>v ds. PendingDeliveries no_faults 0 50 (sample_queue 0 second) = Inr (v # ds)"
proof (rule pending_progress)
  show "times_ok (sample_queue 0 second)" by (rule sample_queue_times) (simp_all add: second_def)
  show "sample_x 0 \<in> queued (sample_queue 0 second) 42" by (simp add: sample_queued)
  show "\<forall>y \<in> set (joined (sample_queue 0 second)). drState (fst y) = Pending \<longrightarrow> due 0 y"
    by (simp add: sample_queue_joined due_def delivery_row_of_def)
qed simp

text \<open>
  Among fixes whose times are whole seconds (every time a radio reports), or lie in different
  seconds, the queue order is the order of the fixes: the head of a node's queue is at least as old as
  every other pending position of the node.
\<close>
theorem queue_order_seconds:
  assumes "is_head d x" "y \<in> queued d (node_of x)"
    and "trSourceTime (snd x) = formatTime t" "trSourceTime (snd y) = formatTime s"
    and "four_digit_year t" "four_digit_year s"
    and "t div second \<noteq> s div second \<or> (t mod second = 0 \<and> s mod second = 0)"
  shows "t \<le> s"
proof -
  have "queue_key x \<le> queue_key y" using assms(1,2) by (simp add: is_head_def)
  then have "formatTime t \<le> formatTime s" using assms(3,4) by (auto simp: queue_key_def)
  then show ?thesis using formatTime_le_iff [OF assms(5,6,7)] by simp
qed

theorem queue_order_seconds_witness:
  "is_head (sample_queue 0 second) (sample_x 0) \<and> 0 \<le> second"
proof -
  have h: "is_head (sample_queue 0 second) (sample_x 0)"
    by (rule sample_head) (simp_all add: second_def four_digit_yearI)
  have y: "sample_y second \<in> queued (sample_queue 0 second) (node_of (sample_x 0))"
    by (simp only: sample_node sample_queued) simp
  have "0 \<le> second"
    by (rule queue_order_seconds [OF h y])
      (simp_all add: position_row_of_def sample_fix_def four_digit_yearI, simp_all add: second_def four_digit_yearI)
  with h show ?thesis by simp
qed

text \<open>
  C37: Within one second the order is wrong: the stored text of a whole second is larger than the text
  of any later instant of the same second, so of two pending positions of a node, one at a whole second
  and one a fraction after it, the older is held back until the newer is delivered.
\<close>
theorem subsecond_inversion:
  assumes "x \<in> queued d u" "y \<in> queued d u" "db_wf d"
    and "trSourceTime (snd x) = formatTime t" "trSourceTime (snd y) = formatTime (t + n)"
    and "t mod second = 0" "0 < n" "n < second"
    and "PendingDeliveries io now k d = Inr ds"
  shows "drId (fst x) \<notin> dvID ` set ds"
proof
  assume "drId (fst x) \<in> dvID ` set ds"
  with assms(9) obtain z where z: "z \<in> set (pending_rows now k d)" "drId (fst z) = drId (fst x)"
    by (auto simp: PendingDeliveries_Inr scan_delivery_Inr dest!: list_all2_member2)
  then have "is_head d z" "z = x"
    using pending_rows_member [OF z(1)] joined_id_inj [OF assms(3), of z x] assms(1)
    by (auto simp: queued_def)
  then have "queue_key x \<le> queue_key y" using assms(1,2) unfolding is_head_def queued_def by blast
  moreover have "queue_key y < queue_key x"
    using rfc3339_inversion [OF assms(6-8)] assms(4,5) by (simp add: queue_key_def formatTime_def)
  ultimately show False by simp
qed

text \<open>The fix of second 1 waits for the one half a second later.\<close>
theorem subsecond_inversion_witness:
  "\<exists>ds. PendingDeliveries no_faults 0 50 (sample_queue second (second + 500000000)) = Inr ds \<and>
     1 \<notin> dvID ` set ds"
proof -
  obtain ds where ds: "PendingDeliveries no_faults 0 50 (sample_queue second (second + 500000000)) = Inr ds"
    using PendingDeliveries_ok [OF sample_queue_times [of second "second + 500000000"]] by (auto simp: second_def)
  have q: "sample_x second \<in> queued (sample_queue second (second + 500000000)) 42"
      "sample_y (second + 500000000) \<in> queued (sample_queue second (second + 500000000)) 42"
    by (simp_all add: sample_queued)
  have t: "trSourceTime (snd (sample_x second)) = formatTime second"
      "trSourceTime (snd (sample_y (second + 500000000))) = formatTime (second + 500000000)"
    by (simp_all add: position_row_of_def sample_fix_def)
  have "drId (fst (sample_x second)) \<notin> dvID ` set ds"
    by (rule subsecond_inversion [OF q sample_queue_wf t _ _ _ ds]) (simp_all add: second_def)
  with ds show ?thesis by auto
qed

text \<open>
  A delivery is completed once: marking a pending delivery delivered succeeds and changes that row
  only, and marking it again, delivered or failed, is an error that changes nothing.
\<close>
theorem mark_delivered_once:
  assumes "db_wf d" "r \<in> set (deliveries d)" "drState r = Pending"
  shows "\<exists>d'. MarkDelivered no_faults now (drId r) d = (None, d') \<and>
     deliveries d' = map (\<lambda>s. if drId s = drId r then s\<lparr>drState := Delivered,
       drDeliveredAt := Some (formatTime now), drLastError := None\<rparr> else s) (deliveries d) \<and>
     MarkDelivered no_faults later (drId r) d' = (Some (NewError ''pending CalTopo delivery was not found''), d') \<and>
     MarkFailed no_faults (drId r) n nxt terminal e d' =
       (Some (NewError ''pending CalTopo delivery was not found''), d')"
proof -
  let ?f = "\<lambda>s. s\<lparr>drState := Delivered, drDeliveredAt := Some (formatTime now), drLastError := None\<rparr>"
  let ?d = "update_deliveries (drId r) ?f d"
  have inj: "inj_on drId (set (deliveries d))" using assms(1) by (simp add: db_wf_def ids_ok_def distinct_map)
  then have rows: "deliveries ?d = map (\<lambda>s. if drId s = drId r then ?f s else s) (deliveries d)"
    using assms(2,3) by (auto simp: update_deliveries_def dest: inj_onD)
  then have none: "matching_deliveries (drId r) ?d = 0" by (intro matching_none) auto
  have fix_: "update_deliveries (drId r) g ?d = ?d" for g
    using rows by (auto simp: update_deliveries_def intro!: map_idI)
  show ?thesis
    using rows none fix_ matching_one [OF assms]
    by (simp add: MarkDelivered_def MarkFailed_def update_pending_ok requireChanged_def Let_def)
qed

theorem mark_delivered_once_witness:
  "\<exists>d'. MarkDelivered no_faults 5 1 (sample_queue 0 second) = (None, d') \<and>
     MarkDelivered no_faults 6 1 d' = (Some (NewError ''pending CalTopo delivery was not found''), d')"
proof -
  have "delivery_row_of 1 1 0 \<in> set (deliveries (sample_queue 0 second))" by (simp add: sample_queue_def)
  moreover have "drState (delivery_row_of 1 1 0) = Pending" by (simp add: delivery_row_of_def)
  ultimately show ?thesis
    using mark_delivered_once [OF sample_queue_wf, where r = "delivery_row_of 1 1 0" and now = 5
        and later = 6 and n = 0 and nxt = 0 and terminal = True and e = "NewError []"] by auto
qed

text \<open>
  A failed attempt does not lose the delivery or let the node's later positions overtake it: after
  \<open>MarkFailed\<close> without \<open>terminal\<close> the head of a queue is still its head, with the attempts and the next
  attempt time recorded, and until that time nothing of that node is due.
\<close>
theorem retry_keeps_head:
  assumes "db_wf d" "is_head d x"
  shows "\<exists>d' x'. MarkFailed no_faults (drId (fst x)) n nxt False e d = (None, d') \<and> is_head d' x' \<and>
     drId (fst x') = drId (fst x) \<and> snd x' = snd x \<and> drAttempts (fst x') = n \<and>
     drNextAttemptAt (fst x') = formatTime nxt \<and>
     (\<forall>now k ds. formatTime now < formatTime nxt \<longrightarrow> PendingDeliveries no_faults now k d' = Inr ds \<longrightarrow>
        node_of x \<notin> (\<lambda>v. poSourceNode (dvPosition v)) ` set ds)"
proof -
  define f :: "delivery_row \<Rightarrow> delivery_row" where "f = (\<lambda>r. r\<lparr>drState := Pending, drAttempts := n, drNextAttemptAt := formatTime nxt,
    drLastError := Some (error_text e)\<rparr>)"
  define d' where "d' = update_deliveries (drId (fst x)) f d"
  define g where "g = (\<lambda>(r, p :: position_row). (if drId r = drId (fst x) \<and> drState r = Pending then f r else r, p))"
  have xq: "x \<in> set (joined d)" "drState (fst x) = Pending" using assms(2) by (auto simp: is_head_def queued_def)
  have "fst x \<in> set (deliveries d)" using xq(1) joined_iff [of "fst x" "snd x"] by simp
  then have mark: "MarkFailed no_faults (drId (fst x)) n nxt False e d = (None, d')"
    using matching_one [OF assms(1)] xq(2)
    by (simp add: MarkFailed_def update_pending_ok requireChanged_def d'_def f_def)
  have joined: "joined d' = map g (joined d)"
    unfolding d'_def g_def by (rule joined_update) (simp add: f_def)
  have g: "node_of (g y) = node_of y" "queue_key (g y) = queue_key y" "snd (g y) = snd y"
      "drState (fst (g y)) = Pending \<longleftrightarrow> drState (fst y) = Pending" for y
    by (auto simp: g_def f_def node_of_def queue_key_def split_beta)
  have queue: "queued d' u = g ` queued d u" for u
    by (auto simp: queued_def joined g)
  have head: "is_head d' (g x)" using assms(2) by (auto simp: is_head_def queue g)
  have gx: "fst (g x) = f (fst x)" using xq(2) by (simp add: g_def split_beta)
  have wf: "db_wf d'"
    unfolding d'_def using assms(1) by (intro update_deliveries_wf) (simp_all add: f_def)
  have "node_of x \<notin> (\<lambda>v. poSourceNode (dvPosition v)) ` set ds"
    if "formatTime now < formatTime nxt" "PendingDeliveries no_faults now k d' = Inr ds" for now k ds
  proof
    assume "node_of x \<in> (\<lambda>v. poSourceNode (dvPosition v)) ` set ds"
    with that(2) obtain z where z: "z \<in> set (pending_rows now k d')" "node_of z = node_of x"
      by (force simp: PendingDeliveries_Inr scan_delivery_Inr node_of_def scan_position_fields dest!: list_all2_member2)
    then have "z = g x" using is_head_unique [OF wf _ head] pending_rows_member g by metis
    with pending_rows_member [OF z(1)] that(1) show False by (auto simp: due_def gx f_def)
  qed
  with mark head gx g show ?thesis by (intro exI [of _ d'] exI [of _ "g x"]) (simp add: f_def)
qed

theorem retry_keeps_head_witness:
  "\<exists>d' x'. MarkFailed no_faults 1 1 (2 * second) False (NewError ''timeout'') (sample_queue 0 second) = (None, d') \<and>
     is_head d' x' \<and> drId (fst x') = 1"
proof -
  have "is_head (sample_queue 0 second) (sample_x 0)"
    by (rule sample_head) (simp_all add: second_def four_digit_yearI)
  from retry_keeps_head [OF sample_queue_wf this, of 1 "2 * second" "NewError ''timeout''"]
  show ?thesis by auto
qed

end
