(* ===== verification/StoreNodes.thy ===== *)
theory StoreNodes
  imports StoreQueue
begin

text \<open>
  The other operations of \<^verbatim>\<open>store.go\<close>: the latest position of every node, the node directory with its
  renaming of fallback callsigns, and the mapping from nodes to CalTopo tracks.
\<close>

section \<open>Latest positions\<close>

definition position_key :: "position_row \<Rightarrow> string \<times> int" where
  "position_key r = (trSourceTime r, trId r)"

definition is_latest :: "db \<Rightarrow> position_row \<Rightarrow> bool" where
  "is_latest d r \<longleftrightarrow> r \<in> set (positions d) \<and>
     (\<forall>s \<in> set (positions d). trSourceNode s = trSourceNode r \<longrightarrow> position_key s \<le> position_key r)"

lemma newer_iff: "newer n p \<longleftrightarrow> trSourceNode n = trSourceNode p \<and> position_key p < position_key n"
  by (auto simp: newer_def position_key_def)

lemma set_latest_rows: "set (latest_rows d) = {r. is_latest d r}"
  by (auto simp: latest_rows_def is_latest_def newer_iff not_less)

lemma is_latest_unique:
  assumes "db_wf d" "is_latest d r" "is_latest d s" "trSourceNode r = trSourceNode s"
  shows "r = s"
proof -
  have "inj_on trId (set (positions d))" using assms(1) by (simp add: db_wf_def ids_ok_def distinct_map)
  moreover have "position_key r = position_key s" using assms(2-4) by (auto simp: is_latest_def intro: antisym)
  ultimately show ?thesis using assms(2,3) by (auto simp: is_latest_def position_key_def dest: inj_onD)
qed

lemma is_latest_exists:
  assumes "r \<in> set (positions d)"
  shows "\<exists>s. is_latest d s \<and> trSourceNode s = trSourceNode r"
proof -
  let ?S = "{s \<in> set (positions d). trSourceNode s = trSourceNode r}"
  have "Max (position_key ` ?S) \<in> position_key ` ?S" using assms by (intro Max_in) auto
  then obtain s where s: "s \<in> ?S" "position_key s = Max (position_key ` ?S)" by auto
  then have "is_latest d s" by (auto simp: is_latest_def intro!: Max_ge)
  with s(1) show ?thesis by auto
qed

lemma distinct_latest_rows: "db_wf d \<Longrightarrow> distinct (map trSourceNode (latest_rows d))"
proof -
  assume wf: "db_wf d"
  then have "distinct (latest_rows d)" by (simp add: latest_rows_def db_wf_def ids_ok_def distinct_map)
  then show ?thesis
    using is_latest_unique [OF wf] by (auto simp: distinct_map inj_on_def set_latest_rows)
qed

lemma Positions_Inr:
  "Positions io d = Inr ps \<longleftrightarrow>
     io Query = None \<and> io Iterate = None \<and> rows_scanned io 0 (length (latest_rows d)) \<and>
     list_all2 (\<lambda>r p. scan_position r = Inr p) (latest_rows d) ps"
proof -
  have "Positions io d = Inr ps \<longleftrightarrow> io Query = None \<and> io Iterate = None \<and>
      scan_all io ''scan TAK position'' 0 scan_position (latest_rows d) = Inr ps"
    by (auto simp: Positions_def attempt_def split: option.splits sum.splits)
  then show ?thesis by (simp add: scan_all_Inr)
qed

lemma Positions_ok:
  assumes "times_ok d"
  shows "\<exists>ps. Positions no_faults d = Inr ps"
proof -
  have "\<exists>ps. scan_all no_faults ''scan TAK position'' 0 scan_position (latest_rows d) = Inr ps"
    using assms scan_position_ok
    by (intro scan_all_ok) (auto simp: set_latest_rows is_latest_def times_ok_def)
  then show ?thesis by (auto simp: Positions_Inr scan_all_Inr)
qed

lemma scanned_positions:
  assumes "list_all2 (\<lambda>r p. scan_position r = Inr p) rs ps"
  shows "map poSourceNode ps = map trSourceNode rs" "map poPacketID ps = map trId rs"
  using assms by (induction rule: list_all2_induct) (auto simp: scan_position_fields)

lemma Positions_per_node:
  assumes "db_wf d" "Positions io d = Inr ps"
  shows "distinct (map poSourceNode ps) \<and> poSourceNode ` set ps = trSourceNode ` set (positions d) \<and>
    (\<forall>p \<in> set ps. \<exists>r. is_latest d r \<and> scan_position r = Inr p)"
proof -
  from assms(2) have l: "list_all2 (\<lambda>r p. scan_position r = Inr p) (latest_rows d) ps"
    by (simp add: Positions_Inr)
  have m: "map poSourceNode ps = map trSourceNode (latest_rows d)" by (rule scanned_positions [OF l])
  have "poSourceNode ` set ps = trSourceNode ` set (latest_rows d)"
    using arg_cong [OF m, of set] by simp
  also have "\<dots> = trSourceNode ` set (positions d)"
  proof
    show "trSourceNode ` set (latest_rows d) \<subseteq> trSourceNode ` set (positions d)"
      unfolding set_latest_rows is_latest_def by blast
    show "trSourceNode ` set (positions d) \<subseteq> trSourceNode ` set (latest_rows d)"
      unfolding set_latest_rows using is_latest_exists [of _ d] by (metis image_eqI image_subsetI mem_Collect_eq)
  qed
  finally have "poSourceNode ` set ps = trSourceNode ` set (positions d)" .
  moreover have "distinct (map poSourceNode ps)" unfolding m by (rule distinct_latest_rows [OF assms(1)])
  moreover have "\<exists>r. is_latest d r \<and> scan_position r = Inr p" if "p \<in> set ps" for p
    using list_all2_member2 [OF l that] by (auto simp: set_latest_rows)
  ultimately show ?thesis by blast
qed

section \<open>Nodes\<close>

definition callsign_of :: "string \<Rightarrow> string \<Rightarrow> string" where
  "callsign_of short long = (if trim_space short = [] then trim_space long else trim_space short)"

lemma UpsertNode_cases:
  assumes "UpsertNode io now node short long d = (r, d')"
  obtains (failed) e where "r = Some e" "d' = d"
  | (stored) "r = None"
      "d' = (if callsign_of short long = [] then id else rename_positions node (callsign_of short long))
        (upsert_node_row node (trim_space short) (trim_space long) now d)"
  using assms
  by (auto simp: UpsertNode_def Let_def attempt_def callsign_of_def split: option.splits sum.splits if_splits)

lemma UpsertNode_ok:
  "UpsertNode no_faults now node short long d = (None,
     (if callsign_of short long = [] then id else rename_positions node (callsign_of short long))
       (upsert_node_row node (trim_space short) (trim_space long) now d))"
  by (simp add: UpsertNode_def Let_def callsign_of_def)

lemma rename_positions_nodes [simp]: "nodes (rename_positions node cs d) = nodes d"
  by (simp add: rename_positions_def)

lemma find_map_same:
  assumes "\<And>r. f (g r) = f r"
  shows "List.find (\<lambda>r. f r = k) (map g xs) = map_option g (List.find (\<lambda>r. f r = k) xs)"
  by (induction xs) (auto simp: assms)

lemma find_upsert:
  "List.find (\<lambda>r. nrNodeNum r = k) (nodes (upsert_node_row node s l now d)) =
     (if k = node then Some \<lparr>nrNodeNum = node, nrShortName = s, nrLongName = l, nrUpdatedAt = formatTime now\<rparr>
      else List.find (\<lambda>r. nrNodeNum r = k) (nodes d))"
proof -
  let ?new = "\<lparr>nrNodeNum = node, nrShortName = s, nrLongName = l, nrUpdatedAt = formatTime now\<rparr>"
  let ?g = "\<lambda>r. if nrNodeNum r = node then ?new else r"
  have known: "List.find (\<lambda>r. nrNodeNum r = k) (map ?g xs) = (if k = node \<and> node \<in> nrNodeNum ` set xs then Some ?new
      else List.find (\<lambda>r. nrNodeNum r = k) xs)" for xs
    by (induction xs) auto
  have fresh: "List.find (\<lambda>r. nrNodeNum r = k) (xs @ [?new]) =
      (if k = node then Some ?new else List.find (\<lambda>r. nrNodeNum r = k) xs)" if "node \<notin> nrNodeNum ` set xs" for xs
    using that by (induction xs) auto
  show ?thesis
  proof (cases "node \<in> nrNodeNum ` set (nodes d)")
    case True
    then show ?thesis by (simp add: upsert_node_row_def Let_def known)
  next
    case False
    then show ?thesis by (simp add: upsert_node_row_def Let_def fresh)
  qed
qed

section \<open>Well-formedness\<close>

lemma distinct_map_replace:
  assumes "distinct (map f xs)" "\<And>x. x \<in> set xs \<Longrightarrow> f (g x) = f x"
  shows "distinct (map f (map g xs))"
proof -
  have "map f (map g xs) = map f xs" using assms(2) by simp
  with assms(1) show ?thesis by (simp only:)
qed

lemma upsert_node_row_wf: "db_wf d \<Longrightarrow> db_wf (upsert_node_row node s l now d)"
  by (auto simp: db_wf_def upsert_node_row_def Let_def simp del: map_map intro!: distinct_map_replace)

lemma rename_positions_wf:
  assumes "db_wf d"
  shows "db_wf (rename_positions node cs d)"
proof -
  define h :: "position_row \<Rightarrow> position_row"
    where "h = (\<lambda>r. if trSourceNode r = node \<and> trCallsign r = NodeID node then r\<lparr>trCallsign := cs\<rparr> else r)"
  have h: "trId (h r) = trId r" "trPacketId (h r) = trPacketId r" "trDedupeKey (h r) = trDedupeKey r"
    "trLatitude (h r) = trLatitude r" "trLongitude (h r) = trLongitude r" for r
    by (simp_all add: h_def)
  have "rename_positions node cs d = d\<lparr>positions := map h (positions d)\<rparr>"
    by (simp add: rename_positions_def h_def)
  then show ?thesis using assms by (simp add: db_wf_def o_def h image_image)
qed

lemma UpsertNode_wf:
  assumes "db_wf d"
  shows "db_wf (snd (UpsertNode io now node short long d))"
proof -
  obtain r d' where u: "UpsertNode io now node short long d = (r, d')" by fastforce
  from u have "db_wf d'"
    by (cases rule: UpsertNode_cases) (use assms in \<open>auto intro: upsert_node_row_wf rename_positions_wf\<close>)
  with u show ?thesis by simp
qed

section \<open>Tracks\<close>

definition track_of :: "db \<Rightarrow> string \<Rightarrow> string option" where
  "track_of d k = map_option krTrackId (List.find (\<lambda>r. krSourceId r = k) (tracks d))"

lemma track_of_upsert:
  assumes "upsert_track source device track now d = Inr d'"
  shows "track_of d' k = (if k = source then Some track else track_of d k)"
proof -
  let ?g = "\<lambda>r. if krSourceId r = source then r\<lparr>krDeviceId := device, krTrackId := track\<rparr> else r"
  have known: "map_option krTrackId (List.find (\<lambda>r. krSourceId r = k) (map ?g xs)) =
      (if k = source \<and> source \<in> krSourceId ` set xs then Some track
       else map_option krTrackId (List.find (\<lambda>r. krSourceId r = k) xs))" for xs
    by (induction xs) auto
  have fresh: "List.find (\<lambda>r. krSourceId r = k) (xs @ [y]) =
      (if k = krSourceId y then Some y else List.find (\<lambda>r. krSourceId r = k) xs)"
    if "krSourceId y \<notin> krSourceId ` set xs" for xs y
    using that by (induction xs) auto
  show ?thesis
  proof (cases "source \<in> krSourceId ` set (tracks d)")
    case True
    then have "tracks d' = map ?g (tracks d)" using assms by (auto simp: upsert_track_def split: if_splits)
    with True show ?thesis by (simp add: track_of_def known)
  next
    case False
    then have "tracks d' = tracks d @ [\<lparr>krSourceId = source, krDeviceId = device, krTrackId = track,
        krCreatedAt = formatTime now\<rparr>]"
      using assms by (auto simp: upsert_track_def image_iff split: if_splits)
    with False show ?thesis by (simp add: track_of_def fresh)
  qed
qed

lemma distinct_map_upsert:
  assumes "distinct (map f xs)" "inj_on k (set xs)"
    and "\<And>x. x \<in> set xs \<Longrightarrow> k x \<noteq> s \<Longrightarrow> f x \<noteq> v" "\<And>x. k x = s \<Longrightarrow> f (g x) = v"
  shows "distinct (map f (map (\<lambda>x. if k x = s then g x else x) xs))"
  using assms
proof (induction xs)
  case (Cons x xs)
  have IH: "distinct (map f (map (\<lambda>x. if k x = s then g x else x) xs))"
    using Cons by (auto simp: inj_on_def)
  have "f (if k x = s then g x else x) \<noteq> f (if k y = s then g y else y)" if y: "y \<in> set xs" for y
  proof -
    have "k x \<noteq> k y" "f x \<noteq> f y"
      using Cons.prems(1,2) y by (auto simp: inj_on_def)
    then show ?thesis using Cons.prems(3) [of x] Cons.prems(3) [of y] Cons.prems(4) y by auto
  qed
  then have "f (if k x = s then g x else x) \<notin> set (map f (map (\<lambda>x. if k x = s then g x else x) xs))" by fastforce
  with IH show ?case by (simp only: list.map distinct.simps) simp
qed simp

lemma upsert_track_wf:
  assumes "db_wf d" "upsert_track source device track now d = Inr d'"
  shows "db_wf d'"
proof -
  let ?g = "\<lambda>r. r\<lparr>krDeviceId := device, krTrackId := track\<rparr>"
  have clash: "\<And>r. r \<in> set (tracks d) \<Longrightarrow> krSourceId r \<noteq> source \<Longrightarrow> krDeviceId r \<noteq> device \<and> krTrackId r \<noteq> track"
    using assms(2) by (auto simp: upsert_track_def split: if_splits)
  have wf: "distinct (map krSourceId (tracks d))" "distinct (map krDeviceId (tracks d))"
    "distinct (map krTrackId (tracks d))" "inj_on krSourceId (set (tracks d))"
    using assms(1) by (simp_all add: db_wf_def distinct_map)
  show ?thesis
  proof (cases "\<exists>r \<in> set (tracks d). krSourceId r = source")
    case True
    let ?h = "\<lambda>r. if krSourceId r = source then ?g r else r"
    have d': "d' = d\<lparr>tracks := map ?h (tracks d)\<rparr>"
      using assms(2) True by (auto simp: upsert_track_def split: if_splits)
    have "distinct (map krSourceId (map ?h (tracks d)))" using wf(1) by (rule distinct_map_replace) simp
    moreover have "distinct (map krDeviceId (map ?h (tracks d)))"
      using wf(2,4) by (rule distinct_map_upsert) (use clash in auto)
    moreover have "distinct (map krTrackId (map ?h (tracks d)))"
      using wf(3,4) by (rule distinct_map_upsert) (use clash in auto)
    ultimately show ?thesis using assms(1) unfolding d' by (simp add: db_wf_def)
  next
    case False
    then show ?thesis
      using assms clash by (fastforce simp: upsert_track_def db_wf_def split: if_splits)
  qed
qed

lemma SaveTrack_cases:
  assumes "SaveTrack io now source device track d = (r, d')"
  obtains (failed) e where "r = Some e" "d' = d"
  | (stored) "r = None" "upsert_track source device track now d = Inr d'"
  using assms by (auto simp: SaveTrack_def attempt_def split: sum.splits option.splits)

lemma TrackID_ok:
  "TrackID no_faults k d = Inr (case track_of d k of None \<Rightarrow> ([], False) | Some t \<Rightarrow> (t, True))"
  by (auto simp: TrackID_def track_of_def split: option.splits)

section \<open>Properties\<close>

text \<open>
  \<open>Positions\<close> returns exactly one position for every node that has any, the one with the greatest
  stored source time and, among equal times, the greatest id.
\<close>
theorem positions_latest:
  assumes "db_wf d" "Positions io d = Inr ps"
  shows "distinct (map poSourceNode ps) \<and> poSourceNode ` set ps = trSourceNode ` set (positions d) \<and>
    (\<forall>p \<in> set ps. \<exists>r. is_latest d r \<and> scan_position r = Inr p)"
  by (rule Positions_per_node [OF assms])

theorem positions_latest_witness:
  "\<exists>ps. Positions no_faults (sample_queue 0 second) = Inr ps \<and> poSourceNode ` set ps = {42}"
proof -
  obtain ps where ps: "Positions no_faults (sample_queue 0 second) = Inr ps"
    using Positions_ok [OF sample_queue_times [of 0 second]] by (auto simp: second_def)
  have "trSourceNode ` set (positions (sample_queue 0 second)) = {42}"
    by (simp add: sample_queue_def position_row_of_def sample_fix_def)
  with positions_latest [OF sample_queue_wf ps] ps show ?thesis by metis
qed

text \<open>
  After \<open>UpsertNode\<close> the node's callsign is its trimmed short name, or the trimmed long name when
  that is empty; every other node keeps its own. Stored positions of the node that carry the fallback
  identifier as callsign, and only those, are renamed, and none is when both names are empty.
\<close>
theorem upsert_node_callsign:
  "\<exists>d'. UpsertNode no_faults now node short long d = (None, d') \<and>
     NodeCallsign no_faults k d' =
       (if k = node then Inr (if trim_space short = [] then trim_space long else trim_space short)
        else NodeCallsign no_faults k d) \<and>
     map trCallsign (positions d') =
       map (\<lambda>r. if trSourceNode r = node \<and> trCallsign r = NodeID node \<and> callsign_of short long \<noteq> []
         then callsign_of short long else trCallsign r) (positions d)"
proof -
  have "positions (upsert_node_row node s l now d) = positions d" for s l
    by (simp add: upsert_node_row_def Let_def)
  then show ?thesis
    by (auto simp: UpsertNode_ok NodeCallsign_def find_upsert rename_positions_def callsign_of_def)
qed

text \<open>
  A saved track mapping is found again and no other mapping changes; saving fails, with nothing
  changed, exactly when the device or the track already belongs to another source.
\<close>
theorem save_track_lookup:
  "case SaveTrack no_faults now source device track d of
     (Some e, d') \<Rightarrow> d' = d \<and>
       (\<exists>r \<in> set (tracks d). krSourceId r \<noteq> source \<and> (krDeviceId r = device \<or> krTrackId r = track))
   | (None, d') \<Rightarrow>
       TrackID no_faults k d' = (if k = source then Inr (track, True) else TrackID no_faults k d) \<and>
       \<not> (\<exists>r \<in> set (tracks d). krSourceId r \<noteq> source \<and> (krDeviceId r = device \<or> krTrackId r = track))"
proof (cases "upsert_track source device track now d")
  case (Inl e)
  then show ?thesis by (auto simp: SaveTrack_def upsert_track_def split: if_splits)
next
  case (Inr d')
  then have "\<not> (\<exists>r \<in> set (tracks d). krSourceId r \<noteq> source \<and> (krDeviceId r = device \<or> krTrackId r = track))"
    by (auto simp: upsert_track_def split: if_splits)
  then show ?thesis by (simp add: SaveTrack_def Inr TrackID_ok track_of_upsert [OF Inr])
qed

end
