(* ===== verification/StoreHistory.thy ===== *)
theory StoreHistory
  imports StoreKey StoreNodes
begin

text \<open>
  The store as a state machine: a step is any call of an operation that writes, with any driver
  failures. The invariant of the tables and the coherence of the rows hold in every reachable database, and a relation \<open>extends\<close>
  that all steps respect says what is never lost or changed: the packets, the facts of the positions,
  the delivered and failed deliveries.
\<close>

section \<open>Steps\<close>

inductive store_step :: "(string \<Rightarrow> byte list) \<Rightarrow> db \<Rightarrow> db \<Rightarrow> bool" for sum256 where
  step_archive: "store_step sum256 d (snd (Archive sum256 io now p pos enqueue d))"
| step_delivered: "store_step sum256 d (snd (MarkDelivered io now i d))"
| step_failed: "store_step sum256 d (snd (MarkFailed io i n nxt terminal e d))"
| step_node: "store_step sum256 d (snd (UpsertNode io now node short long d))"
| step_track: "store_step sum256 d (snd (SaveTrack io now source device track d))"

inductive_cases store_stepE: "store_step sum256 d d'"

definition reachable :: "(string \<Rightarrow> byte list) \<Rightarrow> db \<Rightarrow> bool" where
  "reachable sum256 d \<longleftrightarrow> (store_step sum256)\<^sup>*\<^sup>* empty_db d"

section \<open>The invariant\<close>

lemma update_pending_cases:
  "snd (update_pending io what i f d) = d \<or> snd (update_pending io what i f d) = update_deliveries i f d"
  by (auto simp: update_pending_def attempt_def split: option.splits)

lemma update_pending_wf:
  assumes "\<And>r. drId (f r) = drId r" "\<And>r. drPositionId (f r) = drPositionId r" "db_wf d"
  shows "db_wf (snd (update_pending io what i f d))"
  using update_pending_cases [of io what i f d] update_deliveries_wf [of f d i] assms by auto

lemma MarkDelivered_wf: "db_wf d \<Longrightarrow> db_wf (snd (MarkDelivered io now i d))"
  unfolding MarkDelivered_def by (rule update_pending_wf) simp_all

lemma MarkFailed_wf: "db_wf d \<Longrightarrow> db_wf (snd (MarkFailed io i n nxt terminal e d))"
  unfolding MarkFailed_def Let_def by (rule update_pending_wf) simp_all

lemma SaveTrack_wf:
  assumes "db_wf d"
  shows "db_wf (snd (SaveTrack io now source device track d))"
proof -
  obtain r d' where s: "SaveTrack io now source device track d = (r, d')" by fastforce
  from s have "db_wf d'"
    by (cases rule: SaveTrack_cases) (use assms in \<open>auto intro: upsert_track_wf\<close>)
  with s show ?thesis by simp
qed

lemma store_step_wf: "store_step sum256 d d' \<Longrightarrow> db_wf d \<Longrightarrow> db_wf d'"
  by (erule store_stepE) (auto intro: Archive_wf MarkDelivered_wf MarkFailed_wf UpsertNode_wf SaveTrack_wf)

section \<open>Coherent rows\<close>

text \<open>
  What the operations keep beyond the constraints of the schema: the columns of a delivery agree with its
  state, the key of a position with its columns, and the order of the rows with that of reception.
\<close>

definition delivery_coherent :: "delivery_row \<Rightarrow> bool" where
  "delivery_coherent r \<longleftrightarrow>
     (case drState r of
        Pending \<Rightarrow> drDeliveredAt r = None \<and> (drLastError r = None \<longrightarrow> drAttempts r = 0)
      | Delivered \<Rightarrow> drDeliveredAt r \<noteq> None \<and> drLastError r = None
      | Failed \<Rightarrow> drDeliveredAt r = None \<and> drLastError r \<noteq> None)"

definition row_key_text :: "position_row \<Rightarrow> string" where
  "row_key_text r = hex_fixed 8 (unat (trSourceNode r)) @ '':'' @ fmt_fixed7 (trLatitude r) @ '':'' @
     fmt_fixed7 (trLongitude r) @ '':'' @ trSourceTime r"

definition deliveries_coherent :: "db \<Rightarrow> bool" where
  "deliveries_coherent d \<longleftrightarrow> (\<forall>r \<in> set (deliveries d). delivery_coherent r)"

definition keys_coherent :: "(string \<Rightarrow> byte list) \<Rightarrow> db \<Rightarrow> bool" where
  "keys_coherent sum256 d \<longleftrightarrow>
     (\<forall>p \<in> set (positions d). trDedupeKey p = concat (map (\<lambda>b. hex_fixed 2 (unat b)) (sum256 (row_key_text p))))"

definition order_coherent :: "db \<Rightarrow> bool" where
  "order_coherent d \<longleftrightarrow> sorted_wrt (<) (map trPacketId (positions d)) \<and> sorted_wrt (<) (map drPositionId (deliveries d))"

lemma row_key_position: "row_key_text (position_row_of i pk key port p) = key_text p"
  by (simp add: row_key_text_def key_text_def position_row_of_def)

lemma row_dedupe_key: "trDedupeKey (position_row_of i pk key port p) = key"
  by (simp add: position_row_of_def)

lemma coherent_insert:
  assumes "Archive sum256 io now p pos enqueue d = (r, d')" "db_wf d" "deliveries_coherent d" "keys_coherent sum256 d" "order_coherent d"
  shows "deliveries_coherent d' \<and> keys_coherent sum256 d' \<and> order_coherent d'"
  using assms(1)
proof (cases rule: Archive_cases)
  case failed
  with assms show ?thesis by simp
next
  case plain
  with assms show ?thesis
    by (auto simp: insert_packet_Inr deliveries_coherent_def keys_coherent_def order_coherent_def)
next
  case (duplicate q row)
  with assms show ?thesis
    by (auto simp: insert_packet_Inr deliveries_coherent_def keys_coherent_def order_coherent_def)
next
  case (stored q d1 d2)
  have "trPacketId x < packet_seq d1" if "x \<in> set (positions d)" for x
    using stored(2) assms(2) that by (fastforce simp: insert_packet_Inr db_wf_def ids_ok_def)
  moreover have "drPositionId x < position_seq d2" if "x \<in> set (deliveries d)" for x
    using stored(2,4) assms(2) that by (fastforce simp: insert_packet_Inr insert_position_Inr db_wf_def ids_ok_def)
  ultimately have "order_coherent d'"
    using stored(2,4,5) assms(5)
    by (auto simp: order_coherent_def insert_packet_Inr insert_position_Inr insert_delivery_Inr sorted_wrt_append
        position_row_of_def delivery_row_of_def split: if_splits)
  moreover have "keys_coherent sum256 d'"
    using stored(2,4,5) assms(4)
    by (auto simp: keys_coherent_def insert_packet_Inr insert_position_Inr insert_delivery_Inr row_key_position
        row_dedupe_key positionKey_def split: if_splits)
  moreover have "deliveries_coherent d'"
    using stored(2,4,5) assms(3)
    by (auto simp: deliveries_coherent_def insert_packet_Inr insert_position_Inr insert_delivery_Inr delivery_row_of_def
        delivery_coherent_def split: if_splits)
  ultimately show ?thesis by simp
qed

lemma coherent_update:
  assumes "\<And>r. drPositionId (f r) = drPositionId r" "\<And>r. drState r = Pending \<Longrightarrow> delivery_coherent r \<Longrightarrow> delivery_coherent (f r)"
  shows "deliveries_coherent d \<Longrightarrow> deliveries_coherent (update_deliveries i f d)"
    "keys_coherent sum256 (update_deliveries i f d) = keys_coherent sum256 d"
    "order_coherent (update_deliveries i f d) = order_coherent d"
proof -
  have "map drPositionId (deliveries (update_deliveries i f d)) = map drPositionId (deliveries d)"
    using assms(1) by (simp add: update_deliveries_def)
  then show "order_coherent (update_deliveries i f d) = order_coherent d"
    by (simp add: order_coherent_def) (simp add: update_deliveries_def)
  show "keys_coherent sum256 (update_deliveries i f d) = keys_coherent sum256 d"
    by (simp add: keys_coherent_def update_deliveries_def)
  show "deliveries_coherent d \<Longrightarrow> deliveries_coherent (update_deliveries i f d)"
    using assms(2) by (auto simp: deliveries_coherent_def update_deliveries_def)
qed

lemma coherent_delivered:
  "drState r = Pending \<Longrightarrow> delivery_coherent (r\<lparr>drState := Delivered, drDeliveredAt := Some t, drLastError := None\<rparr>)"
  by (simp add: delivery_coherent_def)

lemma coherent_failed:
  "drState r = Pending \<Longrightarrow> delivery_coherent r \<Longrightarrow>
     delivery_coherent (r\<lparr>drState := Failed, drAttempts := n, drNextAttemptAt := t, drLastError := Some e\<rparr>)"
  "drState r = Pending \<Longrightarrow> delivery_coherent r \<Longrightarrow>
     delivery_coherent (r\<lparr>drState := Pending, drAttempts := n, drNextAttemptAt := t, drLastError := Some e\<rparr>)"
  by (simp_all add: delivery_coherent_def)

definition coherent :: "(string \<Rightarrow> byte list) \<Rightarrow> db \<Rightarrow> bool" where
  "coherent sum256 d \<longleftrightarrow> deliveries_coherent d \<and> keys_coherent sum256 d \<and> order_coherent d"

lemma coherent_pending:
  assumes "\<And>r. drPositionId (f r) = drPositionId r" "\<And>r. drState r = Pending \<Longrightarrow> delivery_coherent r \<Longrightarrow> delivery_coherent (f r)"
    and "coherent sum256 d"
  shows "coherent sum256 (snd (update_pending io what i f d))"
  using update_pending_cases [of io what i f d] coherent_update [where f = f, OF assms(1,2)] assms(3)
  unfolding coherent_def by metis

lemma coherent_rows:
  assumes "map trPacketId (positions d') = map trPacketId (positions d)" "deliveries d' = deliveries d"
    and "\<And>r'. r' \<in> set (positions d') \<Longrightarrow> \<exists>r \<in> set (positions d). trDedupeKey r' = trDedupeKey r \<and> row_key_text r' = row_key_text r"
    and "coherent sum256 d"
  shows "coherent sum256 d'"
  using assms unfolding coherent_def deliveries_coherent_def keys_coherent_def order_coherent_def by metis

lemma coherent_node: "coherent sum256 d \<Longrightarrow> coherent sum256 (snd (UpsertNode io now node short long d))"
proof -
  assume c: "coherent sum256 d"
  obtain r d' where u: "UpsertNode io now node short long d = (r, d')" by fastforce
  then have "coherent sum256 d'"
  proof (cases rule: UpsertNode_cases)
    case stored
    show ?thesis
      by (rule coherent_rows [OF _ _ _ c])
        (auto simp: stored(2) upsert_node_row_def rename_positions_def Let_def row_key_text_def split: if_splits)
  qed (use c in simp)
  with u show ?thesis by simp
qed

lemma coherent_track: "coherent sum256 d \<Longrightarrow> coherent sum256 (snd (SaveTrack io now source device track d))"
proof -
  assume c: "coherent sum256 d"
  obtain r d' where s: "SaveTrack io now source device track d = (r, d')" by fastforce
  then have "positions d' = positions d \<and> deliveries d' = deliveries d"
    by (cases rule: SaveTrack_cases) (auto simp: upsert_track_def split: if_splits)
  then have "coherent sum256 d'" using c by (intro coherent_rows [OF _ _ _ c]) auto
  with s show ?thesis by simp
qed

lemma store_step_coherent: "store_step sum256 d d' \<Longrightarrow> db_wf d \<Longrightarrow> coherent sum256 d \<Longrightarrow> coherent sum256 d'"
proof (erule store_stepE)
  fix io now p pos enqueue
  assume "db_wf d" "coherent sum256 d" "d' = snd (Archive sum256 io now p pos enqueue d)"
  then show "coherent sum256 d'"
    using coherent_insert [OF surjective_pairing] unfolding coherent_def by simp
qed (auto simp: MarkDelivered_def MarkFailed_def Let_def coherent_delivered coherent_failed
    intro!: coherent_pending coherent_node coherent_track)

section \<open>What is kept\<close>

definition fact_of :: "position_row \<Rightarrow> int \<times> int \<times> string \<times> u32 \<times> f64 \<times> f64 \<times> string" where
  "fact_of r = (trId r, trPacketId r, trDedupeKey r, trSourceNode r, trLatitude r, trLongitude r, trSourceTime r)"

definition settled :: "delivery_row \<Rightarrow> delivery_row \<Rightarrow> bool" where
  "settled r r' \<longleftrightarrow> drId r' = drId r \<and> drPositionId r' = drPositionId r \<and> (drState r \<noteq> Pending \<longrightarrow> r' = r)"

definition extends :: "db \<Rightarrow> db \<Rightarrow> bool" where
  "extends d d' \<longleftrightarrow>
     (\<exists>ps. packets d' = packets d @ ps) \<and>
     (\<exists>fs. map fact_of (positions d') = map fact_of (positions d) @ fs) \<and>
     (\<exists>kept new. deliveries d' = kept @ new \<and> list_all2 settled (deliveries d) kept)"

lemma settled_refl: "settled r r"
  by (simp add: settled_def)

lemma settled_all_refl: "list_all2 settled rs rs"
  by (simp add: list.rel_refl settled_refl)

lemma extends_refl: "extends d d"
  using settled_all_refl by (auto simp: extends_def)

lemma settled_trans: "settled a b \<Longrightarrow> settled b c \<Longrightarrow> settled a c"
  by (auto simp: settled_def)

lemma extends_trans:
  assumes "extends a b" "extends b c"
  shows "extends a c"
proof -
  from assms(1) obtain kb nb where b: "deliveries b = kb @ nb" "list_all2 settled (deliveries a) kb"
    by (auto simp: extends_def)
  from assms(2) obtain kc nc where c: "deliveries c = kc @ nc" "list_all2 settled (kb @ nb) kc"
    by (auto simp: extends_def b)
  from c(2) obtain kc1 kc2 where kc: "kc = kc1 @ kc2" "list_all2 settled kb kc1"
    by (auto simp: list_all2_append1)
  have "list_all2 settled (deliveries a) kc1" using list_all2_trans [OF _ b(2) kc(2)] settled_trans by blast
  then have "\<exists>kept new. deliveries c = kept @ new \<and> list_all2 settled (deliveries a) kept"
    using c(1) kc(1) by (intro exI [of _ kc1] exI [of _ "kc2 @ nc"]) simp
  then show ?thesis using assms by (auto simp: extends_def)
qed

lemma extends_update:
  assumes "\<And>r. drId (f r) = drId r" "\<And>r. drPositionId (f r) = drPositionId r"
  shows "extends d (update_deliveries i f d)"
proof -
  have "list_all2 settled rs (map (\<lambda>r. if drId r = i \<and> drState r = Pending then f r else r) rs)" for rs
    by (induction rs) (use assms in \<open>auto simp: settled_def\<close>)
  then show ?thesis by (auto simp: extends_def update_deliveries_def)
qed

lemma extends_append:
  "packets d' = packets d @ ps \<Longrightarrow> positions d' = positions d @ qs \<Longrightarrow> deliveries d' = deliveries d @ rs
    \<Longrightarrow> extends d d'"
  using settled_all_refl by (auto simp: extends_def)

lemma extends_facts:
  assumes "packets d' = packets d" "map fact_of (positions d') = map fact_of (positions d)" "deliveries d' = deliveries d"
  shows "extends d d'"
proof -
  have "deliveries d' = deliveries d @ []" "list_all2 settled (deliveries d) (deliveries d)"
    using assms(3) settled_all_refl by simp_all
  then show ?thesis using assms(1,2) unfolding extends_def by (metis append_Nil2)
qed

lemma extends_Archive: "extends d (snd (Archive sum256 io now p pos enqueue d))"
proof -
  obtain r d' where a: "Archive sum256 io now p pos enqueue d = (r, d')" by fastforce
  from a have "extends d d'"
  proof (cases rule: Archive_cases)
    case failed
    then show ?thesis by (simp add: extends_refl)
  next
    case (stored q d1 d2)
    then show ?thesis
      by (cases enqueue) (auto simp: insert_packet_Inr insert_position_Inr insert_delivery_Inr intro: extends_append)
  qed (auto simp: insert_packet_Inr intro: extends_append)
  with a show ?thesis by simp
qed

lemma fact_of_rename [simp]: "fact_of (r\<lparr>trCallsign := cs\<rparr>) = fact_of r"
  by (simp add: fact_of_def)

lemma extends_UpsertNode: "extends d (snd (UpsertNode io now node short long d))"
proof -
  obtain r d' where u: "UpsertNode io now node short long d = (r, d')" by fastforce
  have facts: "map fact_of (positions d') = map fact_of (positions d)"
    using u by (cases rule: UpsertNode_cases) (auto simp: upsert_node_row_def rename_positions_def Let_def)
  have "packets d' = packets d \<and> deliveries d' = deliveries d"
    using u by (cases rule: UpsertNode_cases) (auto simp: upsert_node_row_def rename_positions_def Let_def split: if_splits)
  with u facts show ?thesis by (simp add: extends_facts)
qed

lemma extends_SaveTrack: "extends d (snd (SaveTrack io now source device track d))"
proof -
  obtain r d' where s: "SaveTrack io now source device track d = (r, d')" by fastforce
  from s have "packets d' = packets d \<and> positions d' = positions d \<and> deliveries d' = deliveries d"
    by (cases rule: SaveTrack_cases) (auto simp: upsert_track_def split: if_splits)
  with s show ?thesis by (simp add: extends_facts)
qed

lemma extends_update_pending:
  assumes "\<And>r. drId (f r) = drId r" "\<And>r. drPositionId (f r) = drPositionId r"
  shows "extends d (snd (update_pending io what i f d))"
  using update_pending_cases [of io what i f d] extends_update [OF assms] extends_refl by metis

lemma store_step_extends: "store_step sum256 d d' \<Longrightarrow> extends d d'"
  by (erule store_stepE)
    (auto simp: MarkDelivered_def MarkFailed_def Let_def
      intro: extends_Archive extends_UpsertNode extends_SaveTrack extends_update_pending)

lemma steps_extend: "(store_step sum256)\<^sup>*\<^sup>* d d' \<Longrightarrow> extends d d'"
  by (induction rule: rtranclp_induct) (auto intro: extends_refl extends_trans store_step_extends)

lemma extends_key:
  assumes "extends d d'" "r \<in> set (positions d)"
  shows "\<exists>r' \<in> set (positions d'). fact_of r' = fact_of r"
proof -
  from assms(1) obtain fs where "map fact_of (positions d') = map fact_of (positions d) @ fs"
    by (auto simp: extends_def)
  then have "set (map fact_of (positions d)) \<subseteq> set (map fact_of (positions d'))" by simp
  with assms(2) have "fact_of r \<in> set (map fact_of (positions d'))" by auto
  then show ?thesis by force
qed

lemma reachable_db_wf: "reachable sum256 d \<Longrightarrow> db_wf d"
  unfolding reachable_def by (induction rule: rtranclp_induct) (auto intro: db_wf_empty store_step_wf)

lemma reachable_parts:
  assumes "reachable sum256 d"
  shows "deliveries_coherent d" "keys_coherent sum256 d" "order_coherent d"
proof -
  have "db_wf d \<and> coherent sum256 d"
    using assms unfolding reachable_def
  proof (induction rule: rtranclp_induct)
    case base
    show ?case
      by (simp add: db_wf_empty coherent_def deliveries_coherent_def keys_coherent_def order_coherent_def)
        (simp add: empty_db_def)
  next
    case (step d1 d2)
    then show ?case using store_step_wf store_step_coherent by blast
  qed
  then show "deliveries_coherent d" "keys_coherent sum256 d" "order_coherent d" by (simp_all add: coherent_def)
qed

lemma sample_archive:
  "\<exists>d1. Archive sample_hash no_faults 0 (sample_record 42) (Some (sample_fix 42 t)) True empty_db = (Inr (1, 1, True), d1)"
  using sample_fix_between [of 42 t]
  by (auto simp: Archive_def Let_def commit_def insert_packet_def insert_position_def insert_delivery_def
      position_of_key_def empty_db_def sample_record_def)

section \<open>Properties\<close>

text \<open>
  C26: What the schema cannot enforce: in every database that the operations can produce from the empty one, in
  any order and with any driver failures, a delivery has a time of delivery exactly when it is delivered and
  then no error, a failed one has an error, and a pending one without an error was never tried; the key of a
  position is the hash of its own node, coordinates and source time, and no two positions agree in all of
  these; and the positions and the deliveries lie in the order of reception, each position with a packet of
  its own.
\<close>
theorem reachable_coherent:
  assumes "reachable sum256 d"
  shows "(\<forall>r \<in> set (deliveries d). delivery_coherent r) \<and>
    (\<forall>p \<in> set (positions d). trDedupeKey p = concat (map (\<lambda>b. hex_fixed 2 (unat b)) (sum256 (row_key_text p)))) \<and>
    (\<forall>p \<in> set (positions d). \<forall>q \<in> set (positions d). row_key_text p = row_key_text q \<longrightarrow> p = q) \<and>
    sorted_wrt (<) (map trPacketId (positions d)) \<and> sorted_wrt (<) (map drPositionId (deliveries d))"
proof -
  have c: "deliveries_coherent d" "keys_coherent sum256 d" "order_coherent d"
    using reachable_parts [OF assms] by simp_all
  have "inj_on trDedupeKey (set (positions d))"
    using reachable_db_wf [OF assms] by (simp add: db_wf_def distinct_map)
  then have "p = q" if "p \<in> set (positions d)" "q \<in> set (positions d)" "row_key_text p = row_key_text q" for p q
    using c(2) that by (metis inj_onD keys_coherent_def)
  with c show ?thesis by (auto simp: deliveries_coherent_def keys_coherent_def order_coherent_def)
qed

text \<open>A position is archived and queued.\<close>
theorem reachable_coherent_witness:
  "\<exists>r. deliveries (snd (Archive sample_hash no_faults 0 (sample_record 42) (Some (sample_fix 42 0)) True empty_db)) = [r] \<and>
     delivery_coherent r"
proof -
  let ?d = "snd (Archive sample_hash no_faults 0 (sample_record 42) (Some (sample_fix 42 0)) True empty_db)"
  have "reachable sample_hash ?d"
    unfolding reachable_def by (rule r_into_rtranclp) (rule step_archive)
  note c = reachable_coherent [OF this]
  have "\<exists>r. deliveries ?d = [r]"
    using sample_archive [of 0] sample_fix_between [of 42 0]
    by (auto simp: Archive_def Let_def commit_def insert_packet_def insert_position_def insert_delivery_def
        position_of_key_def empty_db_def sample_record_def)
  with c show ?thesis by auto
qed

text \<open>
  C17: Nothing archived is lost or rewritten: along any sequence of operations the packet rows stay as
  they are, the positions keep their id, packet, key, node, coordinates and source time, and a delivery
  that is delivered or failed never changes again.
\<close>
theorem history_kept:
  assumes "(store_step sum256)\<^sup>*\<^sup>* d d'"
  shows "(\<exists>ps. packets d' = packets d @ ps) \<and>
    (\<exists>fs. map fact_of (positions d') = map fact_of (positions d) @ fs) \<and>
    (\<forall>r \<in> set (deliveries d). drState r \<noteq> Pending \<longrightarrow> r \<in> set (deliveries d'))"
proof -
  have e: "extends d d'" using assms by (rule steps_extend)
  then obtain kept new where k: "deliveries d' = kept @ new" "list_all2 settled (deliveries d) kept"
    by (auto simp: extends_def)
  have "list_all2 settled rs ks \<Longrightarrow> r \<in> set rs \<Longrightarrow> drState r \<noteq> Pending \<Longrightarrow> r \<in> set ks" for rs ks r
    by (induction rule: list_all2_induct) (auto simp: settled_def)
  with k have "\<forall>r \<in> set (deliveries d). drState r \<noteq> Pending \<longrightarrow> r \<in> set (deliveries d')" by auto
  with e show ?thesis unfolding extends_def by blast
qed

theorem history_kept_witness:
  "\<exists>ps. packets (snd (Archive sample_hash no_faults 0 (sample_record 42) None True (sample_queue 0 second))) =
     packets (sample_queue 0 second) @ ps"
proof -
  have "(store_step sample_hash)\<^sup>*\<^sup>* (sample_queue 0 second)
      (snd (Archive sample_hash no_faults 0 (sample_record 42) None True (sample_queue 0 second)))"
    by (rule r_into_rtranclp) (rule step_archive)
  from history_kept [OF this] show ?thesis by blast
qed

text \<open>
  C7: One observation is queued once, for ever: after a position was stored, and whatever happens
  since, archiving any packet whose position has the same key stores no second position and queues no
  delivery; when it succeeds it returns the id of the first.
\<close>
theorem observation_stored_once:
  assumes "reachable sum256 d" "Archive sum256 io now p (Some q) enqueue d = (Inr (i, j, True), d1)"
    and "(store_step sum256)\<^sup>*\<^sup>* d1 d2" "positionKey sum256 q' = positionKey sum256 q"
    and "Archive sum256 io' now' p' (Some q') enqueue' d2 = (r, d3)"
  shows "positions d3 = positions d2 \<and> deliveries d3 = deliveries d2 \<and>
    (case r of Inl e \<Rightarrow> True | Inr (i', j', inserted) \<Rightarrow> j' = j \<and> \<not> inserted)"
proof -
  have key: "\<exists>row \<in> set (positions d1). trId row = j \<and> trDedupeKey row = positionKey sum256 q"
    using assms(2) by (cases rule: Archive_cases)
      (auto simp: insert_packet_Inr insert_position_Inr insert_delivery_Inr split: if_splits)
  then obtain row where row: "row \<in> set (positions d2)" "trId row = j" "trDedupeKey row = positionKey sum256 q"
    using extends_key [OF steps_extend [OF assms(3)]] by (fastforce simp: fact_of_def)
  have "(store_step sum256)\<^sup>*\<^sup>* empty_db d2"
    using assms(1,3) step_archive [of sum256 d io now p "Some q" enqueue] unfolding reachable_def assms(2)
    by (auto intro: rtranclp_trans converse_rtranclp_into_rtranclp)
  then have "db_wf d2" by (intro reachable_db_wf) (simp add: reachable_def)
  then have inj: "inj_on trDedupeKey (set (positions d2))" by (simp add: db_wf_def distinct_map)
  from assms(5) show ?thesis
  proof (cases rule: Archive_cases)
    case (duplicate q'' row')
    then have "row' = row"
      using position_of_key_Some [OF duplicate(3)] row assms(4) inj by simp (metis inj_onD)
    with duplicate row show ?thesis by (auto simp: insert_packet_Inr)
  next
    case (stored q'' d1' d2')
    then show ?thesis using row assms(4) by (auto simp: position_of_key_None image_iff)
  qed auto
qed

text \<open>The same fix arrives a second time in another packet.\<close>
theorem observation_stored_once_witness:
  "\<exists>d1. Archive sample_hash no_faults 0 (sample_record 42) (Some (sample_fix 42 0)) True empty_db = (Inr (1, 1, True), d1) \<and>
     deliveries (snd (Archive sample_hash no_faults 5 (sample_record 42)
       (Some ((sample_fix 42 0)\<lparr>poMeshPacketID := 8\<rparr>)) True d1)) = deliveries d1"
proof -
  obtain d1 where d1: "Archive sample_hash no_faults 0 (sample_record 42) (Some (sample_fix 42 0)) True empty_db
      = (Inr (1, 1, True), d1)"
    using sample_archive by blast
  have r: "reachable sample_hash empty_db" by (simp add: reachable_def)
  have k: "positionKey sample_hash ((sample_fix 42 0)\<lparr>poMeshPacketID := 8\<rparr>) = positionKey sample_hash (sample_fix 42 0)"
    by (simp add: positionKey_def key_text_def)
  from observation_stored_once [OF r d1 rtranclp.rtrancl_refl k surjective_pairing]
  show ?thesis using d1 by blast
qed

end
