(* ===== verification/Web.thy ===== *)
theory Web
  imports StoreHistory
begin

text \<open>
  \<^verbatim>\<open>internal/web/server.go\<close>: the routes, the position endpoint and the JSON value it sends. A body
  is the page \<open>mapHTML\<close>, a plain text or a JSON value; the text of the JSON is not modelled, and the
  page's script is in \<open>MapPage\<close>. The properties follow a request down into the tables.
\<close>

section \<open>Responses\<close>

datatype json =
    JString string
  | JNumber f64
  | JInteger int
  | JTime time
  | JObject "(string \<times> json) list"
  | JArray "json list"

datatype body = NoBody | MapPage | PlainText string | Json json

record response =
  rsStatus :: int
  rsHeaders :: "(string \<times> string) list"
  rsBody :: body

text \<open>\<open>http.Error\<close> and \<open>http.NotFound\<close>.\<close>

definition http_error :: "string \<Rightarrow> int \<Rightarrow> response" where
  "http_error msg code =
     \<lparr>rsStatus = code, rsHeaders = [(''Content-Type'', ''text/plain; charset=utf-8''),
        (''X-Content-Type-Options'', ''nosniff'')], rsBody = PlainText msg\<rparr>"

record position_response =
  jrSourceID :: string
  jrSourcePort :: i32
  jrCallsign :: string
  jrDeviceCallsign :: string
  jrLatitude :: f64
  jrLongitude :: f64
  jrAltitude :: "f64 option"
  jrSpeed :: "f64 option"
  jrCourse :: "f64 option"
  jrLocationSource :: string
  jrPrecisionBits :: u32
  jrSourceTime :: time
  jrReceivedAt :: time

definition response_of :: "position \<Rightarrow> position_response" where
  "response_of p =
     \<lparr>jrSourceID = SourceID p, jrSourcePort = poSourcePort p, jrCallsign = poCallsign p,
      jrDeviceCallsign = poDeviceCallsign p, jrLatitude = poLatitude p, jrLongitude = poLongitude p,
      jrAltitude = poAltitude p, jrSpeed = poSpeed p, jrCourse = poCourse p,
      jrLocationSource = poLocationSource p, jrPrecisionBits = poPrecisionBits p,
      jrSourceTime = poSourceTime p, jrReceivedAt = poReceivedAt p\<rparr>"

section \<open>JSON\<close>

text \<open>The tags of \<open>positionResponse\<close>: \<open>omitempty\<close> drops an empty string, a nil pointer and a zero.\<close>

definition omit_empty :: "string \<Rightarrow> string \<Rightarrow> (string \<times> json) list" where
  "omit_empty key s = (if s = [] then [] else [(key, JString s)])"

definition omit_nil :: "string \<Rightarrow> f64 option \<Rightarrow> (string \<times> json) list" where
  "omit_nil key x = (case x of None \<Rightarrow> [] | Some v \<Rightarrow> [(key, JNumber v)])"

definition json_of :: "position_response \<Rightarrow> json" where
  "json_of r = JObject
     ([(''source_id'', JString (jrSourceID r)), (''source_port'', JInteger (sint (jrSourcePort r))),
       (''callsign'', JString (jrCallsign r))] @
      omit_empty ''device_callsign'' (jrDeviceCallsign r) @
      [(''latitude'', JNumber (jrLatitude r)), (''longitude'', JNumber (jrLongitude r))] @
      omit_nil ''altitude'' (jrAltitude r) @ omit_nil ''speed'' (jrSpeed r) @ omit_nil ''course'' (jrCourse r) @
      omit_empty ''location_source'' (jrLocationSource r) @
      (if jrPrecisionBits r = 0 then [] else [(''precision_bits'', JInteger (uint (jrPrecisionBits r)))]) @
      [(''source_time'', JTime (jrSourceTime r)), (''received_at'', JTime (jrReceivedAt r))])"

text \<open>What \<open>encoding/json\<close> refuses: a number that is no number, a year of more or less than four digits.\<close>

fun json_ok :: "json \<Rightarrow> bool" where
  "json_ok (JNumber x) = (case x of Fin r \<Rightarrow> True | _ \<Rightarrow> False)"
| "json_ok (JTime t) = four_digit_year t"
| "json_ok (JObject kvs) = (\<forall>kv \<in> set kvs. json_ok (snd kv))"
| "json_ok (JArray xs) = (\<forall>x \<in> set xs. json_ok x)"
| "json_ok _ = True"

definition Canceled :: go_error where
  "Canceled = NewError ''context canceled''"

datatype web_log = QueryFailed go_error | EncodeFailed go_error

text \<open>
  \<open>Encode\<close> builds the whole text before it writes, so a value that JSON refuses sends no body;
  \<open>writeErr\<close> is the outcome of the write.
\<close>

definition encode_body :: "json \<Rightarrow> go_error option \<Rightarrow> body \<times> go_error option" where
  "encode_body j writeErr =
     (if json_ok j then (Json j, writeErr) else (NoBody, Some (NewError ''json: unsupported value'')))"

section \<open>Handlers\<close>

definition servePositions :: "position list result \<Rightarrow> go_error option \<Rightarrow> response \<times> web_log list" where
  "servePositions queried writeErr =
     (case queried of
        Inl e \<Rightarrow> (http_error ''could not load positions'' 500, [QueryFailed e])
      | Inr ps \<Rightarrow>
          (case encode_body (JArray (map (\<lambda>p. json_of (response_of p)) ps)) writeErr of
             (b, err) \<Rightarrow>
               (\<lparr>rsStatus = 200, rsHeaders = [(''Content-Type'', ''application/json''),
                  (''Cache-Control'', ''no-store''), (''X-Content-Type-Options'', ''nosniff'')], rsBody = b\<rparr>,
                case err of
                  None \<Rightarrow> []
                | Some e \<Rightarrow> if errors_is e Canceled then [] else [EncodeFailed (WrapError ''encode positions'' e)])))"

definition serveMap :: "string \<Rightarrow> response" where
  "serveMap path =
     (if path \<noteq> ''/'' then http_error ''404 page not found'' 404
      else \<lparr>rsStatus = 200, rsHeaders = [(''Content-Type'', ''text/html; charset=utf-8''),
        (''X-Content-Type-Options'', ''nosniff'')], rsBody = MapPage\<rparr>)"

text \<open>
  The two patterns of the multiplexer, on a path it does not redirect: a \<open>GET\<close> pattern also takes
  \<open>HEAD\<close>, the more specific pattern wins, and another method is refused.
\<close>

definition serve :: "faults \<Rightarrow> db \<Rightarrow> go_error option \<Rightarrow> string \<Rightarrow> string \<Rightarrow> response \<times> web_log list" where
  "serve io d writeErr meth path =
     (if meth \<noteq> ''GET'' \<and> meth \<noteq> ''HEAD'' then (http_error ''Method Not Allowed'' 405, [])
      else if path = ''/api/positions'' then servePositions (Positions io d) writeErr
      else (serveMap path, []))"

record http_server =
  hsAddr :: string
  hsHandler :: "faults \<Rightarrow> db \<Rightarrow> go_error option \<Rightarrow> string \<Rightarrow> string \<Rightarrow> response \<times> web_log list"
  hsReadHeaderTimeout :: duration

definition NewServer :: "string \<Rightarrow> http_server" where
  "NewServer address = \<lparr>hsAddr = address, hsHandler = serve, hsReadHeaderTimeout = 5 * second\<rparr>"

section \<open>Lemmas\<close>

text \<open>The rows hold numbers, and times that \<open>formatTime\<close> wrote.\<close>

definition numbers_ok :: "db \<Rightarrow> bool" where
  "numbers_ok d \<longleftrightarrow> (\<forall>r \<in> set (positions d). \<forall>x \<in> {trAltitude r, trSpeed r, trCourse r}. x \<noteq> Some PosInf \<and>
     x \<noteq> Some NegInf \<and> x \<noteq> Some NaN)"

lemma between_finite: "between b x \<Longrightarrow> \<exists>r. x = Fin r"
  by (cases x) (auto simp: between_def f64_le_def)

lemma json_ok_row:
  assumes "db_wf d" "times_ok d" "numbers_ok d" "r \<in> set (positions d)" "scan_position r = Inr p"
  shows "json_ok (json_of (response_of p))"
proof -
  have b: "between 90 (trLatitude r)" "between 180 (trLongitude r)" using assms(1,4) by (simp_all add: db_wf_def)
  have t: "time_text (trSourceTime r)" "time_text (trReceivedAt r)" using assms(2,4) by (simp_all add: times_ok_def)
  have n: "\<forall>x \<in> {trAltitude r, trSpeed r, trCourse r}. x \<noteq> Some PosInf \<and> x \<noteq> Some NegInf \<and> x \<noteq> Some NaN"
    using assms(3,4) by (simp add: numbers_ok_def)
  have "poLatitude p = trLatitude r" "poLongitude p = trLongitude r" "poAltitude p = trAltitude r"
    "poSpeed p = trSpeed r" "poCourse p = trCourse r"
    "four_digit_year (poSourceTime p)" "four_digit_year (poReceivedAt p)"
    using assms(5) t by (auto simp: scan_position_def parseTime_def time_text_def split: option.splits sum.splits)
  with b n show ?thesis
    by (auto simp: json_of_def response_of_def omit_empty_def omit_nil_def split: option.splits f64.splits
        dest!: between_finite)
qed


lemma api_answer:
  assumes "db_wf d" "times_ok d" "numbers_ok d"
  shows "\<exists>ps. serve no_faults d None ''GET'' ''/api/positions'' =
      (\<lparr>rsStatus = 200, rsHeaders = [(''Content-Type'', ''application/json''), (''Cache-Control'', ''no-store''),
        (''X-Content-Type-Options'', ''nosniff'')], rsBody = Json (JArray (map (\<lambda>p. json_of (response_of p)) ps))\<rparr>, []) \<and>
    distinct (map SourceID ps) \<and> SourceID ` set ps = (\<lambda>r. NodeID (trSourceNode r)) ` set (positions d) \<and>
    (\<forall>p \<in> set ps. \<exists>r. is_latest d r \<and> scan_position r = Inr p) \<and>
    (\<forall>io e. io Query = Some e \<longrightarrow> rsStatus (fst (serve io d None ''GET'' ''/api/positions'')) = 500)"
proof -
  note wf = assms(1)
  obtain ps where ps: "Positions no_faults d = Inr ps" using Positions_ok [OF assms(2)] by blast
  note per = Positions_per_node [OF wf ps]
  have sid: "SourceID = NodeID \<circ> poSourceNode" by (auto simp: SourceID_def)
  have "json_ok (json_of (response_of p))" if "p \<in> set ps" for p
    using per that json_ok_row [OF wf assms(2,3)] by (force simp: is_latest_def)
  then have ok: "json_ok (JArray (map (\<lambda>p. json_of (response_of p)) ps))" by simp
  have "inj NodeID" by (auto simp: inj_def NodeID_inj)
  then have "distinct (map SourceID ps)"
    using per unfolding sid by (auto simp: distinct_map inj_on_def NodeID_inj)
  moreover have "SourceID ` set ps = (\<lambda>r. NodeID (trSourceNode r)) ` set (positions d)"
    using per unfolding sid image_comp [symmetric] by (simp add: image_image)
  moreover have "rsStatus (fst (serve io d None ''GET'' ''/api/positions'')) = 500" if "io Query = Some e" for io e
    using that by (simp add: serve_def servePositions_def Positions_def attempt_def http_error_def)
  ultimately show ?thesis
    using per ps ok
    by (intro exI [of _ ps]) (simp add: serve_def servePositions_def encode_body_def del: json_ok.simps)
qed

section \<open>Property\<close>

text \<open>
  The map shows every node once and at its latest position: on a database the bridge produced, a
  request for the positions is answered with status 200 and a JSON array with exactly one object per
  node that has a stored position, made from the row with the node's greatest source time; no value in
  it is one that JSON cannot express. A failing query gives status 500 and no position.
\<close>
theorem api_latest_positions:
  assumes "reachable sum256 d" "times_ok d" "numbers_ok d"
  shows "\<exists>ps. serve no_faults d None ''GET'' ''/api/positions'' =
      (\<lparr>rsStatus = 200, rsHeaders = [(''Content-Type'', ''application/json''), (''Cache-Control'', ''no-store''),
        (''X-Content-Type-Options'', ''nosniff'')], rsBody = Json (JArray (map (\<lambda>p. json_of (response_of p)) ps))\<rparr>, []) \<and>
    distinct (map SourceID ps) \<and> SourceID ` set ps = (\<lambda>r. NodeID (trSourceNode r)) ` set (positions d) \<and>
    (\<forall>p \<in> set ps. \<exists>r. is_latest d r \<and> scan_position r = Inr p) \<and>
    (\<forall>io e. io Query = Some e \<longrightarrow> rsStatus (fst (serve io d None ''GET'' ''/api/positions'')) = 500)"
  by (rule api_answer [OF reachable_db_wf [OF assms(1)] assms(2,3)])

theorem api_latest_positions_witness:
  "\<exists>ps. rsBody (fst (serve no_faults
      (snd (Archive sample_hash no_faults 0 (sample_record 42) (Some (sample_fix 42 0)) True empty_db)) None ''GET'' ''/api/positions''))
     = Json (JArray (map (\<lambda>p. json_of (response_of p)) ps)) \<and> SourceID ` set ps = {NodeID 42}"
proof -
  obtain d1 where a: "Archive sample_hash no_faults 0 (sample_record 42) (Some (sample_fix 42 0)) True empty_db = (Inr (1, 1, True), d1)"
    using sample_archive by blast
  have rows: "\<exists>i j k port. positions d1 = [position_row_of i j k port (sample_fix 42 0)]"
    using a by (cases rule: Archive_cases)
      (auto simp: insert_packet_Inr insert_position_Inr insert_delivery_Inr empty_db_def position_of_key_def)
  have "reachable sample_hash d1"
    using step_archive [of sample_hash empty_db no_faults 0 "sample_record 42" "Some (sample_fix 42 0)" True] a
    by (simp add: reachable_def r_into_rtranclp)
  moreover have "times_ok d1" "numbers_ok d1"
    using rows by (auto simp: times_ok_def numbers_ok_def position_row_of_def sample_fix_def stored_float_def
        four_digit_yearI second_def)
  moreover have "(\<lambda>r. NodeID (trSourceNode r)) ` set (positions d1) = {NodeID 42}"
    using rows by (auto simp: position_row_of_def sample_fix_def)
  ultimately show ?thesis using api_latest_positions [of sample_hash d1] a by auto
qed

end
