(* ===== verification/Framer.thy ===== *)
theory Framer
  imports Prelude "HOL-Library.Sublist"
begin

text \<open>
  The serial framing of \<^verbatim>\<open>internal/meshtastic/framer.go\<close>: a frame is the two start bytes,
  a big-endian 16-bit length and the payload. \<open>push\<close> is \<open>Framer.Push\<close> with the \<open>Framer\<close> it
  mutates passed explicitly; \<open>push_loop\<close> is its \<open>for\<close> loop over the buffer. The lemmas show
  that the loop ends, that the framer does not depend on how the stream is cut into reads, that
  it inverts \<open>encode_frame\<close>, that it skips noise, and how large its buffer can grow.
\<close>

section \<open>Definitions\<close>

definition frameStart1 :: byte where
  "frameStart1 = 0x94"

definition frameStart2 :: byte where
  "frameStart2 = 0xc3"

definition maxFrame :: nat where
  "maxFrame = 512"

record framer =
  buffer :: "byte list"

text \<open>\<open>findStart\<close> returns the index of the first start pair; \<open>None\<close> is the code's \<open>-1\<close>.\<close>

fun findStart :: "byte list \<Rightarrow> nat option" where
  "findStart (a # b # xs) =
     (if a = frameStart1 \<and> b = frameStart2 then Some 0
      else map_option Suc (findStart (b # xs)))"
| "findStart _ = None"

definition be_uint16 :: "byte \<Rightarrow> byte \<Rightarrow> nat" where
  "be_uint16 hi lo = unat hi * 256 + unat lo"

definition put_uint16 :: "nat \<Rightarrow> byte list" where
  "put_uint16 n = [word_of_nat (n div 256), word_of_nat n]"

definition invalid_length :: "nat \<Rightarrow> go_error" where
  "invalid_length n = NewError (''invalid Meshtastic frame length '' @ dec_nat n)"

text \<open>What is left of the buffer when it holds no start pair (the code's lines 24 to 31).\<close>

definition residue :: "byte list \<Rightarrow> byte list" where
  "residue buf = (if buf \<noteq> [] \<and> last buf = frameStart1 then [last buf] else [])"

lemma findStart_less: "findStart buf = Some i \<Longrightarrow> Suc i < length buf"
  by (induction buf arbitrary: i rule: findStart.induct) (auto split: if_splits)

function push_loop ::
  "byte list \<Rightarrow> byte list list \<Rightarrow> go_error list \<Rightarrow> byte list \<times> byte list list \<times> go_error list" where
  "push_loop buf frames errs =
     (case findStart buf of
        None \<Rightarrow> (residue buf, frames, errs)
      | Some start \<Rightarrow>
          (let b = drop start buf in
           if length b < 4 then (b, frames, errs)
           else
             (let size = be_uint16 (b ! 2) (b ! 3) in
              if size = 0 \<or> size > maxFrame
              then push_loop (drop 1 b) frames (errs @ [invalid_length size])
              else if length b < 4 + size then (b, frames, errs)
              else push_loop (drop (4 + size) b) (frames @ [take size (drop 4 b)]) errs)))"
  by pat_completeness auto
termination
  by (relation "measure (\<lambda>(buf, _, _). length buf)") (auto dest: findStart_less)

declare push_loop.simps [simp del]

definition push :: "framer \<Rightarrow> byte list \<Rightarrow> framer \<times> byte list list \<times> go_error list" where
  "push f data =
     (let (buf, frames, errs) = push_loop (buffer f @ data) [] []
      in (f\<lparr>buffer := buf\<rparr>, frames, errs))"

definition encode_frame :: "byte list \<Rightarrow> byte list result" where
  "encode_frame payload =
     (if length payload = 0 \<or> length payload > maxFrame
      then Inl (invalid_length (length payload))
      else Inr ([frameStart1, frameStart2] @ put_uint16 (length payload) @ payload))"

text \<open>Successive reads, as \<open>consume\<close> feeds them to one framer.\<close>

fun push_all :: "framer \<Rightarrow> byte list list \<Rightarrow> framer \<times> byte list list \<times> go_error list" where
  "push_all f [] = (f, [], [])"
| "push_all f (d # ds) =
     (let (f', fr, er) = push f d; (f'', frs, ers) = push_all f' ds
      in (f'', fr @ frs, er @ ers))"

definition init_framer :: framer where
  "init_framer = \<lparr>buffer = []\<rparr>"

section \<open>Start pairs\<close>

lemma starts_differ [simp]: "frameStart1 \<noteq> frameStart2" "frameStart2 \<noteq> frameStart1"
  by (simp_all add: frameStart1_def frameStart2_def)

lemma findStart_append_Some: "findStart xs = Some i \<Longrightarrow> findStart (xs @ ys) = Some i"
  by (induction xs arbitrary: i rule: findStart.induct) (auto split: if_splits)

lemma findStart_drop: "findStart xs = Some i \<Longrightarrow> findStart (drop i xs) = Some 0"
  by (induction xs arbitrary: i rule: findStart.induct) (auto split: if_splits)

lemma findStart_0: "findStart xs = Some 0 \<longleftrightarrow> (\<exists>ys. xs = frameStart1 # frameStart2 # ys)"
  by (cases xs rule: findStart.cases) auto

lemma findStart_Cons_other: "v \<noteq> frameStart1 \<Longrightarrow> findStart (v # ys) = map_option Suc (findStart ys)"
  by (cases ys) auto

lemma findStart_None_append:
  "findStart xs = None \<Longrightarrow>
     findStart (xs @ ys) = map_option (\<lambda>i. i + (length xs - length (residue xs))) (findStart (residue xs @ ys))"
  by (induction xs rule: findStart.induct)
    (auto simp: residue_def option.map_comp comp_def Suc_diff_le option.map_ident
      findStart_Cons_other split: if_splits)

lemma length_residue [simp]: "length (residue xs) \<le> 1"
  by (simp add: residue_def)

lemma residue_suffix: "drop (length xs - length (residue xs)) xs = residue xs"
  by (cases xs rule: rev_cases) (auto simp: residue_def)

section \<open>One iteration\<close>

text \<open>
  Every iteration first brings the buffer to its start pair. \<open>sync\<close> is that step; the loop only
  depends on the buffer through it.
\<close>

definition sync :: "byte list \<Rightarrow> byte list" where
  "sync buf = (case findStart buf of None \<Rightarrow> residue buf | Some i \<Rightarrow> drop i buf)"

lemma sync_append: "sync (xs @ ys) = sync (sync xs @ ys)"
proof (cases "findStart xs")
  case None
  have xs: "xs = take (length xs - length (residue xs)) xs @ residue xs"
    by (metis append_take_drop_id residue_suffix)
  let ?k = "length xs - length (residue xs)"
  have dr: "drop (i + ?k) (xs @ ys) = drop i (residue xs @ ys)" for i
  proof -
    have "drop (i + ?k) (xs @ ys) = drop i (drop ?k (xs @ ys))" by (simp add: add.commute)
    also have "drop ?k (xs @ ys) = residue xs @ ys" by (simp add: residue_suffix)
    finally show ?thesis .
  qed
  have "residue (xs @ ys) = residue (residue xs @ ys)"
    by (auto simp: residue_def)
  with None show ?thesis
    by (auto simp: sync_def findStart_None_append [OF None] dr simp del: drop_append split: option.splits)
next
  case (Some i)
  then have "i \<le> length xs" using findStart_less by fastforce
  then show ?thesis
    using Some findStart_append_Some [OF findStart_drop [OF Some], of ys]
      findStart_append_Some [OF Some, of ys] by (simp add: sync_def)
qed

lemma push_loop_cases:
  obtains (none) "\<And>fr er. push_loop buf fr er = (sync buf, fr, er)"
      "findStart (sync buf) = None \<or> length (sync buf) < 4"
  | (bad) size where "size = be_uint16 (sync buf ! 2) (sync buf ! 3)" "4 \<le> length (sync buf)"
      "findStart (sync buf) = Some 0" "size = 0 \<or> size > maxFrame" "sync buf = drop (length buf - length (sync buf)) buf"
      "\<And>fr er. push_loop buf fr er = push_loop (drop 1 (sync buf)) fr (er @ [invalid_length size])"
  | (short) size where "size = be_uint16 (sync buf ! 2) (sync buf ! 3)" "4 \<le> length (sync buf)"
      "findStart (sync buf) = Some 0" "0 < size" "size \<le> maxFrame" "length (sync buf) < 4 + size"
      "\<And>fr er. push_loop buf fr er = (sync buf, fr, er)"
  | (full) size where "size = be_uint16 (sync buf ! 2) (sync buf ! 3)" "4 + size \<le> length (sync buf)"
      "findStart (sync buf) = Some 0" "0 < size" "size \<le> maxFrame" "sync buf = drop (length buf - length (sync buf)) buf"
      "\<And>fr er. push_loop buf fr er =
         push_loop (drop (4 + size) (sync buf)) (fr @ [take size (drop 4 (sync buf))]) er"
proof (cases "findStart buf")
  case None
  have "findStart (residue buf) = None" by (simp add: residue_def)
  with None show ?thesis by (intro none) (simp_all add: push_loop.simps sync_def)
next
  case (Some i)
  then have s: "sync buf = drop i buf" by (simp add: sync_def)
  have z: "findStart (sync buf) = Some 0" using findStart_drop [OF Some] s by simp
  have d: "sync buf = drop (length buf - length (sync buf)) buf"
    using s findStart_less [OF Some] by simp
  let ?size = "be_uint16 (sync buf ! 2) (sync buf ! 3)"
  have eq: "push_loop buf fr er =
     (if length (sync buf) < 4 then (sync buf, fr, er)
      else if ?size = 0 \<or> ?size > maxFrame
        then push_loop (drop 1 (sync buf)) fr (er @ [invalid_length ?size])
      else if length (sync buf) < 4 + ?size then (sync buf, fr, er)
      else push_loop (drop (4 + ?size) (sync buf)) (fr @ [take ?size (drop 4 (sync buf))]) er)" for fr er
    by (subst push_loop.simps) (simp add: Some s Let_def)
  consider "length (sync buf) < 4" | "4 \<le> length (sync buf)" "?size = 0 \<or> ?size > maxFrame"
    | "4 \<le> length (sync buf)" "0 < ?size" "?size \<le> maxFrame" "length (sync buf) < 4 + ?size"
    | "0 < ?size" "?size \<le> maxFrame" "4 + ?size \<le> length (sync buf)"
    by linarith
  then show ?thesis
  proof cases
    case 1
    then show ?thesis by (intro none) (simp_all add: eq)
  next
    case 2
    then show ?thesis by (intro bad [OF refl]) (use d z eq in simp_all)
  next
    case 3
    then show ?thesis by (intro short [OF refl]) (use z eq in simp_all)
  next
    case 4
    then show ?thesis by (intro full [OF refl]) (use d z eq in simp_all)
  qed
qed

section \<open>The loop and the stream\<close>

lemma push_loop_sync: "push_loop buf fr er = push_loop (sync buf) fr er"
proof (cases "findStart buf")
  case None
  have "sync (residue buf) = residue buf"
    by (auto simp: sync_def residue_def)
  moreover have "findStart (residue buf) = None" by (simp add: residue_def)
  ultimately show ?thesis
    using None by (simp add: push_loop.simps sync_def)
next
  case (Some i)
  then have "sync buf = drop i buf" "findStart (sync buf) = Some 0"
    using findStart_drop [OF Some] by (simp_all add: sync_def)
  with Some show ?thesis by (simp add: push_loop.simps Let_def)
qed

lemma sync_idem [simp]: "sync (sync buf) = sync buf"
  using sync_append [of buf "[]"] by simp

lemma length_sync: "length (sync buf) \<le> length buf"
  by (cases buf) (auto simp: sync_def residue_def split: option.splits)

text \<open>The accumulators only ever grow at their end.\<close>

lemma push_loop_acc:
  "push_loop buf fr er = (let (b, f, e) = push_loop buf [] [] in (b, fr @ f, er @ e))"
proof (induction "length buf" arbitrary: buf fr er rule: less_induct)
  case less
  show ?case
  proof (cases buf rule: push_loop_cases)
    case none
    then show ?thesis by simp
  next
    case (bad size)
    then have "length (drop 1 (sync buf)) < length buf" using length_sync [of buf] by simp
    note IH = less [OF this]
    show ?thesis
      by (subst (1 2) bad(6), subst (1 2) IH) (simp add: split_beta Let_def)
  next
    case (short size)
    then show ?thesis by simp
  next
    case (full size)
    then have "length (drop (4 + size) (sync buf)) < length buf" using length_sync [of buf] by simp
    note IH = less [OF this]
    show ?thesis
      by (subst (1 2) full(7), subst (1 2) IH) (simp add: split_beta Let_def)
  qed
qed

text \<open>
  Running the loop on a prefix of the stream, then on what it left followed by the rest, is
  running it on the whole stream.
\<close>

lemma push_loop_append:
  "push_loop (xs @ ys) fr er =
     (let (r, f, e) = push_loop xs fr er in push_loop (r @ ys) f e)"
proof (induction "length xs" arbitrary: xs fr er rule: less_induct)
  case less
  have sync_rest: "push_loop (xs @ ys) fr er = push_loop (sync xs @ ys) fr er" for fr er
    by (metis push_loop_sync sync_append)
  show ?case
  proof (cases xs rule: push_loop_cases)
    case none
    then show ?thesis by (simp add: sync_rest)
  next
    case (short size)
    then show ?thesis by (simp add: sync_rest)
  next
    case (bad size)
    then have len: "length (drop 1 (sync xs)) < length xs" using length_sync [of xs] by simp
    have "findStart (sync xs @ ys) = Some 0" using bad(3) findStart_append_Some by blast
    then have "push_loop (sync xs @ ys) fr er =
        push_loop (drop 1 (sync xs) @ ys) fr (er @ [invalid_length size])"
      using bad(1,2,4) by (subst push_loop.simps) (simp add: Let_def nth_append)
    then show ?thesis
      using less [OF len] by (simp add: sync_rest bad(6))
  next
    case (full size)
    then have len: "length (drop (4 + size) (sync xs)) < length xs" using length_sync [of xs] by simp
    have "findStart (sync xs @ ys) = Some 0" using full(3) findStart_append_Some by blast
    then have "push_loop (sync xs @ ys) fr er =
        push_loop (drop (4 + size) (sync xs) @ ys) (fr @ [take size (drop 4 (sync xs))]) er"
      using full(1,2,4,5) by (subst push_loop.simps) (simp add: Let_def nth_append)
    then show ?thesis
      using less [OF len] by (simp add: sync_rest full(7))
  qed
qed

lemma push_append:
  "push f (xs @ ys) =
     (let (f', fr, er) = push f xs; (f'', fr', er') = push f' ys in (f'', fr @ fr', er @ er'))"
proof -
  obtain r g e where 1: "push_loop (buffer f @ xs) [] [] = (r, g, e)"
    by (cases "push_loop (buffer f @ xs) [] []") auto
  obtain r' g' e' where 2: "push_loop (r @ ys) [] [] = (r', g', e')"
    by (cases "push_loop (r @ ys) [] []") auto
  have "push_loop (buffer f @ xs @ ys) [] [] = push_loop (r @ ys) g e"
    using push_loop_append [of "buffer f @ xs" ys "[]" "[]"] 1 by simp
  also have "\<dots> = (r', g @ g', e @ e')"
    using push_loop_acc [of "r @ ys" g e] 2 by simp
  finally show ?thesis by (simp add: push_def 1 2)
qed

section \<open>The wire format\<close>

definition valid_payload :: "byte list \<Rightarrow> bool" where
  "valid_payload p \<longleftrightarrow> 0 < length p \<and> length p \<le> maxFrame"

abbreviation wire :: "byte list \<Rightarrow> byte list" where
  "wire p \<equiv> [frameStart1, frameStart2] @ put_uint16 (length p) @ p"

lemma encode_frame_valid: "valid_payload p \<Longrightarrow> encode_frame p = Inr (wire p)"
  by (simp add: encode_frame_def valid_payload_def)

lemma be_put_uint16:
  assumes "n < 65536"
  shows "be_uint16 (word_of_nat (n div 256)) (word_of_nat n) = n"
proof -
  have "n div 256 < 256" using assms by simp
  then show ?thesis by (simp add: be_uint16_def unat_of_nat take_bit_eq_mod)
qed

lemma byte_256: "(256 :: byte) = 0"
  by simp

lemma drop_header [simp]: "drop (4 + n) (a # b # c # d # ys) = drop n ys"
  by (simp add: numeral_eq_Suc)

lemma put_be_uint16: "put_uint16 (be_uint16 a b) = [a, b]"
proof -
  have "unat b < 2 ^ LENGTH(8)" by (rule unsigned_less)
  then have "unat b < 256" by simp
  then have "(unat a * 256 + unat b) div 256 = unat a" by simp
  moreover have "(word_of_nat (unat a * 256 + unat b) :: byte) = b"
  proof -
    have "(word_of_nat (unat a * 256 + unat b) :: byte) = a * 256 + b" by simp
    also have "\<dots> = b" by (subst byte_256) simp
    finally show ?thesis .
  qed
  ultimately show ?thesis by (simp add: put_uint16_def be_uint16_def)
qed

lemma findStart_noise:
  "findStart xs = None \<Longrightarrow> findStart (xs @ frameStart1 # frameStart2 # ys) = Some (length xs)"
  by (induction xs rule: findStart.induct) (auto simp: findStart_Cons_other split: if_splits)

text \<open>A buffer that starts with a header, spelled out byte by byte.\<close>

lemma header_shape:
  assumes "findStart b = Some 0" "4 \<le> length b"
  obtains h l ys where "b = [frameStart1, frameStart2, h, l] @ ys" "b ! 2 = h" "b ! 3 = l"
proof -
  from assms(1) obtain zs where zs: "b = frameStart1 # frameStart2 # zs"
    using findStart_0 by blast
  with assms(2) obtain h l ys where "zs = h # l # ys"
    by (cases zs rule: remdups_adj.cases) auto
  with zs that show ?thesis by simp
qed

lemma push_loop_noise_frame:
  assumes "findStart noise = None" "valid_payload p"
  shows "push_loop (noise @ wire p @ ys) fr er = push_loop ys (fr @ [p]) er"
proof -
  have len: "length p < 65536" using assms(2) by (simp add: valid_payload_def maxFrame_def)
  have s: "findStart (noise @ wire p @ ys) = Some (length noise)"
    using findStart_noise [OF assms(1)] by simp
  show ?thesis
    using assms(2) be_put_uint16 [OF len]
    by (subst push_loop.simps) (simp add: s [simplified put_uint16_def, simplified] put_uint16_def valid_payload_def Let_def)
qed

lemma push_loop_stream:
  "\<forall>(n, p) \<in> set nps. findStart n = None \<and> valid_payload p \<Longrightarrow>
   push_loop (concat (map (\<lambda>(n, p). n @ wire p) nps) @ ys) fr er
   = push_loop ys (fr @ map snd nps) er"
  using push_loop_noise_frame
  by (induction nps arbitrary: fr) auto

lemma push_loop_Nil [simp]: "push_loop [] fr er = ([], fr, er)"
  by (simp add: push_loop.simps residue_def)

lemma push_init_Nil [simp]: "push init_framer [] = (init_framer, [], [])"
  by (simp add: push_def init_framer_def)

text \<open>What the loop emits is a subsequence of what it read, header bytes included.\<close>

lemma push_loop_subseq:
  "push_loop buf [] [] = (r, fs, es) \<Longrightarrow>
     subseq (concat (map wire fs) @ r) buf \<and> (\<forall>f \<in> set fs. valid_payload f) \<and> length r \<le> maxFrame + 3"
proof (induction "length buf" arbitrary: buf r fs es rule: less_induct)
  case less
  have sub: "subseq (sync buf) buf"
  proof (cases "findStart buf")
    case None
    have "suffix (residue buf) buf" by (metis residue_suffix suffix_drop)
    with None show ?thesis by (simp add: sync_def suffix_imp_subseq)
  next
    case (Some i)
    then show ?thesis by (simp add: sync_def suffix_drop suffix_imp_subseq)
  qed
  show ?case
  proof (cases buf rule: push_loop_cases)
    case none
    from none(2) have "length (sync buf) \<le> 3"
      by (auto simp: sync_def le_Suc_eq dest: findStart_drop split: option.splits)
        (metis One_nat_def le_SucI length_residue numeral_3_eq_3)
    then show ?thesis using none(1) less.prems sub by simp
  next
    case (short size)
    then show ?thesis using less.prems sub by (auto simp: maxFrame_def)
  next
    case (bad size)
    let ?b = "drop (Suc 0) (sync buf)"
    have "length ?b < length buf" using bad(2) length_sync [of buf] by simp
    note IH = less.hyps [OF this]
    obtain r' f' e' where q: "push_loop ?b [] [] = (r', f', e')"
      by (cases "push_loop ?b [] []") auto
    have "push_loop buf [] [] = (r', f', [invalid_length size] @ e')"
      by (subst bad(6), subst push_loop_acc) (simp add: q)
    with less.prems have "r = r'" "fs = f'" by simp_all
    moreover have "subseq ?b buf"
      using subseq_order.trans [OF suffix_imp_subseq [OF suffix_drop] sub] .
    ultimately show ?thesis using IH [OF q] subseq_order.trans by blast
  next
    case (full size)
    let ?b = "drop (4 + size) (sync buf)" and ?p = "take size (drop 4 (sync buf))"
    have "length ?b < length buf" using full(2) length_sync [of buf] by simp
    note IH = less.hyps [OF this]
    obtain r' f' e' where q: "push_loop ?b [] [] = (r', f', e')"
      by (cases "push_loop ?b [] []") auto
    have "push_loop buf [] [] = (r', ?p # f', e')"
      by (subst full(7), subst push_loop_acc) (simp add: q)
    with less.prems have eqs: "r = r'" "fs = ?p # f'" by simp_all
    have "4 \<le> length (sync buf)" using full(2) by simp
    then obtain h l ys where hs: "sync buf = [frameStart1, frameStart2, h, l] @ ys"
        "sync buf ! 2 = h" "sync buf ! 3 = l"
      by (rule header_shape [OF full(3)])
    have len: "length ?p = size" using full(2) by simp
    have "put_uint16 size = [h, l]" using full(1) hs put_be_uint16 by simp
    then have w: "sync buf = wire ?p @ ?b" using hs(1) len by simp
    have "subseq (wire ?p @ concat (map wire f') @ r') (wire ?p @ ?b)"
      using IH [OF q] by (simp only: subseq_append' append_assoc)
    also have "wire ?p @ ?b = sync buf" by (rule w [symmetric])
    finally have "subseq (concat (map wire fs) @ r) (sync buf)" using eqs by simp
    then have "subseq (concat (map wire fs) @ r) buf" using sub by (rule subseq_order.trans)
    moreover have "valid_payload ?p" using len full(4,5) by (simp add: valid_payload_def)
    ultimately show ?thesis using IH [OF q] eqs by simp
  qed
qed

section \<open>Readers of a chunked stream\<close>

text \<open>
  What a caller that reads a stream in pieces needs of its framer: feeding two pieces one after
  the other is feeding their concatenation. \<open>run\<close> is such a caller.
\<close>

locale chunk_reader =
  fixes feed :: "'s \<Rightarrow> 'c list \<Rightarrow> 's \<times> 'o list \<times> 'e list"
    and start :: 's
    and run :: "'s \<Rightarrow> 'c list list \<Rightarrow> 's \<times> 'o list \<times> 'e list"
  assumes feed_append: "feed s (xs @ ys) =
      (let (s', o1, e1) = feed s xs; (s'', o2, e2) = feed s' ys in (s'', o1 @ o2, e1 @ e2))"
    and feed_start: "feed start [] = (start, [], [])"
    and run_Nil: "run s [] = (s, [], [])"
    and run_Cons: "run s (d # ds) =
      (let (s', o1, e1) = feed s d; (s'', o2, e2) = run s' ds in (s'', o1 @ o2, e1 @ e2))"
begin

lemma run_append: "run s (ds @ es) =
    (let (s', o1, e1) = run s ds; (s'', o2, e2) = run s' es in (s'', o1 @ o2, e1 @ e2))"
  by (induction ds arbitrary: s) (simp_all add: run_Nil run_Cons split_beta Let_def)

lemma run_feed: "run s (d # ds) = feed s (concat (d # ds))"
proof (induction ds arbitrary: s d)
  case Nil
  then show ?case by (simp add: run_Cons run_Nil split_beta Let_def)
next
  case (Cons d' ds)
  have "feed s (concat (d # d' # ds)) =
      (let (s', o1, e1) = feed s d; (s'', o2, e2) = run s' (d' # ds) in (s'', o1 @ o2, e1 @ e2))"
    by (simp add: feed_append [of s d] Cons.IH)
  then show ?case by (simp only: run_Cons [of s d])
qed

lemma run_start: "run start ds = feed start (concat ds)"
  by (cases ds) (simp_all add: run_Nil feed_start run_feed del: concat.simps(2))

end

interpretation fr: chunk_reader push init_framer push_all
  by unfold_locales (rule push_append, simp_all)

section \<open>Properties\<close>

text \<open>
  C28: However the serial reads cut the byte stream (in the middle of a start pair, of a header, of
  a payload), feeding the pieces to one \<open>Framer\<close> yields the same frames, the same errors and the
  same final buffer as feeding the whole stream at once.
\<close>
theorem framer_chunking: "push_all init_framer reads = push init_framer (concat reads)"
  by (rule fr.run_start)

text \<open>
  C9: \<open>Framer.Push\<close> inverts \<open>EncodeFrame\<close>: a stream of encoded frames, each preceded by any
  noise that holds no start pair (debug output, a stray first start byte), gives back exactly
  the payloads in order, no error, and an empty buffer.
\<close>
theorem framer_roundtrip:
  assumes "\<forall>(noise, p, w) \<in> set ts. findStart noise = None \<and> encode_frame p = Inr w"
  shows "push init_framer (concat (map (\<lambda>(noise, p, w). noise @ w) ts))
    = (init_framer, map (\<lambda>(noise, p, w). p) ts, [])"
proof -
  let ?nps = "map (\<lambda>(noise, p, w). (noise, p)) ts"
  have enc: "encode_frame p = Inr w \<Longrightarrow> valid_payload p \<and> w = wire p" for p w
    by (auto simp: encode_frame_def valid_payload_def split: if_splits)
  have "concat (map (\<lambda>(noise, p, w). noise @ w) ts) = concat (map (\<lambda>(n, p). n @ wire p) ?nps)"
    using assms enc by (induction ts) auto
  moreover have "\<forall>(n, p) \<in> set ?nps. findStart n = None \<and> valid_payload p"
    using assms enc by auto
  moreover have "map snd ?nps = map (\<lambda>(noise, p, w). p) ts" by auto
  ultimately show ?thesis
    using push_loop_stream [of ?nps "[]" "[]" "[]"]
    by (simp add: push_def init_framer_def)
qed

text \<open>Two frames, the first behind noise that ends in a lone first start byte.\<close>
theorem framer_roundtrip_witness:
  "push init_framer ([1, 2, 0x94] @ [0x94, 0xc3, 0, 3, 1, 2, 3] @ [] @ [0x94, 0xc3, 0, 2, 4, 5])
    = (init_framer, [[1, 2, 3], [4, 5]], [])"
  using framer_roundtrip [of "[([1, 2, 0x94], [1, 2, 3], [0x94, 0xc3, 0, 3, 1, 2, 3]),
      ([], [4, 5], [0x94, 0xc3, 0, 2, 4, 5])]"]
  by (simp add: frameStart1_def frameStart2_def encode_frame_def put_uint16_def maxFrame_def)

text \<open>
  The framer never makes a frame up: the frames of a \<open>Push\<close>, each with its header, followed by
  what stays in the buffer, are a subsequence of the bytes it was given, in order; every frame has
  1 to 512 bytes; and at most 515 bytes stay buffered, whatever the radio sends.
\<close>
theorem framer_sound:
  "case push f data of (f', frames, errs) \<Rightarrow>
     subseq (concat (map wire frames) @ buffer f') (buffer f @ data) \<and>
     list_all valid_payload frames \<and> length (buffer f') \<le> 515"
  using push_loop_subseq [of "buffer f @ data"]
  by (cases "push_loop (buffer f @ data) [] []")
    (auto simp: push_def maxFrame_def list_all_iff)

text \<open>
  A start pair followed by an impossible length costs one logged error and no valid frame: the
  framer drops one byte, looks for the next start pair and delivers the frame that follows.
\<close>
theorem framer_resync:
  assumes "be_uint16 h l = 0 \<or> be_uint16 h l > maxFrame"
    and "\<not> (h = frameStart1 \<and> l = frameStart2)"
    and "encode_frame p = Inr w"
  shows "push init_framer ([frameStart1, frameStart2, h, l] @ w)
    = (init_framer, [p], [invalid_length (be_uint16 h l)])"
proof -
  from assms(3) have p: "valid_payload p" "w = wire p"
    by (auto simp: encode_frame_def valid_payload_def split: if_splits)
  let ?noise = "[frameStart2, h, l]"
  have "findStart ?noise = None" using assms(2) by auto
  then have rest: "push_loop (?noise @ wire p) fr er = ([], fr @ [p], er)" for fr er
    using push_loop_noise_frame [of ?noise p "[]"] p(1) by simp
  have "push_loop ([frameStart1, frameStart2, h, l] @ w) [] []
      = push_loop (?noise @ wire p) [] [invalid_length (be_uint16 h l)]"
    using assms(1) p(2) by (subst push_loop.simps) (simp add: Let_def)
  then show ?thesis
    using rest by (simp add: push_def init_framer_def)
qed

theorem framer_resync_witness:
  "push init_framer ([0x94, 0xc3, 2, 1] @ [0x94, 0xc3, 0, 1, 9])
    = (init_framer, [[9]], [NewError ''invalid Meshtastic frame length 513''])"
  using framer_resync [of 2 1 "[9]" "[0x94, 0xc3, 0, 1, 9]"]
  by (simp add: frameStart1_def frameStart2_def encode_frame_def put_uint16_def maxFrame_def
      be_uint16_def invalid_length_def dec_nat.simps digit_char_def)

end
