(* ===== verification/Serial.thy ===== *)
theory Serial
  imports Framer GoTime "HOL-Library.Sublist"
begin

text \<open>
  The serial source of \<^verbatim>\<open>internal/meshtastic/serial.go\<close>: writing the configuration request, the loop
  that feeds what it reads to the framer and each decoded message to the handler, which is retried
  until it succeeds, and the loop that reconnects with a growing delay. Everything the source calls
  acts on a state \<open>'s\<close> and is in the record \<open>source\<close>: the port, the protobuf library, the handler, the
  context and the timer. The loops need not end, so their result is None when they do not return.
\<close>

section \<open>What the source is given\<close>

text \<open>
  A read returns the bytes it put into the buffer and the error; \<open>srDone\<close> is \<open>ctx.Err() != nil\<close> and
  \<open>srSleep\<close> the outcome of the \<open>select\<close> in \<open>sleep\<close>, which may change from one call to the next.
\<close>

record ('m, 's) source =
  srOpen :: "'s \<Rightarrow> go_error option \<times> 's"
  srClose :: "'s \<Rightarrow> go_error option \<times> 's"
  srRead :: "'s \<Rightarrow> (byte list \<times> go_error option) \<times> 's"
  srWrite :: "byte list \<Rightarrow> 's \<Rightarrow> (int \<times> go_error option) \<times> 's"
  srHandler :: "'m \<Rightarrow> 's \<Rightarrow> go_error option \<times> 's"
  srDone :: "'s \<Rightarrow> bool \<times> 's"
  srSleep :: "duration \<Rightarrow> 's \<Rightarrow> bool \<times> 's"
  srUint32 :: "'s \<Rightarrow> u32 \<times> 's"
  srInt64N :: "int \<Rightarrow> 's \<Rightarrow> int \<times> 's"
  srMarshalRequest :: "u32 \<Rightarrow> byte list result"
  srUnmarshal :: "byte list \<Rightarrow> 'm result"

definition EOF :: go_error where
  "EOF = NewError ''EOF''"

definition ErrShortWrite :: go_error where
  "ErrShortWrite = NewError ''short write''"

section \<open>Writing\<close>

text \<open>
  A writer that reports more bytes than it was given, or a negative number, makes the slice
  expression panic: the result None.
\<close>

function writeAll :: "('m, 's) source \<Rightarrow> byte list \<Rightarrow> 's \<Rightarrow> (go_error option \<times> 's) option" where
  "writeAll src data s =
     (if data = [] then Some (None, s)
      else (case srWrite src data s of
          ((n, Some e), s1) \<Rightarrow> Some (Some e, s1)
        | ((n, None), s1) \<Rightarrow>
            if n = 0 then Some (Some ErrShortWrite, s1)
            else if n < 0 \<or> int (length data) < n then None
            else writeAll src (drop (nat n) data) s1))"
  by pat_completeness auto
termination
  by (relation "measure (\<lambda>(src, data, s). length data)") auto

declare writeAll.simps [simp del]

lemma writeAll_preserves:
  assumes "\<And>bs s x s'. srWrite src bs s = (x, s') \<Longrightarrow> P s \<Longrightarrow> P s'"
  shows "writeAll src data s = Some (r, s') \<Longrightarrow> P s \<Longrightarrow> P s'"
proof (induction "length data" arbitrary: data s rule: less_induct)
  case less
  show ?case
  proof (cases "data = []")
    case True
    with less.prems show ?thesis by (simp add: writeAll.simps)
  next
    case False
    obtain n e s1 where w: "srWrite src data s = ((n, e), s1)" by (metis surj_pair)
    note k = assms [OF w less.prems(2)]
    show ?thesis
    proof (cases "e = None \<and> 0 < n \<and> n \<le> int (length data)")
      case True
      with less.prems(1) False w have "writeAll src (drop (nat n) data) s1 = Some (r, s')"
        by (subst (asm) writeAll.simps) simp
      with less.hyps [of "drop (nat n) data" s1] True False k show ?thesis by simp
    next
      case other: False
      with less.prems(1) False w k show ?thesis
        by (subst (asm) writeAll.simps) (auto split: option.splits if_splits)
    qed
  qed
qed

section \<open>Messages\<close>

definition next_backoff :: "duration \<Rightarrow> duration" where
  "next_backoff b = min (b * 2) (30 * second)"

text \<open>The loop around the handler: True when it succeeded, False when the context was cancelled.\<close>

partial_function (option) handle_message :: "('m, 's) source \<Rightarrow> 'm \<Rightarrow> duration \<Rightarrow> 's \<Rightarrow> (bool \<times> 's) option" where
  "handle_message src m backoff s =
     (case srHandler src m s of
        (None, s1) \<Rightarrow> Some (True, s1)
      | (Some e, s1) \<Rightarrow>
      (case srDone src s1 of
        (cancelled, s2) \<Rightarrow>
      if cancelled then Some (False, s2)
      else (case srSleep src backoff s2 of
          (elapsed, s3) \<Rightarrow>
        if \<not> elapsed then Some (False, s3)
        else handle_message src m (next_backoff backoff) s3)))"

fun handle_frames :: "('m, 's) source \<Rightarrow> byte list list \<Rightarrow> 's \<Rightarrow> (bool \<times> 's) option" where
  "handle_frames src [] s = Some (True, s)"
| "handle_frames src (encoded # frames) s =
     (case srUnmarshal src encoded of
        Inl e \<Rightarrow> handle_frames src frames s
      | Inr m \<Rightarrow>
          (case handle_message src m second s of
             None \<Rightarrow> None
           | Some (False, s1) \<Rightarrow> Some (False, s1)
           | Some (True, s1) \<Rightarrow> handle_frames src frames s1))"

text \<open>One round of the read loop: the framer goes on, or the loop returns (nil when cancelled).\<close>

definition read_error :: "go_error \<Rightarrow> go_error" where
  "read_error e = (if errors_is e EOF then EOF else WrapError ''read serial device'' e)"

datatype round = Again framer | Return "go_error option"

definition read_round :: "('m, 's) source \<Rightarrow> framer \<Rightarrow> 's \<Rightarrow> (round \<times> 's) option" where
  "read_round src fr s =
     (case srDone src s of
        (True, s1) \<Rightarrow> Some (Return None, s1)
      | (False, s1) \<Rightarrow>
      (case srRead src s1 of
        ((bs, readErr), s2) \<Rightarrow>
          (let (fr', frames, frameErrs) = (if bs = [] then (fr, [], []) else push fr bs) in
           case handle_frames src frames s2 of
             None \<Rightarrow> None
           | Some (False, s3) \<Rightarrow> Some (Return None, s3)
           | Some (True, s3) \<Rightarrow>
               Some (case readErr of Some e \<Rightarrow> Return (Some (read_error e)) | None \<Rightarrow> Again fr', s3))))"

partial_function (option) read_loop :: "('m, 's) source \<Rightarrow> framer \<Rightarrow> 's \<Rightarrow> (go_error option \<times> 's) option" where
  "read_loop src fr s =
     (case read_round src fr s of
        None \<Rightarrow> None
      | Some (Return r, s1) \<Rightarrow> Some (r, s1)
      | Some (Again fr', s1) \<Rightarrow> read_loop src fr' s1)"

definition config_id :: "u32 \<Rightarrow> u32" where
  "config_id r = (if r = 0 then 1 else r)"

definition consume :: "('m, 's) source \<Rightarrow> 's \<Rightarrow> (go_error option \<times> 's) option" where
  "consume src s =
     (case srUint32 src s of
        (r, s1) \<Rightarrow>
      (case srMarshalRequest src (config_id r) of
        Inl e \<Rightarrow> Some (Some (WrapError ''marshal configuration request'' e), s1)
      | Inr payload \<Rightarrow>
      (case encode_frame payload of
        Inl e \<Rightarrow> Some (Some e, s1)
      | Inr frame \<Rightarrow>
      (case writeAll src frame s1 of
        None \<Rightarrow> None
      | Some (Some e, s2) \<Rightarrow> Some (Some (WrapError ''write configuration request'' e), s2)
      | Some (None, s2) \<Rightarrow> read_loop src init_framer s2))))"

section \<open>Reconnecting\<close>

text \<open>\<open>rand.Int64N\<close> returns a number from 0 to its argument.\<close>

definition jitter :: "('m, 's) source \<Rightarrow> duration \<Rightarrow> 's \<Rightarrow> duration \<times> 's" where
  "jitter src d s = (case srInt64N src d s of (n, s1) \<Rightarrow> (d div 2 + n, s1))"

text \<open>
  One round of \<open>Run\<close>: None when it returns because the context is cancelled, otherwise the backoff to
  go on with.
\<close>

definition wait_jittered :: "('m, 's) source \<Rightarrow> duration \<Rightarrow> 's \<Rightarrow> duration option \<times> 's" where
  "wait_jittered src backoff s =
     (case jitter src backoff s of
        (d, s1) \<Rightarrow>
      (case srSleep src d s1 of
        (False, s2) \<Rightarrow> (None, s2)
      | (True, s2) \<Rightarrow> (Some (next_backoff backoff), s2)))"

definition connect_round :: "('m, 's) source \<Rightarrow> duration \<Rightarrow> 's \<Rightarrow> (duration option \<times> 's) option" where
  "connect_round src backoff s =
     (case srDone src s of
        (True, s1) \<Rightarrow> Some (None, s1)
      | (False, s1) \<Rightarrow>
      (case srOpen src s1 of
        (Some e, s2) \<Rightarrow> Some (wait_jittered src backoff s2)
      | (None, s2) \<Rightarrow>
      (case consume src s2 of
        None \<Rightarrow> None
      | Some (err, s3) \<Rightarrow>
      (case srClose src s3 of
        (closeErr, s4) \<Rightarrow>
      (case srDone src s4 of
        (True, s5) \<Rightarrow> Some (None, s5)
      | (False, s5) \<Rightarrow> Some (wait_jittered src second s5))))))"

partial_function (option) connect_loop :: "('m, 's) source \<Rightarrow> duration \<Rightarrow> 's \<Rightarrow> 's option" where
  "connect_loop src backoff s =
     (case connect_round src backoff s of
        None \<Rightarrow> None
      | Some (None, s1) \<Rightarrow> Some s1
      | Some (Some b, s1) \<Rightarrow> connect_loop src b s1)"

text \<open>\<open>Run\<close> refuses a source without opener or handler; the booleans say whether they are set.\<close>

definition Run :: "bool \<Rightarrow> bool \<Rightarrow> ('m, 's) source \<Rightarrow> 's \<Rightarrow> (go_error option \<times> 's) option" where
  "Run has_open has_handler src s =
     (if \<not> has_open \<or> \<not> has_handler
      then Some (Some (NewError ''Meshtastic source requires an opener and handler''), s)
      else map_option (\<lambda>s'. (None, s')) (connect_loop src second s))"


section \<open>Frames and messages\<close>

definition frames_of :: "framer \<Rightarrow> byte list \<Rightarrow> byte list list" where
  "frames_of fr bs = fst (snd (push fr bs))"

definition messages_in :: "(byte list \<Rightarrow> 'm result) \<Rightarrow> byte list list \<Rightarrow> 'm list" where
  "messages_in unmarshal frames = [m. encoded \<leftarrow> frames, m \<leftarrow> (case unmarshal encoded of Inl e \<Rightarrow> [] | Inr m \<Rightarrow> [m])]"

lemma messages_in_simps [simp]:
  "messages_in unmarshal [] = []"
  "messages_in unmarshal (encoded # frames) =
     (case unmarshal encoded of Inl e \<Rightarrow> [] | Inr m \<Rightarrow> [m]) @ messages_in unmarshal frames"
  "messages_in unmarshal (xs @ ys) = messages_in unmarshal xs @ messages_in unmarshal ys"
  by (simp_all add: messages_in_def split: sum.split)

definition settled_framer :: "framer \<Rightarrow> bool" where
  "settled_framer fr \<longleftrightarrow> push fr [] = (fr, [], [])"

lemma settled_init: "settled_framer init_framer"
  by (simp add: settled_framer_def)

lemma settled_push: "push fr bs = (fr', frames, errs) \<Longrightarrow> settled_framer fr'"
  using push_append [of fr bs "[]"] by (cases "push fr' []") (auto simp: settled_framer_def)

lemma frames_of_append:
  "push fr xs = (fr', frames, errs) \<Longrightarrow> frames_of fr (xs @ ys) = frames @ frames_of fr' ys"
  by (cases "push fr' ys") (simp add: frames_of_def push_append)

lemma frames_of_Nil: "settled_framer fr \<Longrightarrow> frames_of fr [] = []"
  by (simp add: frames_of_def settled_framer_def)

text \<open>What one round feeds to the framer; an empty read is not fed.\<close>

lemma round_feed:
  assumes "settled_framer fr" "(if bs = [] then (fr, [], []) else push fr bs) = (fr', frames, errs)"
  shows "push fr bs = (fr', frames, errs)" and "settled_framer fr'" and "frames_of fr bs = frames"
proof -
  show p: "push fr bs = (fr', frames, errs)" using assms by (auto simp: settled_framer_def split: if_splits)
  show "settled_framer fr'" by (rule settled_push [OF p])
  show "frames_of fr bs = frames" using p by (simp add: frames_of_def)
qed

section \<open>The handler's side\<close>

text \<open>
  \<open>input\<close> is what was read from the port, \<open>stored\<close> what the handler has stored, \<open>rows m\<close> what it
  stores for a message: all of it if it succeeds, nothing if it fails. Nothing else the read loop calls
  touches either, and only a read adds input. \<open>message_sink\<close> adds the calls before the loop.
\<close>

locale message_reader =
  fixes src :: "('m, 's) source"
    and input :: "'s \<Rightarrow> byte list"
    and stored :: "'s \<Rightarrow> 'r list"
    and rows :: "'m \<Rightarrow> 'r list"
  assumes on_handler: "srHandler src m s = (h, s') \<Longrightarrow>
      input s' = input s \<and> stored s' = stored s @ (if h = None then rows m else [])"
    and on_read: "srRead src s = ((bs, e), s') \<Longrightarrow> input s' = input s @ bs \<and> stored s' = stored s"
    and on_done: "srDone src s = (c, s') \<Longrightarrow> input s' = input s \<and> stored s' = stored s"
    and on_sleep: "srSleep src d s = (el, s') \<Longrightarrow> input s' = input s \<and> stored s' = stored s"
begin

definition stores :: "'s \<Rightarrow> 'm list \<Rightarrow> 's \<Rightarrow> bool" where
  "stores s ms s' \<longleftrightarrow> stored s' = stored s @ concat (map rows ms)"


lemma stores_Nil: "stores s [] s' \<longleftrightarrow> stored s' = stored s"
  by (simp add: stores_def)

lemma stores_trans: "stores s ms s1 \<Longrightarrow> stores s1 ms' s' \<Longrightarrow> stores s (ms @ ms') s'"
  by (simp add: stores_def)

lemma handle_message_stores:
  assumes "handle_message src' m backoff s = Some y" "src' = src"
  shows "input (snd y) = input s \<and> stores s (if fst y then [m] else []) (snd y)"
  using assms
proof (induction rule: handle_message.raw_induct [rotated 1, consumes 1, case_names 1])
  case (1 hm src' m backoff s y)
  obtain h s1 where h: "srHandler src m s = (h, s1)" by fastforce
  show ?case
  proof (cases h)
    case None
    with 1 h on_handler [OF h] show ?thesis by (auto simp: stores_def)
  next
    case (Some e)
    obtain c s2 where c: "srDone src s1 = (c, s2)" by fastforce
    obtain el s3 where el: "srSleep src backoff s2 = (el, s3)" by fastforce
    have keep: "input s1 = input s" "stored s1 = stored s" "input s2 = input s" "stored s2 = stored s"
      "input s3 = input s" "stored s3 = stored s"
      using on_handler [OF h] on_done [OF c] on_sleep [OF el] Some by simp_all
    show ?thesis
    proof (cases "c \<or> \<not> el")
      case True
      then have "y = (False, if c then s2 else s3)" using 1(2,3) h Some c el by (cases c) auto
      with keep show ?thesis by (simp add: stores_def)
    next
      case False
      then have "hm src m (next_backoff backoff) s3 = Some y" using 1(2,3) h Some c el by simp
      from 1(1) [OF this refl] keep show ?thesis by (simp add: stores_def)
    qed
  qed
qed

lemma handle_frames_stores:
  assumes "handle_frames src frames s = Some (b, s')"
  shows "input s' = input s \<and>
    (if b then stores s (messages_in (srUnmarshal src) frames) s'
     else \<exists>pre. prefix pre (messages_in (srUnmarshal src) frames) \<and> stores s pre s')"
  using assms
proof (induction frames arbitrary: s)
  case (Cons f frames)
  show ?case
  proof (cases "srUnmarshal src f")
    case (Inl e)
    with Cons show ?thesis by simp
  next
    case (Inr m)
    with Cons.prems obtain b1 s1 where h: "handle_message src m second s = Some (b1, s1)"
      by (auto split: option.splits)
    note one = handle_message_stores [OF h refl]
    show ?thesis
    proof (cases b1)
      case True
      with Cons.prems Inr h have r: "handle_frames src frames s1 = Some (b, s')" by simp
      from one True have s1: "input s1 = input s" "stores s [m] s1" by simp_all
      show ?thesis
      proof (cases b)
        case True
        with Cons.IH [OF r] s1 stores_trans [OF s1(2)] Inr show ?thesis by simp
      next
        case False
        with Cons.IH [OF r] obtain pre where "prefix pre (messages_in (srUnmarshal src) frames)" "stores s1 pre s'" "input s' = input s1"
          by auto
        with s1 stores_trans [OF s1(2)] Inr False show ?thesis
          by (intro conjI) (auto intro!: exI [of _ "m # pre"])
      qed
    next
      case False
      with Cons.prems Inr h one have "b = False" "input s' = input s" "stores s [] s'" by auto
      then show ?thesis by (auto intro!: exI [of _ "[]"])
    qed
  qed
qed (simp add: stores_Nil)

text \<open>
  What a run of the loop did: it read \<open>bs\<close> and handled the messages in its frames in order, all of
  them if it was ended by an error of the port.
\<close>

definition handled :: "framer \<Rightarrow> 's \<Rightarrow> byte list \<Rightarrow> bool \<Rightarrow> 's \<Rightarrow> bool" where
  "handled fr s bs complete_run s' \<longleftrightarrow> input s' = input s @ bs \<and>
     (\<exists>pre. prefix pre (messages_in (srUnmarshal src) (frames_of fr bs)) \<and> stores s pre s' \<and>
        (complete_run \<longrightarrow> pre = messages_in (srUnmarshal src) (frames_of fr bs)))"

lemma read_round_handled:
  assumes "settled_framer fr" "read_round src fr s = Some (rd, s')"
  obtains (returned) r bs where "rd = Return r" "handled fr s bs (r \<noteq> None) s'"
  | (again) fr' bs frames errs where "rd = Again fr'" "settled_framer fr'" "push fr bs = (fr', frames, errs)"
      "input s' = input s @ bs" "stores s (messages_in (srUnmarshal src) frames) s'"
proof -
  obtain c s1 where c: "srDone src s = (c, s1)" by fastforce
  have k1: "input s1 = input s" "stored s1 = stored s" using on_done [OF c] by simp_all
  show ?thesis
  proof (cases c)
    case True
    with assms c k1 frames_of_Nil [OF assms(1)] show ?thesis
      by (intro returned [of None "[]"]) (auto simp: read_round_def handled_def stores_def)
  next
    case False
    obtain bs e s2 where r: "srRead src s1 = ((bs, e), s2)" by (metis surj_pair)
    have k2: "input s2 = input s @ bs" "stored s2 = stored s" using on_read [OF r] k1 by simp_all
    obtain fr' frames errs where fd: "(if bs = [] then (fr, [], []) else push fr bs) = (fr', frames, errs)"
      by (metis surj_pair)
    note feed = round_feed [OF assms(1) fd]
    obtain b s3 where h: "handle_frames src frames s2 = Some (b, s3)"
      using assms(2) False c r fd by (auto simp: read_round_def Let_def split: option.splits)
    note hs = handle_frames_stores [OF h]
    show ?thesis
    proof (cases b)
      case False
      with assms(2) \<open>\<not> c\<close> c r fd h have "rd = Return None" "s' = s3" by (simp_all add: read_round_def)
      with hs False k2 feed show ?thesis
        by (intro returned [of None bs]) (auto simp: handled_def stores_def)
    next
      case True
      with assms(2) \<open>\<not> c\<close> c r fd h
      have rd: "rd = (case e of Some e \<Rightarrow> Return (Some (read_error e)) | None \<Rightarrow> Again fr')" "s' = s3"
        by (simp_all add: read_round_def)
      have st: "input s3 = input s @ bs" "stores s (messages_in (srUnmarshal src) frames) s3"
        using hs True k2 by (simp_all add: stores_def)
      show ?thesis
      proof (cases e)
        case None
        with rd feed st show ?thesis by (intro again [of fr' bs frames errs]) simp_all
      next
        case (Some err)
        with rd feed st show ?thesis by (intro returned [of "Some (read_error err)" bs]) (auto simp: handled_def)
      qed
    qed
  qed
qed

lemma read_loop_handled:
  assumes "read_loop src' fr s = Some y" "src' = src" "settled_framer fr"
  shows "\<exists>bs. handled fr s bs (fst y \<noteq> None) (snd y)"
  using assms
proof (induction rule: read_loop.raw_induct [rotated 1, consumes 1, case_names 1])
  case (1 rl src' fr s y)
  then obtain rd s1 where r: "read_round src fr s = Some (rd, s1)" by (auto split: option.splits)
  from 1(4) r show ?case
  proof (cases rule: read_round_handled)
    case (returned ret bs)
    with 1(2,3) r show ?thesis by auto
  next
    case (again fr' bs frames errs)
    then have "rl src fr' s1 = Some y" using 1(2,3) r by simp
    from 1(1) [OF this refl again(2)] obtain bs' where "handled fr' s1 bs' (fst y \<noteq> None) (snd y)" by blast
    then obtain pre where pre: "input (snd y) = input s1 @ bs'" "prefix pre (messages_in (srUnmarshal src) (frames_of fr' bs'))"
      "stores s1 pre (snd y)" "fst y \<noteq> None \<longrightarrow> pre = messages_in (srUnmarshal src) (frames_of fr' bs')"
      by (auto simp: handled_def)
    have "messages_in (srUnmarshal src) (frames_of fr (bs @ bs')) = messages_in (srUnmarshal src) frames @ messages_in (srUnmarshal src) (frames_of fr' bs')"
      by (simp add: frames_of_append [OF again(3)])
    with pre again(4) stores_trans [OF again(5) pre(3)] have "handled fr s (bs @ bs') (fst y \<noteq> None) (snd y)"
      unfolding handled_def by (intro conjI exI [of _ "messages_in (srUnmarshal src) frames @ pre"]) auto
    then show ?thesis ..
  qed
qed

end

section \<open>Everything the source calls\<close>

locale message_sink = message_reader src input stored rows
  for src :: "('m, 's) source"
    and input :: "'s \<Rightarrow> byte list"
    and stored :: "'s \<Rightarrow> 'r list"
    and rows :: "'m \<Rightarrow> 'r list" +
  assumes on_write: "srWrite src bs s = (w, s') \<Longrightarrow> input s' = input s \<and> stored s' = stored s"
    and on_random: "srUint32 src s = (u, s') \<Longrightarrow> input s' = input s \<and> stored s' = stored s"
begin

lemma writeAll_keeps:
  assumes "writeAll src data s = Some (r, s')"
  shows "input s' = input s \<and> stored s' = stored s"
  by (rule writeAll_preserves [where P = "\<lambda>t. input t = input s \<and> stored t = stored s", OF _ assms])
    (use on_write in fastforce)+

lemma consume_handled:
  assumes "consume src s = Some (r, s')"
  shows "\<exists>bs. handled init_framer s bs (r \<noteq> None) s'"
proof -
  have none: "handled init_framer s [] b s'" if "input s' = input s" "stored s' = stored s" for b
    using that frames_of_Nil [OF settled_init] by (auto simp: handled_def stores_def)
  obtain u s1 where u: "srUint32 src s = (u, s1)" by fastforce
  note k1 = on_random [OF u]
  show ?thesis
  proof (cases "\<exists>payload frame. srMarshalRequest src (config_id u) = Inr payload \<and> encode_frame payload = Inr frame")
    case False
    with assms u k1 none show ?thesis by (auto simp: consume_def split: sum.splits)
  next
    case True
    then obtain payload frame where p: "srMarshalRequest src (config_id u) = Inr payload" "encode_frame payload = Inr frame"
      by blast
    obtain w s2 where w: "writeAll src frame s1 = Some (w, s2)"
      using assms u p by (auto simp: consume_def split: option.splits)
    note k2 = writeAll_keeps [OF w]
    show ?thesis
    proof (cases w)
      case None
      then have "read_loop src init_framer s2 = Some (r, s')" using assms u p w by (simp add: consume_def)
      from read_loop_handled [OF this refl settled_init] k1 k2 show ?thesis by (auto simp: handled_def stores_def)
    next
      case (Some e)
      with assms u p w k1 k2 none show ?thesis by (auto simp: consume_def)
    qed
  qed
qed

end

section \<open>The request\<close>

text \<open>
  \<open>written\<close> is what has reached the port: a write adds the first \<open>n\<close> bytes, \<open>n\<close> being the count it
  reports, with or without an error. The read loop writes nothing.
\<close>

locale request_writer = message_reader src input written "\<lambda>m. []"
  for src :: "('m, 's) source"
    and input :: "'s \<Rightarrow> byte list"
    and written :: "'s \<Rightarrow> byte list" +
  assumes write_adds: "srWrite src bs s = ((n, e), s') \<Longrightarrow> input s' = input s \<and> written s' = written s @ take (nat n) bs"
    and random_adds: "srUint32 src s = (u, s') \<Longrightarrow> input s' = input s \<and> written s' = written s"
begin

lemma writeAll_written:
  assumes "writeAll src data s = Some (r, s')"
  shows "input s' = input s \<and> (\<exists>k. written s' = written s @ take k data) \<and> (r = None \<longrightarrow> written s' = written s @ data)"
  using assms
proof (induction "length data" arbitrary: data s rule: less_induct)
  case less
  show ?case
  proof (cases "data = []")
    case True
    with less.prems show ?thesis by (auto simp: writeAll.simps)
  next
    case False
    obtain n e s1 where w: "srWrite src data s = ((n, e), s1)" by (metis surj_pair)
    note k = write_adds [OF w]
    show ?thesis
    proof (cases "e = None \<and> 0 < n \<and> n \<le> int (length data)")
      case True
      with less.prems False w have "writeAll src (drop (nat n) data) s1 = Some (r, s')"
        by (subst (asm) writeAll.simps) simp
      moreover have "length (drop (nat n) data) < length data" using True False by simp
      ultimately obtain j where j: "input s' = input s1" "written s' = written s1 @ take j (drop (nat n) data)"
          "r = None \<longrightarrow> written s' = written s1 @ drop (nat n) data"
        using less.hyps by blast
      then have "written s' = written s @ take (nat n + j) data" using k by (simp add: take_add)
      with j(1,3) k show ?thesis by auto
    next
      case other: False
      then have "r \<noteq> None \<and> s' = s1"
        using less.prems False w by (subst (asm) writeAll.simps) (auto split: option.splits if_splits)
      with k show ?thesis by auto
    qed
  qed
qed

lemma read_loop_written:
  assumes "read_loop src init_framer s = Some (r, s')"
  shows "written s' = written s"
proof -
  have none: "concat (map (\<lambda>m. []) xs) = ([] :: byte list)" for xs :: "'m list" by (induction xs) simp_all
  show ?thesis
    using read_loop_handled [OF assms refl settled_init] by (auto simp: handled_def stores_def none)
qed

lemma consume_written:
  assumes "consume src s = Some (r, s')"
  obtains (requested) u s1 payload where "srUint32 src s = (u, s1)" "srMarshalRequest src (config_id u) = Inr payload"
      "encode_frame payload = Inr (wire payload)" "written s' = written s @ wire payload"
  | (not_requested) "r \<noteq> None" "input s' = input s"
      "written s' = written s \<or> (\<exists>u payload k. srMarshalRequest src (config_id u) = Inr payload \<and>
         written s' = written s @ take k (wire payload))"
proof -
  obtain u s1 where u: "srUint32 src s = (u, s1)" by fastforce
  note k1 = random_adds [OF u]
  show ?thesis
  proof (cases "\<exists>payload frame. srMarshalRequest src (config_id u) = Inr payload \<and> encode_frame payload = Inr frame")
    case False
    with assms u k1 not_requested show ?thesis by (auto simp: consume_def split: sum.splits)
  next
    case True
    then obtain payload where p: "srMarshalRequest src (config_id u) = Inr payload" "encode_frame payload = Inr (wire payload)"
      by (auto simp: encode_frame_def split: if_splits)
    obtain x s2 where w: "writeAll src (wire payload) s1 = Some (x, s2)"
      using assms u p by (auto simp: consume_def split: option.splits)
    note k2 = writeAll_written [OF w]
    show ?thesis
    proof (cases x)
      case None
      then have "read_loop src init_framer s2 = Some (r, s')" using assms u p w by (simp add: consume_def)
      with read_loop_written k1 k2 None requested [OF u p] show ?thesis by simp
    next
      case (Some e)
      with assms u p w have "r \<noteq> None" "s' = s2" by (auto simp: consume_def)
      with k1 k2 p(1) show ?thesis by (intro not_requested) auto
    qed
  qed
qed

end

end
