(* ===== verification/SerialLive.thy ===== *)
theory SerialLive
  imports Serial
begin

text \<open>
  Total correctness of the serial source's loops: the locale \<open>patient_source\<close> adds to
  \<open>message_sink\<close> what makes them return: nobody cancels, the handler fails only finitely often in a
  row, and the port reports an error at some point. Then \<open>consume\<close> returns with every message of every
  byte read handled. The rest is about \<open>Run\<close>: why it returns, that it closes its ports (\<open>port_holder\<close>), and what
  it sleeps (\<open>sleep_log\<close>).
\<close>

section \<open>When the loops return\<close>

text \<open>
  \<open>patience\<close> bounds how often the handler can still fail, \<open>ahead\<close> counts the reads up to the one that
  reports an error, and \<open>upcoming\<close> is what all these reads return.
\<close>

locale patient_source = message_sink src input stored rows
  for src :: "('m, 's) source"
    and input :: "'s \<Rightarrow> byte list"
    and stored :: "'s \<Rightarrow> 'r list"
    and rows :: "'m \<Rightarrow> 'r list" +
  fixes inv :: "'s \<Rightarrow> bool"
    and fit :: "'m \<Rightarrow> bool"
    and patience :: "'s \<Rightarrow> nat"
    and ahead :: "'s \<Rightarrow> nat"
    and upcoming :: "'s \<Rightarrow> byte list"
  assumes live_handler: "inv s \<Longrightarrow> fit m \<Longrightarrow> srHandler src m s = (h, s') \<Longrightarrow>
      inv s' \<and> (h \<noteq> None \<longrightarrow> patience s' < patience s) \<and> ahead s' = ahead s \<and> upcoming s' = upcoming s"
    and live_done: "inv s \<Longrightarrow> srDone src s = (c, s') \<Longrightarrow>
      \<not> c \<and> inv s' \<and> patience s' \<le> patience s \<and> ahead s' = ahead s \<and> upcoming s' = upcoming s"
    and live_sleep: "inv s \<Longrightarrow> srSleep src d s = (el, s') \<Longrightarrow>
      el \<and> inv s' \<and> patience s' \<le> patience s \<and> ahead s' = ahead s \<and> upcoming s' = upcoming s"
    and live_read: "inv s \<Longrightarrow> 0 < ahead s \<Longrightarrow> srRead src s = ((bs, e), s') \<Longrightarrow>
      inv s' \<and> (if e = None then 0 < ahead s' \<and> ahead s' < ahead s \<and> upcoming s = bs @ upcoming s'
        else upcoming s = bs)"
    and live_write: "inv s \<Longrightarrow> bs \<noteq> [] \<Longrightarrow> srWrite src bs s = ((n, e), s') \<Longrightarrow>
      e = None \<and> 0 < n \<and> n \<le> int (length bs) \<and> inv s' \<and> ahead s' = ahead s \<and> upcoming s' = upcoming s"
    and live_random: "inv s \<Longrightarrow> srUint32 src s = (u, s') \<Longrightarrow> inv s' \<and> ahead s' = ahead s \<and> upcoming s' = upcoming s"
    and live_request: "inv s \<Longrightarrow> \<exists>payload. srMarshalRequest src u = Inr payload \<and> valid_payload payload"
begin

lemma handle_message_returns:
  assumes "inv s" "fit m"
  shows "\<exists>s'. handle_message src m backoff s = Some (True, s') \<and> inv s' \<and> ahead s' = ahead s \<and> upcoming s' = upcoming s"
  using assms
proof (induction "patience s" arbitrary: s backoff rule: less_induct)
  case less
  obtain h s1 where h: "srHandler src m s = (h, s1)" by fastforce
  note l1 = live_handler [OF less.prems h]
  show ?case
  proof (cases h)
    case None
    with h l1 show ?thesis by (subst handle_message.simps) simp
  next
    case (Some e)
    obtain c s2 where c: "srDone src s1 = (c, s2)" by fastforce
    have l2: "\<not> c" "inv s2" "patience s2 \<le> patience s1" "ahead s2 = ahead s1" "upcoming s2 = upcoming s1"
      using live_done [OF _ c] l1 by simp_all
    obtain el s3 where el: "srSleep src backoff s2 = (el, s3)" by fastforce
    have l3: "el" "inv s3" "patience s3 \<le> patience s2" "ahead s3 = ahead s2" "upcoming s3 = upcoming s2"
      using live_sleep [OF l2(2) el] by simp_all
    have "patience s3 < patience s" using l1 Some l2(3) l3(3) by simp
    from less.hyps [OF this l3(2) less.prems(2), of "next_backoff backoff"] l1 l2 l3 h Some c el
    show ?thesis by (subst handle_message.simps) simp
  qed
qed

lemma handle_frames_returns:
  assumes "inv s" "\<forall>m \<in> set (messages_in (srUnmarshal src) frames). fit m"
  shows "\<exists>s'. handle_frames src frames s = Some (True, s') \<and> inv s' \<and> ahead s' = ahead s \<and> upcoming s' = upcoming s"
  using assms
proof (induction frames arbitrary: s)
  case (Cons f frames)
  show ?case
  proof (cases "srUnmarshal src f")
    case (Inl e)
    with Cons show ?thesis by simp
  next
    case (Inr m)
    with Cons.prems have "fit m" by simp
    from handle_message_returns [OF Cons.prems(1) this, of second] obtain s1 where
      s1: "handle_message src m second s = Some (True, s1)" "inv s1" "ahead s1 = ahead s" "upcoming s1 = upcoming s"
      by blast
    with Cons.IH [OF s1(2)] Cons.prems(2) Inr show ?thesis by simp
  qed
qed simp

lemma read_loop_returns:
  assumes "inv s" "0 < ahead s" "settled_framer fr" "\<forall>m \<in> set (messages_in (srUnmarshal src) (frames_of fr (upcoming s))). fit m"
  shows "\<exists>e s'. read_loop src fr s = Some (Some e, s') \<and> input s' = input s @ upcoming s"
  using assms
proof (induction "ahead s" arbitrary: s fr rule: less_induct)
  case less
  obtain c s1 where c: "srDone src s = (c, s1)" by fastforce
  have l1: "\<not> c" "inv s1" "ahead s1 = ahead s" "upcoming s1 = upcoming s" "input s1 = input s"
    using live_done [OF less.prems(1) c] on_done [OF c] by simp_all
  obtain bs e s2 where r: "srRead src s1 = ((bs, e), s2)" by (metis surj_pair)
  have a1: "0 < ahead s1" using l1(3) less.prems(2) by simp
  note l2 = live_read [OF l1(2) a1 r] on_read [OF r]
  obtain fr' frames errs where fd: "(if bs = [] then (fr, [], []) else push fr bs) = (fr', frames, errs)"
    by (metis surj_pair)
  note feed = round_feed [OF less.prems(3) fd]
  have up: "frames_of fr (upcoming s) = frames @ (if e = None then frames_of fr' (upcoming s2) else [])"
    using l2 l1(4) frames_of_append [OF feed(1)] feed(3) by (cases e) simp_all
  have "\<forall>m \<in> set (messages_in (srUnmarshal src) frames). fit m" using less.prems(4) up by simp
  from handle_frames_returns [OF conjunct1 [OF l2(1)] this] obtain s3 where
    h: "handle_frames src frames s2 = Some (True, s3)" "inv s3" "ahead s3 = ahead s2" "upcoming s3 = upcoming s2"
    by blast
  have i3: "input s3 = input s @ bs" using handle_frames_stores [OF h(1)] l2(2) l1(5) by simp
  have round: "read_round src fr s = Some (case e of Some e \<Rightarrow> Return (Some (read_error e)) | None \<Rightarrow> Again fr', s3)"
    using c l1(1) r fd h(1) by (simp add: read_round_def)
  show ?case
  proof (cases e)
    case None
    then have "ahead s3 < ahead s" and a3: "0 < ahead s3" using l2(1) l1(3) h(3) by simp_all
    moreover have "\<forall>m \<in> set (messages_in (srUnmarshal src) (frames_of fr' (upcoming s3))). fit m"
      using less.prems(4) up None h(4) by simp
    ultimately obtain e' s' where "read_loop src fr' s3 = Some (Some e', s')" "input s' = input s3 @ upcoming s3"
      using less.hyps [OF _ h(2) a3 feed(2)] by blast
    with round None i3 l2(1) l1(4) h(4) show ?thesis by (subst read_loop.simps) simp
  next
    case (Some err)
    with round i3 l2(1) l1(4) show ?thesis by (subst read_loop.simps) simp
  qed
qed

lemma writeAll_returns:
  assumes "inv s"
  shows "\<exists>s'. writeAll src data s = Some (None, s') \<and> inv s' \<and> ahead s' = ahead s \<and> upcoming s' = upcoming s"
  using assms
proof (induction "length data" arbitrary: data s rule: less_induct)
  case less
  show ?case
  proof (cases "data = []")
    case False
    obtain n e s1 where w: "srWrite src data s = ((n, e), s1)" by (metis surj_pair)
    note l = live_write [OF less.prems False w]
    have "length (drop (nat n) data) < length data" using l False by (simp add: nat_le_iff)
    from less.hyps [OF this, of s1] l w False show ?thesis by (subst writeAll.simps) simp
  qed (use less.prems in \<open>simp add: writeAll.simps\<close>)
qed

lemma consume_returns:
  assumes "inv s" "0 < ahead s" "\<forall>m \<in> set (messages_in (srUnmarshal src) (frames_of init_framer (upcoming s))). fit m"
  shows "\<exists>e s'. consume src s = Some (Some e, s') \<and> input s' = input s @ upcoming s \<and>
    stores s (messages_in (srUnmarshal src) (frames_of init_framer (upcoming s))) s'"
proof -
  obtain u s1 where u: "srUint32 src s = (u, s1)" by fastforce
  obtain payload where p: "srMarshalRequest src (config_id u) = Inr payload" "encode_frame payload = Inr (wire payload)"
    using live_request [OF assms(1)] encode_frame_valid by metis
  obtain s2 where w: "writeAll src (wire payload) s1 = Some (None, s2)" "inv s2" "ahead s2 = ahead s1" "upcoming s2 = upcoming s1"
    using writeAll_returns live_random [OF assms(1) u] by metis
  have l: "upcoming s2 = upcoming s" "input s2 = input s" "0 < ahead s2"
    using w(3,4) assms(2) live_random [OF assms(1) u] on_random [OF u] writeAll_keeps [OF w(1)] by simp_all
  obtain e s' where r: "read_loop src init_framer s2 = Some (Some e, s')" "input s' = input s2 @ upcoming s2"
    using read_loop_returns [OF w(2) l(3) settled_init] assms(3) l by auto
  then have c: "consume src s = Some (Some e, s')" using u p w(1) by (simp add: consume_def)
  from consume_handled [OF c] r(2) l c show ?thesis by (auto simp: handled_def)
qed

end


section \<open>Reconnecting\<close>

lemma backoff_closed: "(next_backoff ^^ k) second = second * min (2 ^ k) 30"
proof (induction k)
  case (Suc k)
  have "(next_backoff ^^ Suc k) second = next_backoff (second * min (2 ^ k) 30)" using Suc by simp
  also have "\<dots> = second * min (2 ^ Suc k) 30"
    by (simp add: next_backoff_def second_def min_def)
  finally show ?case .
qed (simp add: second_def)

lemma wait_jittered_cases:
  "wait_jittered src b s = (r, s') \<Longrightarrow>
     r = Some (next_backoff b) \<or> r = None \<and> (\<exists>d s0. srSleep src d s0 = (False, s'))"
  by (auto simp: wait_jittered_def split: prod.splits bool.splits)

lemma connect_round_cases:
  assumes "connect_round src b s = Some (r, s')"
  obtains (refused) s1 e s2 where "srDone src s = (False, s1)" "srOpen src s1 = (Some e, s2)" "r = Some (next_backoff b)"
  | (lost) s1 s2 where "srDone src s = (False, s1)" "srOpen src s1 = (None, s2)" "r = Some (next_backoff second)"
  | (cancelled) s0 where "r = None" "srDone src s0 = (True, s') \<or> (\<exists>d. srSleep src d s0 = (False, s'))"
  using assms
  by (auto simp: connect_round_def dest!: wait_jittered_cases split: prod.splits bool.splits option.splits)

lemma connect_loop_cancelled:
  "connect_loop src b s = Some s' \<Longrightarrow> \<exists>s0. srDone src s0 = (True, s') \<or> (\<exists>d. srSleep src d s0 = (False, s'))"
proof (induction rule: connect_loop.raw_induct [rotated 1, consumes 1, case_names 1])
  case (1 cl src b s s')
  then obtain r s1 where r: "connect_round src b s = Some (r, s1)" by (auto split: option.splits)
  then show ?case by (cases rule: connect_round_cases) (use 1 r in auto)
qed

text \<open>The loops below \<open>Run\<close> return early, and \<open>consume\<close> without an error, only when the context is cancelled.\<close>

definition cancelled_at :: "('m, 's) source \<Rightarrow> 's \<Rightarrow> bool" where
  "cancelled_at src s' \<longleftrightarrow> (\<exists>s0. srDone src s0 = (True, s') \<or> (\<exists>d. srSleep src d s0 = (False, s')))"

lemma handle_message_cancelled:
  "handle_message src m backoff s = Some y \<Longrightarrow> \<not> fst y \<Longrightarrow> cancelled_at src (snd y)"
proof (induction rule: handle_message.raw_induct [rotated 1, consumes 1, case_names 1])
  case (1 hm src m backoff s y)
  obtain h s1 where h: "srHandler src m s = (h, s1)" by fastforce
  obtain c s2 where c: "srDone src s1 = (c, s2)" by fastforce
  obtain el s3 where el: "srSleep src backoff s2 = (el, s3)" by fastforce
  show ?case
  proof (cases "h = None \<or> c \<or> \<not> el")
    case True
    have "srSleep src backoff s2 = (False, s3)" if "\<not> el" using el that by simp
    with 1(2,3) h c el True show ?thesis unfolding cancelled_at_def by (cases h; cases c; cases el) fastforce+
  next
    case False
    then have "hm src m (next_backoff backoff) s3 = Some y" using 1(2) h c el by auto
    from 1(1) [OF this 1(3)] show ?thesis .
  qed
qed

lemma handle_frames_cancelled:
  "handle_frames src fs s = Some (False, s') \<Longrightarrow> cancelled_at src s'"
proof (induction fs arbitrary: s)
  case (Cons f fs)
  then show ?case
    by (auto dest: handle_message_cancelled split: sum.splits option.splits prod.splits bool.splits)
qed simp

lemma read_round_cancelled: "read_round src fr s = Some (Return None, s') \<Longrightarrow> cancelled_at src s'"
  by (auto simp: read_round_def Let_def cancelled_at_def [of src s'] dest: handle_frames_cancelled
      split: prod.splits bool.splits option.splits if_splits)

lemma read_loop_cancelled: "read_loop src fr s = Some y \<Longrightarrow> fst y = None \<Longrightarrow> cancelled_at src (snd y)"
proof (induction rule: read_loop.raw_induct [rotated 1, consumes 1, case_names 1])
  case (1 rl src fr s y)
  then obtain rd s1 where r: "read_round src fr s = Some (rd, s1)" by (auto split: option.splits)
  show ?case
  proof (cases rd)
    case (Again fr')
    with 1(2) r have "rl src fr' s1 = Some y" by simp
    from 1(1) [OF this 1(3)] show ?thesis .
  next
    case (Return out)
    with 1(2,3) r have "rd = Return None" "y = (None, s1)" by auto
    with read_round_cancelled r show ?thesis by force
  qed
qed

lemma consume_cancelled: "consume src s = Some (None, s') \<Longrightarrow> cancelled_at src s'"
  by (auto simp: consume_def dest: read_loop_cancelled split: prod.splits sum.splits option.splits)

section \<open>The end of Run\<close>

text \<open>
  \<open>Run\<close> does not give up: whatever the port, the radio and the handler do, it returns only because
  the context was cancelled, seen as such before a connection or after one, or during a wait, and then
  without an error.
\<close>
theorem run_until_cancelled:
  assumes "Run True True src s = Some (r, s')"
  shows "r = None \<and> (\<exists>s0. srDone src s0 = (True, s') \<or> (\<exists>d. srSleep src d s0 = (False, s')))"
  using assms connect_loop_cancelled [of src second s s'] by (auto simp: Run_def)

section \<open>Ports are closed\<close>

text \<open>\<open>held\<close> counts the open ports: a successful open adds one, a close takes one away.\<close>

locale port_holder = message_sink src input stored rows
  for src :: "('m, 's) source"
    and input :: "'s \<Rightarrow> byte list"
    and stored :: "'s \<Rightarrow> 'r list"
    and rows :: "'m \<Rightarrow> 'r list" +
  fixes held :: "'s \<Rightarrow> nat"
  assumes port_open: "srOpen src s = (r, s') \<Longrightarrow> held s' = held s + (if r = None then 1 else 0)"
    and port_close: "srClose src s = (r, s') \<Longrightarrow> held s' = held s - 1"
    and port_handler: "srHandler src m s = (h, s') \<Longrightarrow> held s' = held s"
    and port_read: "srRead src s = (x, s') \<Longrightarrow> held s' = held s"
    and port_write: "srWrite src bs s = (wr, s') \<Longrightarrow> held s' = held s"
    and port_done: "srDone src s = (c, s') \<Longrightarrow> held s' = held s"
    and port_sleep: "srSleep src d s = (el, s') \<Longrightarrow> held s' = held s"
    and port_random: "srUint32 src s = (u, s') \<Longrightarrow> held s' = held s"
    and port_jitter: "srInt64N src n s = (v, s') \<Longrightarrow> held s' = held s"
begin

text \<open>The count is a view like the stored rows, to which no message adds anything.\<close>

sublocale count: message_sink src "\<lambda>s. input s" "\<lambda>s. replicate (held s) ()" "\<lambda>m. []"
  using on_handler on_read on_done on_sleep on_write on_random
    port_handler port_read port_done port_sleep port_write port_random
  by unfold_locales fastforce+

lemma consume_held:
  assumes "consume src s = Some (r, s')"
  shows "held s' = held s"
proof -
  have none: "concat (map (\<lambda>m. []) xs) = ([] :: unit list)" for xs :: "'m list" by (induction xs) simp_all
  show ?thesis
    using count.consume_handled [OF assms] by (auto simp: count.handled_def count.stores_def none)
qed

lemma wait_jittered_held: "wait_jittered src b s = (r, s') \<Longrightarrow> held s' = held s"
  by (auto simp: wait_jittered_def jitter_def dest!: port_jitter port_sleep split: prod.splits bool.splits)

lemma connect_round_held:
  assumes "connect_round src b s = Some (r, s')"
  shows "held s' = held s"
  using assms
  by (auto simp: connect_round_def dest!: port_done port_open port_close consume_held wait_jittered_held
      split: prod.splits bool.splits option.splits if_splits)

lemma connect_loop_held: "connect_loop src' b s = Some s' \<Longrightarrow> src' = src \<Longrightarrow> held s' = held s"
proof (induction rule: connect_loop.raw_induct [rotated 1, consumes 1, case_names 1])
  case (1 loop src' b s s')
  then show ?case by (auto dest!: connect_round_held split: option.splits)
qed

end

section \<open>What is slept\<close>

text \<open>
  \<open>slept\<close> is the list of the delays the source has asked its timer for. The handler's retries wait for the
  undisturbed backoff, the connection attempts for the jittered one.
\<close>

definition retry_waits :: "duration list \<Rightarrow> bool" where
  "retry_waits ds \<longleftrightarrow> (\<forall>d \<in> set ds. \<exists>j. d = second * min (2 ^ j) 30)"

definition jittered :: "duration \<Rightarrow> duration \<Rightarrow> bool" where
  "jittered b d \<longleftrightarrow> b div 2 \<le> d \<and> d < b + b div 2"

lemma retry_waits_simps [simp]:
  "retry_waits []" "retry_waits (xs @ ys) \<longleftrightarrow> retry_waits xs \<and> retry_waits ys"
  by (auto simp: retry_waits_def)

lemma retry_waits_backoff: "retry_waits ((next_backoff ^^ k) second # ds) \<longleftrightarrow> retry_waits ds"
  using backoff_closed [of k] by (auto simp: retry_waits_def)

locale sleep_log =
  fixes src :: "('m, 's) source" and slept :: "'s \<Rightarrow> duration list"
  assumes log_sleep: "srSleep src d s = (el, s') \<Longrightarrow> slept s' = slept s @ [d]"
    and log_open: "srOpen src s = (x, s') \<Longrightarrow> slept s' = slept s"
    and log_close: "srClose src s = (x, s') \<Longrightarrow> slept s' = slept s"
    and log_handler: "srHandler src m s = (h, s') \<Longrightarrow> slept s' = slept s"
    and log_read: "srRead src s = (rd, s') \<Longrightarrow> slept s' = slept s"
    and log_write: "srWrite src bs s = (wr, s') \<Longrightarrow> slept s' = slept s"
    and log_done: "srDone src s = (c, s') \<Longrightarrow> slept s' = slept s"
    and log_random: "srUint32 src s = (u, s') \<Longrightarrow> slept s' = slept s"
    and log_jitter: "srInt64N src n s = (v, s') \<Longrightarrow> slept s' = slept s"
begin

definition retries :: "'s \<Rightarrow> 's \<Rightarrow> bool" where
  "retries s s' \<longleftrightarrow> (\<exists>ds. slept s' = slept s @ ds \<and> retry_waits ds)"

lemma retries_same: "slept s' = slept s \<Longrightarrow> retries s s'"
  by (auto simp: retries_def)

lemma retries_trans: "retries s s1 \<Longrightarrow> retries s1 s' \<Longrightarrow> retries s s'"
  by (auto simp: retries_def)

lemma handle_message_slept:
  "handle_message src' m b s = Some y \<Longrightarrow> src' = src \<Longrightarrow> b = (next_backoff ^^ k) second \<Longrightarrow> retries s (snd y)"
proof (induction arbitrary: k rule: handle_message.raw_induct [rotated 1, consumes 1, case_names 1])
  case (1 hm src' m b s y)
  obtain h s1 where h: "srHandler src m s = (h, s1)" by fastforce
  obtain c s2 where c: "srDone src s1 = (c, s2)" by fastforce
  obtain el s3 where el: "srSleep src b s2 = (el, s3)" by fastforce
  note keep = log_handler [OF h] log_done [OF c] log_sleep [OF el]
  have waited: "retries s s3" using keep 1(4) retry_waits_backoff [of k "[]"] by (auto simp: retries_def)
  show ?case
  proof (cases "h = None \<or> c \<or> \<not> el")
    case True
    then have "snd y \<in> {s1, s2, s3}" using 1(2,3) h c el by (cases h; cases c; cases el) auto
    then show ?thesis using waited keep by (auto intro: retries_same)
  next
    case False
    then have "hm src m (next_backoff b) s3 = Some y" using 1(2,3) h c el by auto
    from 1(1) [OF this refl, of "Suc k"] waited show ?thesis by (simp add: 1(4) retries_trans)
  qed
qed

lemma handle_frames_slept: "handle_frames src fs s = Some (b, s') \<Longrightarrow> retries s s'"
proof (induction fs arbitrary: s)
  case (Cons f fs)
  show ?case
  proof (cases "srUnmarshal src f")
    case (Inl e)
    with Cons show ?thesis by simp
  next
    case (Inr m)
    with Cons.prems obtain b1 s1 where h: "handle_message src m second s = Some (b1, s1)" by (auto split: option.splits)
    from handle_message_slept [OF h refl, of 0] have "retries s s1" by simp
    with Cons Inr h show ?thesis by (cases b1) (auto intro: retries_trans)
  qed
qed (simp add: retries_same)

lemma read_round_slept:
  assumes "read_round src fr s = Some (rd, s')"
  shows "retries s s'"
proof -
  obtain c s1 where c: "srDone src s = (c, s1)" by fastforce
  obtain bs e s2 where r: "srRead src s1 = ((bs, e), s2)" by (metis surj_pair)
  have "s' = s1 \<or> (\<exists>fs b. handle_frames src fs s2 = Some (b, s'))"
    using assms c r by (auto simp: read_round_def Let_def split: prod.splits bool.splits option.splits)
  moreover have "retries s s1" "retries s s2" using log_done [OF c] log_read [OF r] by (simp_all add: retries_same)
  ultimately show ?thesis using handle_frames_slept retries_trans by blast
qed

lemma read_loop_slept: "read_loop src' fr s = Some y \<Longrightarrow> src' = src \<Longrightarrow> retries s (snd y)"
proof (induction rule: read_loop.raw_induct [rotated 1, consumes 1, case_names 1])
  case (1 rl src' fr s y)
  then obtain rd s1 where r: "read_round src fr s = Some (rd, s1)" by (auto split: option.splits)
  note w = read_round_slept [OF r]
  show ?case
  proof (cases rd)
    case (Again fr')
    with 1(2,3) r have "rl src fr' s1 = Some y" by simp
    from 1(1) [OF this refl] w show ?thesis by (blast intro: retries_trans)
  next
    case (Return out)
    with 1(2,3) r w show ?thesis by auto
  qed
qed

lemma consume_slept:
  assumes "consume src s = Some (r, s')"
  shows "retries s s'"
proof -
  obtain u s1 where u: "srUint32 src s = (u, s1)" by fastforce
  have w: "retries s s2" if "writeAll src frame s1 = Some (x, s2)" for frame x s2
    using writeAll_preserves [where P = "\<lambda>t. slept t = slept s", OF _ that] log_write log_random [OF u]
    by (metis retries_same)
  have "s' = s1 \<or> (\<exists>frame x. writeAll src frame s1 = Some (x, s')) \<or>
      (\<exists>frame s2. writeAll src frame s1 = Some (None, s2) \<and> read_loop src init_framer s2 = Some (r, s'))"
    using assms u by (auto simp: consume_def split: sum.splits option.splits prod.splits)
  then show ?thesis using w read_loop_slept retries_same [OF log_random [OF u]] by (metis retries_trans snd_conv)
qed

lemma wait_jittered_slept:
  assumes "wait_jittered src b s = (r, s')" "0 < b" "\<forall>n s. 0 < n \<longrightarrow> 0 \<le> fst (srInt64N src n s) \<and> fst (srInt64N src n s) < n"
  shows "\<exists>d. slept s' = slept s @ [d] \<and> jittered b d \<and> (r = None \<or> r = Some (next_backoff b))"
proof -
  obtain n s1 where n: "srInt64N src b s = (n, s1)" by fastforce
  obtain el s2 where el: "srSleep src (b div 2 + n) s1 = (el, s2)" by fastforce
  have "0 \<le> n \<and> n < b" using assms(2,3) n by (metis fst_conv)
  then have "jittered b (b div 2 + n)" by (simp add: jittered_def)
  moreover have "slept s2 = slept s @ [b div 2 + n]" using log_sleep [OF el] log_jitter [OF n] by simp
  moreover have "s' = s2 \<and> (r = None \<or> r = Some (next_backoff b))"
    using assms(1) n el by (cases el) (auto simp: wait_jittered_def jitter_def)
  ultimately show ?thesis by blast
qed

text \<open>One round: cancelled at once, refused, or connected and lost.\<close>

lemma connect_round_slept:
  assumes "connect_round src b s = Some (r, s')" "0 < b"
    and "\<forall>n s. 0 < n \<longrightarrow> 0 \<le> fst (srInt64N src n s) \<and> fst (srInt64N src n s) < n"
  obtains (cancelled) "fst (srDone src s)" "r = None" "slept s' = slept s"
  | (refused) d where "\<not> fst (srDone src s)" "fst (srOpen src (snd (srDone src s))) \<noteq> None"
      "slept s' = slept s @ [d]" "jittered b d" "r = None \<or> r = Some (next_backoff b)"
  | (ended) ds where "\<not> fst (srDone src s)" "fst (srOpen src (snd (srDone src s))) = None" "r = None"
      "slept s' = slept s @ ds" "retry_waits ds"
  | (lost) ds d where "\<not> fst (srDone src s)" "fst (srOpen src (snd (srDone src s))) = None"
      "slept s' = slept s @ ds @ [d]" "retry_waits ds" "jittered second d" "r = None \<or> r = Some (next_backoff second)"
proof -
  obtain c s1 where c: "srDone src s = (c, s1)" by fastforce
  obtain x s2 where x: "srOpen src s1 = (x, s2)" by fastforce
  note keep = log_done [OF c] log_open [OF x]
  show ?thesis
  proof (cases c)
    case True
    with assms(1) c keep cancelled show ?thesis by (simp add: connect_round_def)
  next
    case False
    show ?thesis
    proof (cases x)
      case (Some e)
      then have "wait_jittered src b s2 = (r, s')" using assms(1) c x False by (simp add: connect_round_def)
      from wait_jittered_slept [OF this assms(2,3)] c x False Some keep refused show ?thesis by auto
    next
      case None
      then obtain err s3 where con: "consume src s2 = Some (err, s3)"
        using assms(1) c x False by (auto simp: connect_round_def split: option.splits)
      from consume_slept [OF this] obtain ds where ds: "slept s3 = slept s @ ds" "retry_waits ds"
        using keep by (auto simp: retries_def)
      obtain ce s4 where cl: "srClose src s3 = (ce, s4)" by fastforce
      obtain c5 s5 where c5: "srDone src s4 = (c5, s5)" by fastforce
      have s5: "slept s5 = slept s @ ds" using log_close [OF cl] log_done [OF c5] ds(1) by simp
      show ?thesis
      proof (cases c5)
        case True
        with assms(1) c x False None con cl c5 s5 ds(2) ended show ?thesis by (simp add: connect_round_def)
      next
        case go_on: False
        then have "wait_jittered src second s5 = (r, s')"
          using assms(1) c x False None con cl c5 by (simp add: connect_round_def)
        from wait_jittered_slept [OF this _ assms(3)] s5 ds(2) c x False None lost show ?thesis
          by (auto simp: second_def)
      qed
    qed
  qed
qed

end

section \<open>A port that is not there\<close>

text \<open>The state counts the attempts; the context is cancelled after the third.\<close>

definition absent_port :: "(unit, nat) source" where
  "absent_port =
     \<lparr>srOpen = \<lambda>n. (Some (NewError ''no such device''), Suc n), srClose = \<lambda>n. (None, n), srRead = \<lambda>n. (([], Some EOF), n),
      srWrite = \<lambda>bs n. ((int (length bs), None), n), srHandler = \<lambda>m n. (None, n), srDone = \<lambda>n. (3 \<le> n, n),
      srSleep = \<lambda>d n. (True, n), srUint32 = \<lambda>n. (7, n), srInt64N = \<lambda>k n. (k div 2, n),
      srMarshalRequest = \<lambda>u. Inr [1], srUnmarshal = \<lambda>bs. Inr ()\<rparr>"

theorem run_until_cancelled_witness:
  "\<exists>r s'. Run True True absent_port 0 = Some (r, s') \<and> r = None"
proof -
  have "Run True True absent_port 0 = Some (None, 3)"
    by (simp add: Run_def connect_loop.simps connect_round_def wait_jittered_def jitter_def absent_port_def)
  with run_until_cancelled [OF this] show ?thesis by blast
qed

end
