(* ===== verification/TakProto.thy ===== *)
theory TakProto
  imports Prelude
begin

text \<open>
  The message types of \<^verbatim>\<open>internal/takproto/tak.pb.go\<close> (generated from \<^verbatim>\<open>tak.proto\<close>) and their
  getters. A message pointer is an \<open>option\<close>, so that a getter's nil check is the \<open>None\<close> case;
  the \<open>oneof\<close> is a datatype with one constructor per wrapper type. The message state the runtime
  keeps in every message (its size cache and unknown fields) is not read by the generated code and
  has no field here. \<open>String\<close>, \<open>ProtoReflect\<close> and the descriptors only call the protobuf runtime, and
  the wire decoder is the runtime's: what \<open>proto.Unmarshal\<close> returns is a parameter of the decoder.
\<close>

section \<open>Enumerations\<close>

text \<open>Enumerations are open in proto3: any \<open>int32\<close> can be stored, the tables name the known ones.\<close>

type_synonym Team = i32
type_synonym MemberRole = i32
type_synonym ReceiptType = i32

definition Team_name :: "(int \<times> string) list" where
  "Team_name =
    [(0, ''Unspecifed_Color''), (1, ''White''), (2, ''Yellow''), (3, ''Orange''), (4, ''Magenta''),
     (5, ''Red''), (6, ''Maroon''), (7, ''Purple''), (8, ''Dark_Blue''), (9, ''Blue''), (10, ''Cyan''),
     (11, ''Teal''), (12, ''Green''), (13, ''Dark_Green''), (14, ''Brown'')]"

definition Team_value :: "(string \<times> int) list" where
  "Team_value =
    [(''Unspecifed_Color'', 0), (''White'', 1), (''Yellow'', 2), (''Orange'', 3), (''Magenta'', 4),
     (''Red'', 5), (''Maroon'', 6), (''Purple'', 7), (''Dark_Blue'', 8), (''Blue'', 9), (''Cyan'', 10),
     (''Teal'', 11), (''Green'', 12), (''Dark_Green'', 13), (''Brown'', 14)]"

definition MemberRole_name :: "(int \<times> string) list" where
  "MemberRole_name =
    [(0, ''Unspecifed''), (1, ''TeamMember''), (2, ''TeamLead''), (3, ''HQ''), (4, ''Sniper''),
     (5, ''Medic''), (6, ''ForwardObserver''), (7, ''RTO''), (8, ''K9'')]"

definition MemberRole_value :: "(string \<times> int) list" where
  "MemberRole_value =
    [(''Unspecifed'', 0), (''TeamMember'', 1), (''TeamLead'', 2), (''HQ'', 3), (''Sniper'', 4),
     (''Medic'', 5), (''ForwardObserver'', 6), (''RTO'', 7), (''K9'', 8)]"

definition ReceiptType_name :: "(int \<times> string) list" where
  "ReceiptType_name =
    [(0, ''ReceiptType_None''), (1, ''ReceiptType_Delivered''), (2, ''ReceiptType_Read'')]"

definition ReceiptType_value :: "(string \<times> int) list" where
  "ReceiptType_value =
    [(''ReceiptType_None'', 0), (''ReceiptType_Delivered'', 1), (''ReceiptType_Read'', 2)]"

text \<open>\<open>Enum\<close> returns a pointer to a copy and \<open>Number\<close> the number as the runtime's \<open>EnumNumber\<close>.\<close>

definition Enum_pointer :: "i32 \<Rightarrow> i32 option" where
  "Enum_pointer x = Some x"

definition Number :: "i32 \<Rightarrow> int" where
  "Number x = sint x"

section \<open>Messages\<close>

record tak_contact =
  ctCallsign :: "byte list"
  ctDeviceCallsign :: "byte list"

record tak_pli =
  plLatitudeI :: i32
  plLongitudeI :: i32
  plAltitude :: i32
  plSpeed :: u32
  plCourse :: u32

record tak_group =
  grRole :: MemberRole
  grTeam :: Team

record tak_status =
  stBattery :: u32

record tak_chat =
  chMessage :: string
  chTo :: "string option"
  chToCallsign :: "string option"
  chReceiptForUid :: string
  chReceiptType :: ReceiptType
  chLang :: "string option"
  chRoomId :: "string option"
  chVoiceProfileId :: "string option"

datatype payload_variant =
    TAKPacket_Pli "tak_pli option"
  | TAKPacket_Chat "tak_chat option"
  | TAKPacket_Detail "byte list"

record tak_packet =
  tpIsCompressed :: bool
  tpContact :: "tak_contact option"
  tpGroup :: "tak_group option"
  tpStatus :: "tak_status option"
  tpPayloadVariant :: "payload_variant option"

section \<open>Reset\<close>

text \<open>\<open>Reset\<close> overwrites the receiver with the zero message.\<close>

definition Reset_TAKPacket :: "tak_packet \<Rightarrow> tak_packet" where
  "Reset_TAKPacket x = \<lparr>tpIsCompressed = False, tpContact = None, tpGroup = None, tpStatus = None,
     tpPayloadVariant = None\<rparr>"

definition Reset_GeoChat :: "tak_chat \<Rightarrow> tak_chat" where
  "Reset_GeoChat x = \<lparr>chMessage = [], chTo = None, chToCallsign = None, chReceiptForUid = [],
     chReceiptType = 0, chLang = None, chRoomId = None, chVoiceProfileId = None\<rparr>"

definition Reset_Group :: "tak_group \<Rightarrow> tak_group" where
  "Reset_Group x = \<lparr>grRole = 0, grTeam = 0\<rparr>"

definition Reset_Status :: "tak_status \<Rightarrow> tak_status" where
  "Reset_Status x = \<lparr>stBattery = 0\<rparr>"

definition Reset_Contact :: "tak_contact \<Rightarrow> tak_contact" where
  "Reset_Contact x = \<lparr>ctCallsign = [], ctDeviceCallsign = []\<rparr>"

definition Reset_PLI :: "tak_pli \<Rightarrow> tak_pli" where
  "Reset_PLI x = \<lparr>plLatitudeI = 0, plLongitudeI = 0, plAltitude = 0, plSpeed = 0, plCourse = 0\<rparr>"

section \<open>Getters\<close>

definition GetIsCompressed :: "tak_packet option \<Rightarrow> bool" where
  "GetIsCompressed x = (case x of Some m \<Rightarrow> tpIsCompressed m | None \<Rightarrow> False)"

definition GetContact :: "tak_packet option \<Rightarrow> tak_contact option" where
  "GetContact x = (case x of Some m \<Rightarrow> tpContact m | None \<Rightarrow> None)"

definition GetGroup :: "tak_packet option \<Rightarrow> tak_group option" where
  "GetGroup x = (case x of Some m \<Rightarrow> tpGroup m | None \<Rightarrow> None)"

definition GetStatus :: "tak_packet option \<Rightarrow> tak_status option" where
  "GetStatus x = (case x of Some m \<Rightarrow> tpStatus m | None \<Rightarrow> None)"

definition GetPayloadVariant :: "tak_packet option \<Rightarrow> payload_variant option" where
  "GetPayloadVariant x = (case x of Some m \<Rightarrow> tpPayloadVariant m | None \<Rightarrow> None)"

definition GetPli :: "tak_packet option \<Rightarrow> tak_pli option" where
  "GetPli x = (case x of None \<Rightarrow> None
     | Some m \<Rightarrow> (case tpPayloadVariant m of Some (TAKPacket_Pli p) \<Rightarrow> p | _ \<Rightarrow> None))"

definition GetChat :: "tak_packet option \<Rightarrow> tak_chat option" where
  "GetChat x = (case x of None \<Rightarrow> None
     | Some m \<Rightarrow> (case tpPayloadVariant m of Some (TAKPacket_Chat c) \<Rightarrow> c | _ \<Rightarrow> None))"

definition GetDetail :: "tak_packet option \<Rightarrow> byte list" where
  "GetDetail x = (case x of None \<Rightarrow> []
     | Some m \<Rightarrow> (case tpPayloadVariant m of Some (TAKPacket_Detail d) \<Rightarrow> d | _ \<Rightarrow> []))"

definition GetCallsign :: "tak_contact option \<Rightarrow> byte list" where
  "GetCallsign x = (case x of Some c \<Rightarrow> ctCallsign c | None \<Rightarrow> [])"

definition GetDeviceCallsign :: "tak_contact option \<Rightarrow> byte list" where
  "GetDeviceCallsign x = (case x of Some c \<Rightarrow> ctDeviceCallsign c | None \<Rightarrow> [])"

definition GetLatitudeI :: "tak_pli option \<Rightarrow> i32" where
  "GetLatitudeI x = (case x of Some p \<Rightarrow> plLatitudeI p | None \<Rightarrow> 0)"

definition GetLongitudeI :: "tak_pli option \<Rightarrow> i32" where
  "GetLongitudeI x = (case x of Some p \<Rightarrow> plLongitudeI p | None \<Rightarrow> 0)"

definition GetAltitude :: "tak_pli option \<Rightarrow> i32" where
  "GetAltitude x = (case x of Some p \<Rightarrow> plAltitude p | None \<Rightarrow> 0)"

definition GetSpeed :: "tak_pli option \<Rightarrow> u32" where
  "GetSpeed x = (case x of Some p \<Rightarrow> plSpeed p | None \<Rightarrow> 0)"

definition GetCourse :: "tak_pli option \<Rightarrow> u32" where
  "GetCourse x = (case x of Some p \<Rightarrow> plCourse p | None \<Rightarrow> 0)"

text \<open>A \<open>GeoChat\<close>; its optional fields are pointers, which the getters also check.\<close>

definition GetMessage :: "tak_chat option \<Rightarrow> string" where
  "GetMessage x = (case x of Some m \<Rightarrow> chMessage m | None \<Rightarrow> [])"

definition GetTo :: "tak_chat option \<Rightarrow> string" where
  "GetTo x = (case x of Some m \<Rightarrow> (case chTo m of Some v \<Rightarrow> v | None \<Rightarrow> []) | None \<Rightarrow> [])"

definition GetToCallsign :: "tak_chat option \<Rightarrow> string" where
  "GetToCallsign x = (case x of Some m \<Rightarrow> (case chToCallsign m of Some v \<Rightarrow> v | None \<Rightarrow> []) | None \<Rightarrow> [])"

definition GetReceiptForUid :: "tak_chat option \<Rightarrow> string" where
  "GetReceiptForUid x = (case x of Some m \<Rightarrow> chReceiptForUid m | None \<Rightarrow> [])"

definition GetReceiptType :: "tak_chat option \<Rightarrow> ReceiptType" where
  "GetReceiptType x = (case x of Some m \<Rightarrow> chReceiptType m | None \<Rightarrow> 0)"

definition GetLang :: "tak_chat option \<Rightarrow> string" where
  "GetLang x = (case x of Some m \<Rightarrow> (case chLang m of Some v \<Rightarrow> v | None \<Rightarrow> []) | None \<Rightarrow> [])"

definition GetRoomId :: "tak_chat option \<Rightarrow> string" where
  "GetRoomId x = (case x of Some m \<Rightarrow> (case chRoomId m of Some v \<Rightarrow> v | None \<Rightarrow> []) | None \<Rightarrow> [])"

definition GetVoiceProfileId :: "tak_chat option \<Rightarrow> string" where
  "GetVoiceProfileId x =
     (case x of Some m \<Rightarrow> (case chVoiceProfileId m of Some v \<Rightarrow> v | None \<Rightarrow> []) | None \<Rightarrow> [])"

definition GetRole :: "tak_group option \<Rightarrow> MemberRole" where
  "GetRole x = (case x of Some g \<Rightarrow> grRole g | None \<Rightarrow> 0)"

definition GetTeam :: "tak_group option \<Rightarrow> Team" where
  "GetTeam x = (case x of Some g \<Rightarrow> grTeam g | None \<Rightarrow> 0)"

definition GetBattery :: "tak_status option \<Rightarrow> u32" where
  "GetBattery x = (case x of Some s \<Rightarrow> stBattery s | None \<Rightarrow> 0)"

lemmas chat_getter_defs = GetMessage_def GetTo_def GetToCallsign_def GetReceiptForUid_def
  GetReceiptType_def GetLang_def GetRoomId_def GetVoiceProfileId_def

lemmas getter_defs = GetIsCompressed_def GetContact_def GetGroup_def GetStatus_def
  GetPayloadVariant_def GetPli_def GetChat_def GetDetail_def GetCallsign_def GetDeviceCallsign_def
  GetLatitudeI_def GetLongitudeI_def GetAltitude_def GetSpeed_def GetCourse_def

section \<open>Reset and nil\<close>

text \<open>A reset message reads as a missing one: every getter gives its default.\<close>

lemma reset_packet_reads_nil:
  "GetIsCompressed (Some (Reset_TAKPacket x)) = GetIsCompressed None"
  "GetContact (Some (Reset_TAKPacket x)) = GetContact None"
  "GetGroup (Some (Reset_TAKPacket x)) = GetGroup None"
  "GetStatus (Some (Reset_TAKPacket x)) = GetStatus None"
  "GetPli (Some (Reset_TAKPacket x)) = GetPli None"
  "GetChat (Some (Reset_TAKPacket x)) = GetChat None"
  "GetDetail (Some (Reset_TAKPacket x)) = GetDetail None"
  by (simp_all add: getter_defs Reset_TAKPacket_def)

lemma reset_chat_reads_nil:
  "GetMessage (Some (Reset_GeoChat c)) = GetMessage None"
  "GetTo (Some (Reset_GeoChat c)) = GetTo None"
  "GetToCallsign (Some (Reset_GeoChat c)) = GetToCallsign None"
  "GetReceiptForUid (Some (Reset_GeoChat c)) = GetReceiptForUid None"
  "GetReceiptType (Some (Reset_GeoChat c)) = GetReceiptType None"
  "GetLang (Some (Reset_GeoChat c)) = GetLang None"
  "GetRoomId (Some (Reset_GeoChat c)) = GetRoomId None"
  "GetVoiceProfileId (Some (Reset_GeoChat c)) = GetVoiceProfileId None"
  by (simp_all add: chat_getter_defs Reset_GeoChat_def)

section \<open>Properties\<close>

text \<open>
  The name and value tables of every enumeration are inverse to each other, so that printing an
  enumeration value and looking the name up gives the value back, and no two values share a name.
\<close>
theorem enum_tables_inverse:
  "(map_of Team_name v = Some n \<longleftrightarrow> map_of Team_value n = Some v) \<and>
   (map_of MemberRole_name v = Some n \<longleftrightarrow> map_of MemberRole_value n = Some v) \<and>
   (map_of ReceiptType_name v = Some n \<longleftrightarrow> map_of ReceiptType_value n = Some v)"
proof -
  have inv: "map_of kvs v = Some n \<longleftrightarrow> map_of (map prod.swap kvs) n = Some v"
    if "distinct (map fst kvs)" "distinct (map snd kvs)" for kvs :: "(int \<times> string) list"
    using that by (auto simp: map_of_eq_Some_iff comp_def prod.swap_def intro: rev_image_eqI)
  show ?thesis
    using inv [of Team_name] inv [of MemberRole_name] inv [of ReceiptType_name]
    by (simp add: Team_name_def Team_value_def MemberRole_name_def MemberRole_value_def
        ReceiptType_name_def ReceiptType_value_def)
qed

end
