(* ===== verification/Decoder.thy ===== *)
theory Decoder
  imports Model GoText TakProto
begin

text \<open>
  \<^verbatim>\<open>internal/tak/decoder.go\<close>: how one mesh packet becomes the archived record and, for the two
  position ports, a position. Everything of the protobuf library and of the generated Meshtastic
  messages is a parameter, the record \<open>pb_lib\<close>; the message types hold one field per accessor the
  bridge calls. The lemmas give the functional behaviour on every branch, the range and exactness of
  the coordinates, and the choice of times and callsigns.
\<close>

section \<open>What the decoder is given\<close>

text \<open>A Go getter with presence (\<open>HasX\<close>, \<open>GetX\<close>) is an \<open>option\<close> field with the zero default.\<close>

record data_msg =
  dtPortnum :: i32
  dtPayload :: "byte list"

datatype mesh_variant = Decoded data_msg | Encrypted "byte list"

record mesh_packet =
  mpFrom :: u32
  mpTo :: u32
  mpId :: u32
  mpChannel :: u32
  mpHopLimit :: u32
  mpHopStart :: u32
  mpRxSnr :: f64
  mpViaMqtt :: bool
  mpPkiEncrypted :: bool
  mpRxRssi :: "i32 option"
  mpRxTime :: "u32 option"
  mpVariant :: "mesh_variant option"

record mesh_position =
  mpoLatitudeI :: "i32 option"
  mpoLongitudeI :: "i32 option"
  mpoAltitude :: "i32 option"
  mpoTime :: u32
  mpoLocationSource :: i32
  mpoPrecisionBits :: u32

record pb_user =
  usShortName :: string
  usLongName :: string

record pb_lib =
  marshal_packet :: "mesh_packet \<Rightarrow> byte list result"
  unmarshal_position :: "byte list \<Rightarrow> mesh_position result"
  unmarshal_tak :: "byte list \<Rightarrow> tak_packet result"
  unmarshal_user :: "byte list \<Rightarrow> pb_user result"
  loc_source_name :: "i32 \<Rightarrow> string"

definition GetDecoded :: "mesh_packet \<Rightarrow> data_msg option" where
  "GetDecoded p = (case mpVariant p of Some (Decoded d) \<Rightarrow> Some d | _ \<Rightarrow> None)"

definition GetEncrypted :: "mesh_packet \<Rightarrow> byte list" where
  "GetEncrypted p = (case mpVariant p of Some (Encrypted bs) \<Rightarrow> bs | _ \<Rightarrow> [])"

definition get_or_zero :: "i32 option \<Rightarrow> i32" where
  "get_or_zero x = (case x of None \<Rightarrow> 0 | Some v \<Rightarrow> v)"

definition POSITION_APP :: i32 where "POSITION_APP = 3"
definition NODEINFO_APP :: i32 where "NODEINFO_APP = 4"
definition ATAK_PLUGIN :: i32 where "ATAK_PLUGIN = 72"
definition ATAK_PLUGIN_V2 :: i32 where "ATAK_PLUGIN_V2 = 78"
definition ATAK_FORWARDER :: i32 where "ATAK_FORWARDER = 257"

lemmas port_defs = POSITION_APP_def NODEINFO_APP_def ATAK_PLUGIN_def ATAK_PLUGIN_V2_def ATAK_FORWARDER_def

section \<open>The decoder\<close>

definition ErrNotPosition :: go_error where
  "ErrNotPosition = NewError ''TAK packet is not a position report''"

definition timeFromPacket :: "packet \<Rightarrow> time" where
  "timeFromPacket p = (case pkRadioRxTime p of Some t \<Rightarrow> t | None \<Rightarrow> pkReceivedAt p)"

definition out_of_range :: "f64 \<Rightarrow> rat \<Rightarrow> bool" where
  "out_of_range x b \<longleftrightarrow> x = NaN \<or> f64_less x (Fin (- b)) \<or> f64_less (Fin b) x"

definition newPosition :: "packet \<Rightarrow> f64 \<Rightarrow> f64 \<Rightarrow> position result" where
  "newPosition p latitude longitude =
     (if out_of_range latitude 90
      then Inl (NewError (''invalid latitude '' @ fmt_fixed7 latitude))
      else if out_of_range longitude 180
      then Inl (NewError (''invalid longitude '' @ fmt_fixed7 longitude))
      else
        (let packetTime = timeFromPacket p;
             sourceTime = (if \<not> is_zero packetTime then packetTime else pkReceivedAt p)
         in Inr \<lparr>poPacketID = 0, poSourceNode = pkFrom p, poMeshPacketID = pkMeshPacketID p,
              poSourcePort = pkPort p, poCallsign = NodeID (pkFrom p), poDeviceCallsign = [],
              poLatitude = latitude, poLongitude = longitude, poAltitude = None, poSpeed = None,
              poCourse = None, poLocationSource = [], poPrecisionBits = 0,
              poSourceTime = sourceTime, poReceivedAt = pkReceivedAt p\<rparr>))"

text \<open>The pair of a position (nil when there is no fix) and the no-fix flag.\<close>

definition decodePositionApp :: "pb_lib \<Rightarrow> packet \<Rightarrow> byte list \<Rightarrow> (position option \<times> bool) result" where
  "decodePositionApp lib p payload =
     (case unmarshal_position lib payload of
        Inl e \<Rightarrow> Inl (WrapError ''decode Meshtastic position'' e)
      | Inr m \<Rightarrow>
          if get_or_zero (mpoLatitudeI m) = 0 \<and> get_or_zero (mpoLongitudeI m) = 0
          then Inr (None, True)
          else
            (case newPosition p (coordinate (sint (get_or_zero (mpoLatitudeI m))))
                    (coordinate (sint (get_or_zero (mpoLongitudeI m)))) of
               Inl e \<Rightarrow> Inl e
             | Inr pos \<Rightarrow>
                 (let pos1 = (case mpoAltitude m of
                        Some a \<Rightarrow> pos\<lparr>poAltitude := Some (f64_of_int (sint a))\<rparr> | None \<Rightarrow> pos);
                      pos2 = (if mpoTime m \<noteq> 0
                        then pos1\<lparr>poSourceTime := unix_time (mpoTime m)\<rparr> else pos1)
                  in Inr (Some (pos2\<lparr>poLocationSource := loc_source_name lib (mpoLocationSource m),
                       poPrecisionBits := mpoPrecisionBits m\<rparr>), False))))"

text \<open>Callsign, device callsign, and whether a callsign was there but could not be decoded.\<close>

definition decodeCallsigns :: "tak_contact option \<Rightarrow> bool \<Rightarrow> string \<times> string \<times> bool" where
  "decodeCallsigns contact compressed =
     (if contact = None then ([], [], False)
      else
        (let callsign = GetCallsign contact; deviceCallsign = GetDeviceCallsign contact in
         if compressed then ([], [], length callsign > 0 \<or> length deviceCallsign > 0)
         else if \<not> utf8_valid callsign \<or> \<not> utf8_valid deviceCallsign then ([], [], True)
         else (trim_space (string_of_bytes callsign), trim_space (string_of_bytes deviceCallsign), False)))"

definition decodeLegacy :: "pb_lib \<Rightarrow> packet \<Rightarrow> byte list \<Rightarrow> (position \<times> bool) result" where
  "decodeLegacy lib p payload =
     (case unmarshal_tak lib payload of
        Inl e \<Rightarrow> Inl (WrapError ''decode legacy TAK packet'' e)
      | Inr takPacket \<Rightarrow>
          (case GetPli (Some takPacket) of
             None \<Rightarrow> Inl ErrNotPosition
           | Some pli \<Rightarrow>
               (case newPosition p (coordinate (sint (GetLatitudeI (Some pli))))
                       (coordinate (sint (GetLongitudeI (Some pli)))) of
                  Inl e \<Rightarrow> Inl e
                | Inr pos \<Rightarrow>
                    (let (callsign, deviceCallsign, undecodable) =
                           decodeCallsigns (GetContact (Some takPacket)) (GetIsCompressed (Some takPacket));
                         pos1 = pos\<lparr>poCallsign := callsign, poDeviceCallsign := deviceCallsign\<rparr>;
                         pos2 = (if poCallsign pos1 = [] then pos1\<lparr>poCallsign := NodeID (pkFrom p)\<rparr> else pos1);
                         pos3 = (if GetAltitude (Some pli) \<noteq> 0
                           then pos2\<lparr>poAltitude := Some (f64_of_int (sint (GetAltitude (Some pli))))\<rparr> else pos2);
                         pos4 = (if GetSpeed (Some pli) \<noteq> 0
                           then pos3\<lparr>poSpeed := Some (f64_of_int (uint (GetSpeed (Some pli))))\<rparr> else pos3);
                         pos5 = (if GetCourse (Some pli) \<noteq> 0
                           then pos4\<lparr>poCourse := Some (f64_of_int (uint (GetCourse (Some pli))))\<rparr> else pos4)
                     in Inr (pos5, undecodable)))))"

definition base_record :: "mesh_packet \<Rightarrow> time \<Rightarrow> byte list \<Rightarrow> packet" where
  "base_record m receivedAt raw =
     \<lparr>pkFrom = mpFrom m, pkTo = mpTo m, pkMeshPacketID = mpId m, pkChannel = mpChannel m, pkPort = 0,
      pkHopLimit = mpHopLimit m, pkHopStart = mpHopStart m, pkRSSI = mpRxRssi m, pkSNR = mpRxSnr m,
      pkViaMQTT = mpViaMqtt m, pkPKIEncrypted = mpPkiEncrypted m, pkEncrypted = False,
      pkReceivedAt = receivedAt, pkRadioRxTime = map_option unix_time (mpRxTime m),
      pkRawPacket = raw, pkRawPayload = [], pkParseStatus = [], pkParseError = []\<rparr>"

definition DecodeWithOptions :: "pb_lib \<Rightarrow> mesh_packet \<Rightarrow> time \<Rightarrow> bool \<Rightarrow> packet \<times> position option" where
  "DecodeWithOptions lib m receivedAt decode_position_app =
     (case marshal_packet lib m of
        Inl e \<Rightarrow> ((base_record m receivedAt [])
            \<lparr>pkParseStatus := ''invalid_packet'', pkParseError := error_text e\<rparr>, None)
      | Inr raw \<Rightarrow>
          (let record0 = base_record m receivedAt raw in
           case GetDecoded m of
             None \<Rightarrow> (record0\<lparr>pkEncrypted := True, pkRawPayload := GetEncrypted m,
                 pkParseStatus := ''encrypted''\<rparr>, None)
           | Some data \<Rightarrow>
               (let rec1 = record0\<lparr>pkPort := dtPortnum data, pkRawPayload := dtPayload data\<rparr> in
                if dtPortnum data = POSITION_APP then
                  (if \<not> decode_position_app
                   then (rec1\<lparr>pkParseStatus := ''position_app_disabled''\<rparr>, None)
                   else
                     (case decodePositionApp lib rec1 (dtPayload data) of
                        Inl e \<Rightarrow> (rec1\<lparr>pkParseStatus := ''malformed'', pkParseError := error_text e\<rparr>, None)
                      | Inr (pos, noFix) \<Rightarrow>
                          if noFix then (rec1\<lparr>pkParseStatus := ''position_no_fix''\<rparr>, None)
                          else (rec1\<lparr>pkParseStatus := ''position''\<rparr>, pos)))
                else if dtPortnum data = ATAK_PLUGIN then
                  (case decodeLegacy lib rec1 (dtPayload data) of
                     Inr (pos, undecodable) \<Rightarrow>
                       (rec1\<lparr>pkParseStatus :=
                          (if undecodable then ''tak_callsign_undecodable'' else ''position'')\<rparr>, Some pos)
                   | Inl e \<Rightarrow>
                       if errors_is e ErrNotPosition
                       then (rec1\<lparr>pkParseStatus := ''tak_non_position''\<rparr>, None)
                       else (rec1\<lparr>pkParseStatus := ''malformed'', pkParseError := error_text e\<rparr>, None))
                else if dtPortnum data = ATAK_PLUGIN_V2
                  then (rec1\<lparr>pkParseStatus := ''unsupported_atak_v2''\<rparr>, None)
                else if dtPortnum data = ATAK_FORWARDER
                  then (rec1\<lparr>pkParseStatus := ''unsupported_atak_forwarder''\<rparr>, None)
                else (rec1\<lparr>pkParseStatus := ''non_tak''\<rparr>, None))))"

definition Decode :: "pb_lib \<Rightarrow> mesh_packet \<Rightarrow> time \<Rightarrow> packet \<times> position option" where
  "Decode lib m receivedAt = DecodeWithOptions lib m receivedAt True"

section \<open>Coordinates\<close>

lemma sint_i32_bound: "\<bar>sint (v :: i32)\<bar> \<le> 2 ^ 31"
  using sint_greater_eq [of v] sint_less [of v] by simp

lemma sint_eq_iff: "sint v = sint w \<longleftrightarrow> v = (w :: i32)"
  by (auto intro: signed_word_eqI)

lemma out_of_range_coordinate:
  "out_of_range (coordinate (sint (v :: i32))) 90 \<longleftrightarrow> 900000000 < \<bar>sint v\<bar>"
  "out_of_range (coordinate (sint (v :: i32))) 180 \<longleftrightarrow> 1800000000 < \<bar>sint v\<bar>"
  using coord_val_le_iff [OF sint_i32_bound, of 900000000 v] coord_val_le_iff [OF _ sint_i32_bound, of "-900000000" v]
    coord_val_le_iff [OF sint_i32_bound, of 1800000000 v] coord_val_le_iff [OF _ sint_i32_bound, of "-1800000000" v]
  by (auto simp: out_of_range_def coordinate_val coord_val_bounds not_le [symmetric])

definition in_range :: "position \<Rightarrow> bool" where
  "in_range p \<longleftrightarrow>
     f64_le (Fin (-90)) (poLatitude p) \<and> f64_le (poLatitude p) (Fin 90) \<and>
     f64_le (Fin (-180)) (poLongitude p) \<and> f64_le (poLongitude p) (Fin 180)"

lemma not_out_of_range: "0 < b \<Longrightarrow> \<not> out_of_range x b \<longleftrightarrow> f64_le (Fin (- b)) x \<and> f64_le x (Fin b)"
  by (cases x) (auto simp: out_of_range_def f64_le_def)

lemma newPosition_Inr:
  "newPosition p la lo = Inr pos \<longleftrightarrow>
     \<not> out_of_range la 90 \<and> \<not> out_of_range lo 180 \<and>
     pos = \<lparr>poPacketID = 0, poSourceNode = pkFrom p, poMeshPacketID = pkMeshPacketID p,
       poSourcePort = pkPort p, poCallsign = NodeID (pkFrom p), poDeviceCallsign = [],
       poLatitude = la, poLongitude = lo, poAltitude = None, poSpeed = None, poCourse = None,
       poLocationSource = [], poPrecisionBits = 0,
       poSourceTime = (if is_zero (timeFromPacket p) then pkReceivedAt p else timeFromPacket p),
       poReceivedAt = pkReceivedAt p\<rparr>"
  by (auto simp: newPosition_def Let_def)

section \<open>The two position ports\<close>

definition data_record :: "mesh_packet \<Rightarrow> time \<Rightarrow> byte list \<Rightarrow> data_msg \<Rightarrow> packet" where
  "data_record m t raw d = (base_record m t raw)\<lparr>pkPort := dtPortnum d, pkRawPayload := dtPayload d\<rparr>"

lemma data_record_fields [simp]:
  "pkFrom (data_record m t raw d) = mpFrom m" "pkMeshPacketID (data_record m t raw d) = mpId m"
  "pkPort (data_record m t raw d) = dtPortnum d" "pkReceivedAt (data_record m t raw d) = t"
  "pkRadioRxTime (data_record m t raw d) = map_option unix_time (mpRxTime m)"
  by (simp_all add: data_record_def base_record_def)

lemma decodePositionApp_Inr:
  assumes "decodePositionApp lib p payload = Inr (pos, noFix)"
  obtains (no_fix) q where "unmarshal_position lib payload = Inr q" "pos = None" "noFix"
      "get_or_zero (mpoLatitudeI q) = 0" "get_or_zero (mpoLongitudeI q) = 0"
  | (fix_) q base where "unmarshal_position lib payload = Inr q" "\<not> noFix"
      "\<not> (get_or_zero (mpoLatitudeI q) = 0 \<and> get_or_zero (mpoLongitudeI q) = 0)"
      "newPosition p (coordinate (sint (get_or_zero (mpoLatitudeI q))))
         (coordinate (sint (get_or_zero (mpoLongitudeI q)))) = Inr base"
      "pos = Some (base\<lparr>poAltitude := map_option (\<lambda>a. f64_of_int (sint a)) (mpoAltitude q),
         poSourceTime := (if mpoTime q \<noteq> 0 then unix_time (mpoTime q) else poSourceTime base),
         poLocationSource := loc_source_name lib (mpoLocationSource q),
         poPrecisionBits := mpoPrecisionBits q\<rparr>)"
proof (cases "unmarshal_position lib payload")
  case (Inl e)
  with assms show ?thesis by (simp add: decodePositionApp_def)
next
  case (Inr q)
  show ?thesis
  proof (cases "get_or_zero (mpoLatitudeI q) = 0 \<and> get_or_zero (mpoLongitudeI q) = 0")
    case True
    with Inr assms show ?thesis by (intro no_fix [of q]) (simp_all add: decodePositionApp_def)
  next
    case False
    with Inr assms obtain base where base: "newPosition p (coordinate (sint (get_or_zero (mpoLatitudeI q))))
         (coordinate (sint (get_or_zero (mpoLongitudeI q)))) = Inr base"
      by (auto simp: decodePositionApp_def split: sum.splits)
    then have "poAltitude base = None" by (simp add: newPosition_Inr)
    with assms have "\<not> noFix \<and> pos = Some (base\<lparr>poAltitude := map_option (\<lambda>a. f64_of_int (sint a)) (mpoAltitude q),
         poSourceTime := (if mpoTime q \<noteq> 0 then unix_time (mpoTime q) else poSourceTime base),
         poLocationSource := loc_source_name lib (mpoLocationSource q),
         poPrecisionBits := mpoPrecisionBits q\<rparr>)"
      unfolding decodePositionApp_def Inr sum.case if_not_P [OF False] base Let_def
      by (cases base; cases "mpoAltitude q") auto
    with Inr False base show ?thesis by (intro fix_ [of q base]) simp_all
  qed
qed

lemma decodeLegacy_Inr:
  assumes "decodeLegacy lib p payload = Inr (pos, undecodable)"
  obtains tp pli base cs ds where "unmarshal_tak lib payload = Inr tp" "GetPli (Some tp) = Some pli"
    "newPosition p (coordinate (sint (plLatitudeI pli))) (coordinate (sint (plLongitudeI pli))) = Inr base"
    "decodeCallsigns (tpContact tp) (tpIsCompressed tp) = (cs, ds, undecodable)"
    "pos = base\<lparr>poCallsign := (if cs = [] then NodeID (pkFrom p) else cs), poDeviceCallsign := ds,
       poAltitude := (if plAltitude pli \<noteq> 0 then Some (f64_of_int (sint (plAltitude pli))) else None),
       poSpeed := (if plSpeed pli \<noteq> 0 then Some (f64_of_int (uint (plSpeed pli))) else None),
       poCourse := (if plCourse pli \<noteq> 0 then Some (f64_of_int (uint (plCourse pli))) else None)\<rparr>"
proof -
  from assms obtain tp pli base where 1: "unmarshal_tak lib payload = Inr tp" "GetPli (Some tp) = Some pli"
    "newPosition p (coordinate (sint (plLatitudeI pli))) (coordinate (sint (plLongitudeI pli))) = Inr base"
    by (auto simp: decodeLegacy_def GetLatitudeI_def GetLongitudeI_def split: sum.splits option.splits)
  obtain cs ds u where 2: "decodeCallsigns (tpContact tp) (tpIsCompressed tp) = (cs, ds, u)"
    by (cases "decodeCallsigns (tpContact tp) (tpIsCompressed tp)") auto
  have n: "poAltitude base = None" "poSpeed base = None" "poCourse base = None"
    using 1(3) by (simp_all add: newPosition_Inr)
  have "decodeLegacy lib p payload = Inr (base\<lparr>poCallsign := (if cs = [] then NodeID (pkFrom p) else cs), poDeviceCallsign := ds,
       poAltitude := (if plAltitude pli \<noteq> 0 then Some (f64_of_int (sint (plAltitude pli))) else None),
       poSpeed := (if plSpeed pli \<noteq> 0 then Some (f64_of_int (uint (plSpeed pli))) else None),
       poCourse := (if plCourse pli \<noteq> 0 then Some (f64_of_int (uint (plCourse pli))) else None)\<rparr>, u)"
  proof -
    have g: "GetLatitudeI (Some pli) = plLatitudeI pli" "GetLongitudeI (Some pli) = plLongitudeI pli"
      "GetAltitude (Some pli) = plAltitude pli" "GetSpeed (Some pli) = plSpeed pli"
      "GetCourse (Some pli) = plCourse pli" "GetContact (Some tp) = tpContact tp"
      "GetIsCompressed (Some tp) = tpIsCompressed tp"
      by (simp_all add: getter_defs)
    show ?thesis
      using n
      unfolding decodeLegacy_def 1(1) sum.case 1(2) option.case g 1(3) 2 prod.case Let_def
      by (cases base) simp
  qed
  with assms 1 2 that show ?thesis by simp
qed

lemma decode_Some_cases:
  assumes "snd (DecodeWithOptions lib m t app) = Some p"
  obtains (app) raw d where "marshal_packet lib m = Inr raw" "GetDecoded m = Some d"
      "dtPortnum d = POSITION_APP" "app"
      "decodePositionApp lib (data_record m t raw d) (dtPayload d) = Inr (Some p, False)"
      "fst (DecodeWithOptions lib m t app) = (data_record m t raw d)\<lparr>pkParseStatus := ''position''\<rparr>"
  | (legacy) raw d u where "marshal_packet lib m = Inr raw" "GetDecoded m = Some d"
      "dtPortnum d = ATAK_PLUGIN"
      "decodeLegacy lib (data_record m t raw d) (dtPayload d) = Inr (p, u)"
      "fst (DecodeWithOptions lib m t app) = (data_record m t raw d)\<lparr>pkParseStatus :=
         (if u then ''tak_callsign_undecodable'' else ''position'')\<rparr>"
  using assms
  by (auto simp: DecodeWithOptions_def data_record_def Let_def port_defs
      split: sum.splits option.splits if_splits prod.splits)

lemma errors_is_ErrNotPosition [simp]: "errors_is ErrNotPosition ErrNotPosition"
  by (simp add: ErrNotPosition_def)

lemma decodePositionApp_no_flag: "decodePositionApp lib p payload = Inr (pos, False) \<Longrightarrow> pos \<noteq> None"
  by (erule decodePositionApp_Inr) auto

lemma newPosition_accepts:
  "(\<exists>pos. newPosition p (coordinate (sint (la :: i32))) (coordinate (sint (lo :: i32))) = Inr pos)
     \<longleftrightarrow> \<bar>sint la\<bar> \<le> 900000000 \<and> \<bar>sint lo\<bar> \<le> 1800000000"
  using out_of_range_coordinate(1) [of la] out_of_range_coordinate(2) [of lo]
  by (auto simp: newPosition_Inr)

lemma decodePositionApp_accepts:
  assumes "unmarshal_position lib payload = Inr q"
  shows "(\<exists>pos. decodePositionApp lib p payload = Inr (Some pos, False)) \<longleftrightarrow>
    \<not> (get_or_zero (mpoLatitudeI q) = 0 \<and> get_or_zero (mpoLongitudeI q) = 0) \<and>
    \<bar>sint (get_or_zero (mpoLatitudeI q))\<bar> \<le> 900000000 \<and> \<bar>sint (get_or_zero (mpoLongitudeI q))\<bar> \<le> 1800000000"
  using newPosition_accepts [of p "get_or_zero (mpoLatitudeI q)" "get_or_zero (mpoLongitudeI q)"]
  by (auto simp: decodePositionApp_def assms Let_def split: sum.splits)

section \<open>A sample to instantiate the parameters with\<close>

definition sample_pli :: "i32 \<Rightarrow> i32 \<Rightarrow> tak_packet" where
  "sample_pli la lo =
     \<lparr>tpIsCompressed = False,
      tpContact = Some \<lparr>ctCallsign = [0x52, 0x31], ctDeviceCallsign = []\<rparr>,
      tpGroup = None, tpStatus = None,
      tpPayloadVariant = Some (TAKPacket_Pli (Some \<lparr>plLatitudeI = la, plLongitudeI = lo,
        plAltitude = 1734, plSpeed = 0, plCourse = 271\<rparr>))\<rparr>"

definition sample_mesh_position :: "i32 \<Rightarrow> i32 \<Rightarrow> mesh_position" where
  "sample_mesh_position la lo = \<lparr>mpoLatitudeI = Some la, mpoLongitudeI = Some lo, mpoAltitude = Some 1734,
     mpoTime = 1700000000, mpoLocationSource = 3, mpoPrecisionBits = 14\<rparr>"

definition sample_lib :: pb_lib where
  "sample_lib =
     \<lparr>marshal_packet = (\<lambda>_. Inr [1]),
      unmarshal_position = (\<lambda>bs. if bs = [0xff] then Inl (NewError ''proto'')
         else Inr (sample_mesh_position 398765432 (-1041234567))),
      unmarshal_tak = (\<lambda>bs. if bs = [0xff] then Inl (NewError ''proto'')
         else Inr (sample_pli 398765432 (-1041234567))),
      unmarshal_user = (\<lambda>_. Inr \<lparr>usShortName = ''R12'', usLongName = ''Rescue Twelve''\<rparr>),
      loc_source_name = (\<lambda>v. if v = 3 then ''LOC_EXTERNAL'' else ''LOC_UNSET'')\<rparr>"

definition sample_packet :: "u32 \<Rightarrow> i32 \<Rightarrow> mesh_packet" where
  "sample_packet node port =
     \<lparr>mpFrom = node, mpTo = 0xffffffff, mpId = 99, mpChannel = 0, mpHopLimit = 3, mpHopStart = 3,
      mpRxSnr = Fin 0, mpViaMqtt = False, mpPkiEncrypted = False, mpRxRssi = None,
      mpRxTime = Some 1700000000, mpVariant = Some (Decoded \<lparr>dtPortnum = port, dtPayload = [8]\<rparr>)\<rparr>"

lemma sample_lib_simps [simp]:
  "marshal_packet sample_lib m = Inr [1]"
  "unmarshal_position sample_lib bs = (if bs = [0xff] then Inl (NewError ''proto'')
     else Inr (sample_mesh_position 398765432 (-1041234567)))"
  "unmarshal_tak sample_lib bs = (if bs = [0xff] then Inl (NewError ''proto'')
     else Inr (sample_pli 398765432 (-1041234567)))"
  "unmarshal_user sample_lib bs = Inr \<lparr>usShortName = ''R12'', usLongName = ''Rescue Twelve''\<rparr>"
  by (simp_all add: sample_lib_def)

lemmas sample_defs = sample_packet_def sample_mesh_position_def sample_pli_def

lemma decode_sample:
  obtains p where "snd (DecodeWithOptions sample_lib (sample_packet node POSITION_APP) t True) = Some p"
    "fst (DecodeWithOptions sample_lib (sample_packet node POSITION_APP) t True) =
      (data_record (sample_packet node POSITION_APP) t [1] \<lparr>dtPortnum = POSITION_APP, dtPayload = [8]\<rparr>)
        \<lparr>pkParseStatus := ''position''\<rparr>"
proof -
  have "(\<exists>pos. decodePositionApp sample_lib
      (data_record (sample_packet node POSITION_APP) t [1] \<lparr>dtPortnum = POSITION_APP, dtPayload = [8]\<rparr>) [8]
      = Inr (Some pos, False))"
    by (subst decodePositionApp_accepts [where q = "sample_mesh_position 398765432 (-1041234567)"])
      (simp_all add: sample_defs get_or_zero_def)
  with that show ?thesis
    by (auto simp: DecodeWithOptions_def data_record_def sample_packet_def GetDecoded_def)
qed

section \<open>Properties\<close>

text \<open>
  The rounding of \<open>float64(v) * 1e-7\<close> is harmless: for every \<open>int32\<close> the product prints, with
  seven decimals, as exactly the integer with its point moved; different integers give different
  doubles; and the range checks against 90 and 180 degrees accept exactly the integers up to
  900000000 and 1800000000 in size.
\<close>
theorem coordinate_exact:
  "fmt_fixed7 (coordinate (sint (v :: i32))) = (if sint v < 0 then ''-'' else []) @ dec7 (sint v) \<and>
   (coordinate (sint v) = coordinate (sint (w :: i32)) \<longleftrightarrow> v = w) \<and>
   (out_of_range (coordinate (sint v)) 90 \<longleftrightarrow> 900000000 < \<bar>sint v\<bar>) \<and>
   (out_of_range (coordinate (sint v)) 180 \<longleftrightarrow> 1800000000 < \<bar>sint v\<bar>)"
  using fmt_fixed7_coordinate [OF sint_i32_bound] out_of_range_coordinate
    coord_val_eq_iff [OF sint_i32_bound sint_i32_bound] sint_eq_iff [of v w]
  by (simp add: coordinate_val)

text \<open>
  A packet is recorded with status \<open>position\<close> or \<open>tak_callsign_undecodable\<close> exactly when a
  position comes with it; no other status ever carries one, and none of these is lost.
\<close>
theorem decode_status_position:
  "snd (DecodeWithOptions lib m t app) \<noteq> None \<longleftrightarrow>
   pkParseStatus (fst (DecodeWithOptions lib m t app)) \<in> {''position'', ''tak_callsign_undecodable''}"
proof
  assume "snd (DecodeWithOptions lib m t app) \<noteq> None"
  then obtain p where "snd (DecodeWithOptions lib m t app) = Some p" by blast
  then show "pkParseStatus (fst (DecodeWithOptions lib m t app)) \<in> {''position'', ''tak_callsign_undecodable''}"
    by (rule decode_Some_cases) auto
next
  assume "pkParseStatus (fst (DecodeWithOptions lib m t app)) \<in> {''position'', ''tak_callsign_undecodable''}"
  then show "snd (DecodeWithOptions lib m t app) \<noteq> None"
    using decodePositionApp_no_flag
    by (auto simp: DecodeWithOptions_def Let_def data_record_def port_defs
        split: sum.splits option.splits if_splits prod.splits)
qed

text \<open>
  C34: Every position the decoder returns is storable: it lies in the range the database checks, names
  the sending node, the packet id and one of the two position ports (port 3 only when enabled), has a
  non-empty callsign and the time of receipt of the packet.
\<close>
theorem decode_position_sound:
  assumes "snd (DecodeWithOptions lib m t app) = Some p"
  shows "in_range p \<and> poSourceNode p = mpFrom m \<and> poMeshPacketID p = mpId m \<and>
    (poSourcePort p = ATAK_PLUGIN \<or> (poSourcePort p = POSITION_APP \<and> app)) \<and>
    poCallsign p \<noteq> [] \<and> poReceivedAt p = t"
  using assms
proof (cases rule: decode_Some_cases)
  case (app raw d)
  from app(5) show ?thesis
  proof (cases rule: decodePositionApp_Inr)
    case no_fix
    then show ?thesis by simp
  next
    case (fix_ q base)
    then show ?thesis
      using app(3,4) by (simp add: newPosition_Inr in_range_def not_out_of_range)
  qed
next
  case (legacy raw d u)
  from legacy(4) show ?thesis
  proof (cases rule: decodeLegacy_Inr)
    case (1 tp pli base cs ds)
    then show ?thesis
      using legacy(3) by (simp add: newPosition_Inr in_range_def not_out_of_range)
  qed
qed

theorem decode_position_sound_witness:
  "\<exists>p. snd (DecodeWithOptions sample_lib (sample_packet 42 POSITION_APP) 1700000100000000000 True) = Some p \<and>
     in_range p \<and> poSourceNode p = 42"
proof -
  obtain p where p: "snd (DecodeWithOptions sample_lib (sample_packet 42 POSITION_APP) 1700000100000000000 True) = Some p"
    by (rule decode_sample)
  with decode_position_sound [OF p] show ?thesis by (auto simp: sample_packet_def)
qed

lemma position_app_parts:
  assumes "marshal_packet lib m = Inr raw" "GetDecoded m = Some d" "dtPortnum d = POSITION_APP"
    and "unmarshal_position lib (dtPayload d) = Inr q"
  defines "la \<equiv> sint (get_or_zero (mpoLatitudeI q))" and "lo \<equiv> sint (get_or_zero (mpoLongitudeI q))"
  shows "pkParseStatus (fst (DecodeWithOptions lib m t True)) =
      (if la = 0 \<and> lo = 0 then ''position_no_fix''
       else if \<bar>la\<bar> \<le> 900000000 \<and> \<bar>lo\<bar> \<le> 1800000000 then ''position'' else ''malformed'')"
    and "snd (DecodeWithOptions lib m t True) \<noteq> None \<longleftrightarrow>
      \<not> (la = 0 \<and> lo = 0) \<and> \<bar>la\<bar> \<le> 900000000 \<and> \<bar>lo\<bar> \<le> 1800000000"
proof -
  let ?dec = "decodePositionApp lib (data_record m t raw d) (dtPayload d)"
  have zero: "la = 0 \<longleftrightarrow> get_or_zero (mpoLatitudeI q) = 0" "lo = 0 \<longleftrightarrow> get_or_zero (mpoLongitudeI q) = 0"
    using sint_eq_iff [of "get_or_zero (mpoLatitudeI q)" 0] sint_eq_iff [of "get_or_zero (mpoLongitudeI q)" 0]
    by (simp_all add: la_def lo_def)
  have acc: "(\<exists>pos. ?dec = Inr (Some pos, False)) \<longleftrightarrow>
      \<not> (la = 0 \<and> lo = 0) \<and> \<bar>la\<bar> \<le> 900000000 \<and> \<bar>lo\<bar> \<le> 1800000000"
    using decodePositionApp_accepts [OF assms(4)] zero by (simp add: la_def lo_def)
  have nofix: "?dec = Inr (None, True) \<longleftrightarrow> la = 0 \<and> lo = 0"
    using assms(4) zero by (auto simp: decodePositionApp_def Let_def split: sum.splits)
  have full: "DecodeWithOptions lib m t True =
     (case ?dec of
        Inl e \<Rightarrow> ((data_record m t raw d)\<lparr>pkParseStatus := ''malformed'', pkParseError := error_text e\<rparr>, None)
      | Inr (pos, noFix) \<Rightarrow>
          if noFix then ((data_record m t raw d)\<lparr>pkParseStatus := ''position_no_fix''\<rparr>, None)
          else ((data_record m t raw d)\<lparr>pkParseStatus := ''position''\<rparr>, pos))"
    using assms(1-3) unfolding data_record_def by (simp add: DecodeWithOptions_def Let_def split: sum.split)
  consider (none) "?dec = Inr (None, True)" | (some) pos where "?dec = Inr (Some pos, False)"
    | (err) e where "?dec = Inl e"
    by (cases ?dec) (auto elim: decodePositionApp_Inr)
  then show "pkParseStatus (fst (DecodeWithOptions lib m t True)) =
      (if la = 0 \<and> lo = 0 then ''position_no_fix''
       else if \<bar>la\<bar> \<le> 900000000 \<and> \<bar>lo\<bar> \<le> 1800000000 then ''position'' else ''malformed'')"
    and "snd (DecodeWithOptions lib m t True) \<noteq> None \<longleftrightarrow>
      \<not> (la = 0 \<and> lo = 0) \<and> \<bar>la\<bar> \<le> 900000000 \<and> \<bar>lo\<bar> \<le> 1800000000"
    using acc nofix full by (cases; simp)+
qed

text \<open>
  C35: For a decodable port-3 report, the decoder yields a position exactly when the fix is not the
  all-zero "no fix" and both integers are within range; it is otherwise archived without a position,
  as \<open>position_no_fix\<close> when both are zero and as \<open>malformed\<close> when one is out of range.
\<close>
theorem position_app_outcome:
  assumes "marshal_packet lib m = Inr raw" "GetDecoded m = Some d" "dtPortnum d = POSITION_APP"
    and "unmarshal_position lib (dtPayload d) = Inr q"
  shows "let la = sint (get_or_zero (mpoLatitudeI q)); lo = sint (get_or_zero (mpoLongitudeI q)) in
    pkParseStatus (fst (DecodeWithOptions lib m t True)) =
      (if la = 0 \<and> lo = 0 then ''position_no_fix''
       else if \<bar>la\<bar> \<le> 900000000 \<and> \<bar>lo\<bar> \<le> 1800000000 then ''position'' else ''malformed'') \<and>
    (snd (DecodeWithOptions lib m t True) \<noteq> None \<longleftrightarrow>
      \<not> (la = 0 \<and> lo = 0) \<and> \<bar>la\<bar> \<le> 900000000 \<and> \<bar>lo\<bar> \<le> 1800000000)"
  unfolding Let_def using position_app_parts [OF assms] by (rule conjI)

theorem position_app_outcome_witness:
  "pkParseStatus (fst (DecodeWithOptions sample_lib (sample_packet 42 POSITION_APP) 0 True)) = ''position''"
  using position_app_outcome [of sample_lib "sample_packet 42 POSITION_APP" "[1]"
      "\<lparr>dtPortnum = POSITION_APP, dtPayload = [8]\<rparr>" "sample_mesh_position 398765432 (-1041234567)" 0]
  by (simp add: sample_defs GetDecoded_def get_or_zero_def)

lemma legacy_callsign_parts:
  assumes "decodeLegacy lib p payload = Inr (pos, undecodable)"
    and "unmarshal_tak lib payload = Inr tp"
  shows "poCallsign pos =
      (case tpContact tp of None \<Rightarrow> NodeID (pkFrom p)
       | Some c \<Rightarrow>
           let name = trim_space (string_of_bytes (ctCallsign c)) in
           if tpIsCompressed tp \<or> \<not> utf8_valid (ctCallsign c) \<or> \<not> utf8_valid (ctDeviceCallsign c) \<or> name = []
           then NodeID (pkFrom p) else name)"
    and "undecodable \<longleftrightarrow>
      (case tpContact tp of None \<Rightarrow> False
       | Some c \<Rightarrow> if tpIsCompressed tp then ctCallsign c \<noteq> [] \<or> ctDeviceCallsign c \<noteq> []
           else \<not> utf8_valid (ctCallsign c) \<or> \<not> utf8_valid (ctDeviceCallsign c))"
proof -
  obtain cs ds where dc: "decodeCallsigns (tpContact tp) (tpIsCompressed tp) = (cs, ds, undecodable)"
    and cs: "poCallsign pos = (if cs = [] then NodeID (pkFrom p) else cs)"
    using assms by (auto elim!: decodeLegacy_Inr)
  show "poCallsign pos =
      (case tpContact tp of None \<Rightarrow> NodeID (pkFrom p)
       | Some c \<Rightarrow>
           let name = trim_space (string_of_bytes (ctCallsign c)) in
           if tpIsCompressed tp \<or> \<not> utf8_valid (ctCallsign c) \<or> \<not> utf8_valid (ctDeviceCallsign c) \<or> name = []
           then NodeID (pkFrom p) else name)"
    using dc cs by (cases "tpContact tp") (auto simp: decodeCallsigns_def getter_defs Let_def split: if_splits)
  show "undecodable \<longleftrightarrow>
      (case tpContact tp of None \<Rightarrow> False
       | Some c \<Rightarrow> if tpIsCompressed tp then ctCallsign c \<noteq> [] \<or> ctDeviceCallsign c \<noteq> []
           else \<not> utf8_valid (ctCallsign c) \<or> \<not> utf8_valid (ctDeviceCallsign c))"
    using dc by (cases "tpContact tp") (auto simp: decodeCallsigns_def getter_defs Let_def split: if_splits)
qed

text \<open>
  A legacy position carries the trimmed callsign of its contact when the packet is uncompressed
  and both callsigns are valid UTF-8, and the node identifier when there is no usable callsign; it
  is flagged undecodable exactly when callsign bytes were there that could not be read (compressed,
  or invalid UTF-8), never because the contact is missing.
\<close>
theorem legacy_callsign:
  assumes "decodeLegacy lib p payload = Inr (pos, undecodable)"
    and "unmarshal_tak lib payload = Inr tp"
  shows "poCallsign pos =
      (case tpContact tp of None \<Rightarrow> NodeID (pkFrom p)
       | Some c \<Rightarrow>
           let name = trim_space (string_of_bytes (ctCallsign c)) in
           if tpIsCompressed tp \<or> \<not> utf8_valid (ctCallsign c) \<or> \<not> utf8_valid (ctDeviceCallsign c) \<or> name = []
           then NodeID (pkFrom p) else name) \<and>
    (undecodable \<longleftrightarrow>
      (case tpContact tp of None \<Rightarrow> False
       | Some c \<Rightarrow> if tpIsCompressed tp then ctCallsign c \<noteq> [] \<or> ctDeviceCallsign c \<noteq> []
           else \<not> utf8_valid (ctCallsign c) \<or> \<not> utf8_valid (ctDeviceCallsign c)))"
  using legacy_callsign_parts [OF assms] by (rule conjI)

text \<open>The contact bytes \<open>R1\<close> become the callsign.\<close>
theorem legacy_callsign_witness:
  "\<exists>pos. decodeLegacy sample_lib (base_record (sample_packet 42 ATAK_PLUGIN) 0 []) [8] = Inr (pos, False) \<and>
     poCallsign pos = trim_space (string_of_bytes [0x52, 0x31])"
proof -
  let ?p = "base_record (sample_packet 42 ATAK_PLUGIN) 0 []"
  obtain base where "newPosition ?p (coordinate (sint (398765432 :: i32))) (coordinate (sint (-1041234567 :: i32))) = Inr base"
    using newPosition_accepts [of ?p 398765432 "-1041234567"] by auto
  then have "\<exists>pos u. decodeLegacy sample_lib ?p [8] = Inr (pos, u)"
    by (auto simp: decodeLegacy_def sample_pli_def getter_defs Let_def split: prod.split)
  then obtain pos u where pos: "decodeLegacy sample_lib ?p [8] = Inr (pos, u)" by blast
  have "unmarshal_tak sample_lib [8] = Inr (sample_pli 398765432 (-1041234567))" by simp
  note l = legacy_callsign [OF pos this]
  have sp: "trim_space (string_of_bytes [0x52, 0x31]) \<noteq> []"
    by (simp add: string_of_bytes_def trim_space_def space_runes_def trim_by.simps is_prefix_def
        char_of_def)
  show ?thesis
    using pos l sp by (simp add: sample_pli_def)
qed

text \<open>
  The time of a position: the fix time of a port-3 report when the radio gave one, else the
  receiving radio's rx time, else the time of receipt; a packet's rx time that is present but zero
  counts as a time (1970), since only Go's zero time is treated as absent.
\<close>
theorem decode_source_time:
  assumes "snd (DecodeWithOptions lib m t app) = Some p" and "GetDecoded m = Some d"
  shows "poSourceTime p =
      (let rx = (case mpRxTime m of Some s \<Rightarrow> unix_time s | None \<Rightarrow> t) in
       if dtPortnum d = POSITION_APP
       then (case unmarshal_position lib (dtPayload d) of
               Inr q \<Rightarrow> if mpoTime q \<noteq> 0 then unix_time (mpoTime q) else rx
             | Inl e \<Rightarrow> rx)
       else rx)"
proof -
  have nz: "\<not> is_zero (unix_time s)" for s
  proof -
    have "0 \<le> unix_time s" by (simp add: unix_time_def second_def)
    then show ?thesis by (auto simp: is_zero_def zero_time_def second_def)
  qed
  have base: "poSourceTime b = (case mpRxTime m of Some s \<Rightarrow> unix_time s | None \<Rightarrow> t)"
    if "newPosition (data_record m t raw d') la lo = Inr b" for b raw d' la lo
    using that nz by (auto simp: newPosition_Inr timeFromPacket_def split: option.splits)
  from assms(1) show ?thesis
  proof (cases rule: decode_Some_cases)
    case (app raw d')
    from app(5) show ?thesis
    proof (cases rule: decodePositionApp_Inr)
      case no_fix
      then show ?thesis by simp
    next
      case (fix_ q b)
      then show ?thesis using app(2,3) assms(2) base [OF fix_(4)] by simp
    qed
  next
    case (legacy raw d' u)
    from legacy(4) show ?thesis
    proof (cases rule: decodeLegacy_Inr)
      case (1 tp pli b cs ds)
      then show ?thesis using legacy(2,3) assms(2) base [OF 1(3)] by (simp add: port_defs)
    qed
  qed
qed

theorem decode_source_time_witness:
  "\<exists>p. snd (DecodeWithOptions sample_lib (sample_packet 42 POSITION_APP) 5 True) = Some p \<and>
     poSourceTime p = 1700000000 * second"
proof -
  obtain p where p: "snd (DecodeWithOptions sample_lib (sample_packet 42 POSITION_APP) 5 True) = Some p"
    by (rule decode_sample)
  have d: "GetDecoded (sample_packet 42 POSITION_APP) = Some \<lparr>dtPortnum = POSITION_APP, dtPayload = [8]\<rparr>"
    by (simp add: sample_packet_def GetDecoded_def)
  show ?thesis
    using p decode_source_time [OF p d] by (simp add: sample_mesh_position_def unix_time_def)
qed

text \<open>
  Whatever a packet is, its record keeps what was received: the addressing fields, the whole
  marshalled packet, and the decoded payload or, when the radio could not decrypt it, the ciphertext;
  the record is marked encrypted exactly when there was no decoded payload. Only a packet that cannot
  be marshalled loses its bytes, and it is recorded as \<open>invalid_packet\<close>.
\<close>
theorem decode_keeps_packet:
  "case DecodeWithOptions lib m t app of (r, _) \<Rightarrow>
     pkFrom r = mpFrom m \<and> pkTo r = mpTo m \<and> pkMeshPacketID r = mpId m \<and> pkReceivedAt r = t \<and>
     (case marshal_packet lib m of
        Inl e \<Rightarrow> pkParseStatus r = ''invalid_packet'' \<and> pkRawPacket r = [] \<and> pkRawPayload r = [] \<and> \<not> pkEncrypted r
      | Inr raw \<Rightarrow> pkRawPacket r = raw \<and> (pkEncrypted r \<longleftrightarrow> GetDecoded m = None) \<and>
          pkRawPayload r = (case mpVariant m of Some (Decoded d) \<Rightarrow> dtPayload d
            | Some (Encrypted bs) \<Rightarrow> bs | None \<Rightarrow> []))"
proof -
  have "fst (DecodeWithOptions lib m t app) = r \<Longrightarrow>
     pkFrom r = mpFrom m \<and> pkTo r = mpTo m \<and> pkMeshPacketID r = mpId m \<and> pkReceivedAt r = t \<and>
     (case marshal_packet lib m of
        Inl e \<Rightarrow> pkParseStatus r = ''invalid_packet'' \<and> pkRawPacket r = [] \<and> pkRawPayload r = [] \<and> \<not> pkEncrypted r
      | Inr raw \<Rightarrow> pkRawPacket r = raw \<and> (pkEncrypted r \<longleftrightarrow> GetDecoded m = None) \<and>
          pkRawPayload r = (case mpVariant m of Some (Decoded d) \<Rightarrow> dtPayload d
            | Some (Encrypted bs) \<Rightarrow> bs | None \<Rightarrow> []))" for r
    by (cases "marshal_packet lib m"; cases "mpVariant m" rule: option.exhaust)
      (auto simp: DecodeWithOptions_def Let_def base_record_def GetDecoded_def GetEncrypted_def
        split: sum.splits option.splits if_splits prod.splits mesh_variant.splits)
  then show ?thesis by (simp add: split_beta)
qed

end
