(* ===== verification/Ingest.thy ===== *)
theory Ingest
  imports Decoder
begin

text \<open>
  The ingest service of \<^verbatim>\<open>internal/ingest/service.go\<close>: what is done with one message from the
  radio. Its interfaces \<open>Archiver\<close> and \<open>NodeDirectory\<close>, the wake callback and the clock act on a state
  \<open>'s\<close>; the service's own mutable field and the log lines it wrote are the record \<open>ingest_state\<close>. A
  message has one field per accessor that \<open>Handle\<close> calls. The locale \<open>packet_archive\<close> has the laws of
  an archive under which a message is archived exactly once.
\<close>

section \<open>Messages and the service\<close>

record from_radio =
  frMetadata :: "string option"
  frDeviceRole :: "string option"
  frConfigCompleteId :: u32
  frNodeInfo :: "(u32 \<times> pb_user option) option"
  frPacket :: "mesh_packet option"

record 's node_directory =
  ndUpsertNode :: "u32 \<Rightarrow> string \<Rightarrow> string \<Rightarrow> 's \<Rightarrow> go_error option \<times> 's"
  ndNodeCallsign :: "u32 \<Rightarrow> 's \<Rightarrow> string result \<times> 's"

record 's service =
  svArchive :: "packet \<Rightarrow> position option \<Rightarrow> bool \<Rightarrow> 's \<Rightarrow> (int \<times> int \<times> bool) result \<times> 's"
  svNodes :: "'s node_directory option"
  svEnqueueCalTopo :: bool
  svDecodePositionApp :: bool
  svWakeDeliveries :: "('s \<Rightarrow> 's) option"
  svNow :: "'s \<Rightarrow> time"

datatype log_line =
    RadioMetadata string
  | RadioRole string
  | ConfigReceived u32
  | UndecodableUser string go_error
  | EncryptedPacket string u32
  | ArchivedPosition int int string string f64 f64

record ingest_state =
  isLastEncryptedLog :: time
  isLog :: "log_line list"

definition new_ingest :: ingest_state where
  "new_ingest = \<lparr>isLastEncryptedLog = zero_time, isLog = []\<rparr>"

definition log_to :: "log_line \<Rightarrow> ingest_state \<Rightarrow> ingest_state" where
  "log_to line st = st\<lparr>isLog := isLog st @ [line]\<rparr>"

section \<open>Handle\<close>

definition minute :: duration where
  "minute = 60 * second"

definition rememberNode :: "'s service \<Rightarrow> u32 \<Rightarrow> pb_user option \<Rightarrow> 's \<Rightarrow> go_error option \<times> 's" where
  "rememberNode sv node user s =
     (case (svNodes sv, user) of
        (Some nd, Some u) \<Rightarrow> ndUpsertNode nd node (usShortName u) (usLongName u) s
      | _ \<Rightarrow> (None, s))"

definition logEncrypted :: "time \<Rightarrow> packet \<Rightarrow> ingest_state \<Rightarrow> ingest_state" where
  "logEncrypted now p st =
     (if time_sub now (isLastEncryptedLog st) < minute then st
      else log_to (EncryptedPacket (NodeID (pkFrom p)) (pkMeshPacketID p)) (st\<lparr>isLastEncryptedLog := now\<rparr>))"

text \<open>A node-info packet updates the directory; one that cannot be decoded is only reported.\<close>

definition learn_node ::
  "pb_lib \<Rightarrow> 's service \<Rightarrow> mesh_packet \<Rightarrow> ingest_state \<Rightarrow> 's \<Rightarrow> go_error option \<times> ingest_state \<times> 's" where
  "learn_node lib sv m st s =
     (case GetDecoded m of
        None \<Rightarrow> (None, st, s)
      | Some data \<Rightarrow>
          if dtPortnum data \<noteq> NODEINFO_APP then (None, st, s)
          else (case unmarshal_user lib (dtPayload data) of
              Inl e \<Rightarrow> (None, log_to (UndecodableUser (NodeID (mpFrom m)) e) st, s)
            | Inr user \<Rightarrow>
                (case rememberNode sv (mpFrom m) (Some user) s of (r, s1) \<Rightarrow> (r, st, s1))))"

text \<open>A position that carries the node's id for want of a callsign gets the one in the directory.\<close>

definition resolve_callsign :: "'s service \<Rightarrow> position option \<Rightarrow> 's \<Rightarrow> position option result \<times> 's" where
  "resolve_callsign sv pos s =
     (case (pos, svNodes sv) of
        (Some p, Some nd) \<Rightarrow>
          if poCallsign p = SourceID p
          then (case ndNodeCallsign nd (poSourceNode p) s of
              (Inl e, s1) \<Rightarrow> (Inl e, s1)
            | (Inr callsign, s1) \<Rightarrow> (Inr (Some (if callsign \<noteq> [] then p\<lparr>poCallsign := callsign\<rparr> else p)), s1))
          else (Inr pos, s)
      | _ \<Rightarrow> (Inr pos, s))"

definition archived_line :: "int \<Rightarrow> int \<Rightarrow> position \<Rightarrow> log_line" where
  "archived_line packetID positionID p =
     ArchivedPosition packetID positionID (SourceID p) (poCallsign p) (poLatitude p) (poLongitude p)"

text \<open>What follows a successful \<open>Archive\<close>: the two log lines and the wake-up.\<close>

definition announce ::
  "'s service \<Rightarrow> packet \<Rightarrow> position option \<Rightarrow> int \<times> int \<times> bool \<Rightarrow> ingest_state \<Rightarrow> 's \<Rightarrow> ingest_state \<times> 's" where
  "announce sv record pos ids st s =
     (let (packetID, positionID, inserted) = ids;
          st1 = (if pkEncrypted record then logEncrypted (svNow sv s) record st else st)
      in case pos of
           None \<Rightarrow> (st1, s)
         | Some p \<Rightarrow>
             if inserted
             then (log_to (archived_line packetID positionID p) st1,
                   case svWakeDeliveries sv of None \<Rightarrow> s | Some wake \<Rightarrow> wake s)
             else (st1, s))"

definition handle_packet ::
  "pb_lib \<Rightarrow> 's service \<Rightarrow> mesh_packet \<Rightarrow> ingest_state \<Rightarrow> 's \<Rightarrow> go_error option \<times> ingest_state \<times> 's" where
  "handle_packet lib sv m st s =
     (case learn_node lib sv m st s of
        (Some e, st1, s1) \<Rightarrow> (Some e, st1, s1)
      | (None, st1, s1) \<Rightarrow>
          (let (record, pos) = DecodeWithOptions lib m (svNow sv s1) (svDecodePositionApp sv) in
           case resolve_callsign sv pos s1 of
             (Inl e, s2) \<Rightarrow> (Some e, st1, s2)
           | (Inr pos', s2) \<Rightarrow>
               (case svArchive sv record pos' (svEnqueueCalTopo sv) s2 of
                  (Inl e, s3) \<Rightarrow> (Some e, st1, s3)
                | (Inr ids, s3) \<Rightarrow>
                    (case announce sv record pos' ids st1 s3 of (st2, s4) \<Rightarrow> (None, st2, s4)))))"

definition Handle ::
  "pb_lib \<Rightarrow> 's service \<Rightarrow> from_radio \<Rightarrow> ingest_state \<Rightarrow> 's \<Rightarrow> go_error option \<times> ingest_state \<times> 's" where
  "Handle lib sv m st s =
     (case frMetadata m of
        Some firmware \<Rightarrow> (None, log_to (RadioMetadata firmware) st, s)
      | None \<Rightarrow>
      (case frDeviceRole m of
        Some role \<Rightarrow> (None, log_to (RadioRole role) st, s)
      | None \<Rightarrow>
      if frConfigCompleteId m \<noteq> 0
      then (None, log_to (ConfigReceived (frConfigCompleteId m)) st, s)
      else
      (case frNodeInfo m of
        Some (num, user) \<Rightarrow> (case rememberNode sv num user s of (r, s1) \<Rightarrow> (r, st, s1))
      | None \<Rightarrow>
      (case frPacket m of
        None \<Rightarrow> (None, st, s)
      | Some packet \<Rightarrow> handle_packet lib sv packet st s))))"

text \<open>The packet that \<open>Handle\<close> archives for a message, if it gets that far.\<close>

definition packet_of :: "from_radio \<Rightarrow> mesh_packet option" where
  "packet_of m =
     (if frMetadata m = None \<and> frDeviceRole m = None \<and> frConfigCompleteId m = 0 \<and> frNodeInfo m = None
      then frPacket m else None)"

lemma Handle_packet:
  "packet_of m = Some p \<Longrightarrow> Handle lib sv m st s = handle_packet lib sv p st s"
  by (auto simp: packet_of_def Handle_def split: if_splits)

section \<open>Encrypted packets\<close>

text \<open>The times at which the warning is written while encrypted packets arrive at the given times.\<close>

fun warned_at :: "ingest_state \<Rightarrow> (time \<times> packet) list \<Rightarrow> time list" where
  "warned_at st [] = []"
| "warned_at st ((now, p) # xs) =
     (let st' = logEncrypted now p st
      in (if isLog st' = isLog st then [] else [now]) @ warned_at st' xs)"

lemma logEncrypted_cases:
  "isLog (logEncrypted now p st) = isLog st \<and> logEncrypted now p st = st \<and> time_sub now (isLastEncryptedLog st) < minute \<or>
   isLog (logEncrypted now p st) \<noteq> isLog st \<and> isLastEncryptedLog (logEncrypted now p st) = now \<and>
     minute \<le> time_sub now (isLastEncryptedLog st)"
  by (auto simp: logEncrypted_def log_to_def)

lemma time_sub_minute: "time_sub t u < minute \<longleftrightarrow> t - u < minute"
  by (auto simp: time_sub_def minute_def second_def)


lemma warned_gaps:
  assumes "sorted (map fst xs)"
  shows "sorted_wrt (\<lambda>a b. minute \<le> b - a) (warned_at st xs) \<and>
    (\<forall>w \<in> set (warned_at st xs). minute \<le> w - isLastEncryptedLog st) \<and>
    set (warned_at st xs) \<subseteq> fst ` set xs"
  using assms
proof (induction xs arbitrary: st)
  case (Cons x xs)
  obtain now p where x: "x = (now, p)" by fastforce
  have s: "sorted (map fst xs)" using Cons.prems by simp
  have m: "0 \<le> minute" by (simp add: minute_def second_def)
  from logEncrypted_cases [of now p st] show ?case
    using Cons.IH [OF s, of st] Cons.IH [OF s, of "logEncrypted now p st"] m
    by (auto simp: x Let_def time_sub_minute not_less [symmetric])
qed simp

lemma warned_covers:
  assumes "sorted (map fst xs)" "t \<in> fst ` set xs"
  shows "t - isLastEncryptedLog st < minute \<or> (\<exists>w \<in> set (warned_at st xs). w \<le> t \<and> t - w < minute)"
  using assms
proof (induction xs arbitrary: st)
  case (Cons x xs)
  obtain now p where x: "x = (now, p)" by fastforce
  have s: "sorted (map fst xs)" "now \<le> t" using Cons.prems by (auto simp: x)
  have m: "0 < minute" by (simp add: minute_def second_def)
  show ?case
  proof (cases "t = now")
    case True
    with logEncrypted_cases [of now p st] m show ?thesis by (auto simp: x Let_def time_sub_minute)
  next
    case False
    then have "t \<in> fst ` set xs" using Cons.prems(2) by (auto simp: x)
    with logEncrypted_cases [of now p st] Cons.IH [OF s(1), of "logEncrypted now p st"] s(2) show ?thesis
      by (auto simp: x Let_def)
  qed
qed simp

section \<open>The interface\<close>

text \<open>
  \<open>archived\<close> is the list of rows an archive keeps, \<open>row p\<close> the row of a packet, \<open>kept\<close> everything
  that only a successful \<open>Archive\<close> may change. Such a call appends one row; nothing else the service
  calls touches either.
\<close>

locale packet_archive =
  fixes sv :: "'s service"
    and archived :: "'s \<Rightarrow> 'r list"
    and row :: "packet \<Rightarrow> 'r"
    and kept :: "'s \<Rightarrow> 'k"
  assumes archive: "svArchive sv p pos en s = (Inr ids, s') \<Longrightarrow> archived s' = archived s @ [row p]"
    and archive_failed: "svArchive sv p pos en s = (Inl e, s') \<Longrightarrow> archived s' = archived s \<and> kept s' = kept s"
    and upsert: "svNodes sv = Some nd \<Longrightarrow> ndUpsertNode nd n a b s = (u, s') \<Longrightarrow>
      archived s' = archived s \<and> kept s' = kept s"
    and callsign: "svNodes sv = Some nd \<Longrightarrow> ndNodeCallsign nd n s = (cs, s') \<Longrightarrow>
      archived s' = archived s \<and> kept s' = kept s"
    and wake: "svWakeDeliveries sv = Some f \<Longrightarrow> archived (f s) = archived s"
begin

lemma rememberNode_archived: "rememberNode sv n u s = (r, s') \<Longrightarrow> archived s' = archived s \<and> kept s' = kept s"
  by (auto simp: rememberNode_def upsert split: option.splits)

lemma learn_node_archived: "learn_node lib sv m st s = (r, st', s') \<Longrightarrow> archived s' = archived s \<and> kept s' = kept s"
  by (auto simp: learn_node_def rememberNode_archived split: option.splits sum.splits if_splits prod.splits)

lemma resolve_callsign_archived: "resolve_callsign sv pos s = (r, s') \<Longrightarrow> archived s' = archived s \<and> kept s' = kept s"
  by (auto simp: resolve_callsign_def callsign split: option.splits sum.splits if_splits prod.splits)

lemma announce_archived: "announce sv p pos ids st s = (st', s') \<Longrightarrow> archived s' = archived s"
  by (auto simp: announce_def Let_def wake split: option.splits if_splits prod.splits)

text \<open>An error leaves the archive as it was, success appends the row of this packet.\<close>

lemma handle_packet_archived:
  assumes "handle_packet lib sv m st s = (r, st', s')"
  shows "case r of Some e \<Rightarrow> archived s' = archived s \<and> kept s' = kept s
    | None \<Rightarrow> \<exists>t. archived s' = archived s @ [row (fst (DecodeWithOptions lib m t (svDecodePositionApp sv)))]"
proof -
  obtain l st1 s1 where l: "learn_node lib sv m st s = (l, st1, s1)" by (metis surj_pair)
  obtain p pos where p: "DecodeWithOptions lib m (svNow sv s1) (svDecodePositionApp sv) = (p, pos)" by fastforce
  obtain q s2 where q: "resolve_callsign sv pos s1 = (q, s2)" by fastforce
  have eq: "archived s1 = archived s" "archived s2 = archived s" "kept s1 = kept s" "kept s2 = kept s"
    using learn_node_archived [OF l] resolve_callsign_archived [OF q] by simp_all
  show ?thesis
  proof (cases l)
    case (Some e)
    with assms l eq show ?thesis by (auto simp: handle_packet_def)
  next
    case None
    note ln = this
    show ?thesis
    proof (cases q)
      case (Inl e)
      with assms l p q eq ln show ?thesis by (auto simp: handle_packet_def split: option.split)
    next
      case (Inr pos')
      obtain a s3 where a: "svArchive sv p pos' (svEnqueueCalTopo sv) s2 = (a, s3)" by fastforce
      show ?thesis
      proof (cases a)
        case (Inl e)
        with assms l p q eq ln Inr a archive_failed [of p pos' "svEnqueueCalTopo sv" s2 e s3] show ?thesis
          by (auto simp: handle_packet_def split: option.split)
      next
        case (Inr ids)
        obtain st2 s4 where "announce sv p pos' ids st1 s3 = (st2, s4)" by fastforce
        with assms l p q eq ln \<open>q = Inr pos'\<close> Inr a archive [of p pos' "svEnqueueCalTopo sv" s2 ids s3] announce_archived [of p pos' ids st1 s3 st2 s4]
        have "r = None" "archived s' = archived s @ [row (fst (DecodeWithOptions lib m (svNow sv s1) (svDecodePositionApp sv)))]"
          by (simp_all add: handle_packet_def)
        then show ?thesis by auto
      qed
    qed
  qed
qed

lemma Handle_archived:
  assumes "Handle lib sv m st s = (r, st', s')"
  shows "(case (packet_of m, r) of
      (Some p, None) \<Rightarrow> \<exists>t. archived s' = archived s @ [row (fst (DecodeWithOptions lib p t (svDecodePositionApp sv)))]
    | _ \<Rightarrow> archived s' = archived s \<and> kept s' = kept s)"
proof (cases "packet_of m")
  case None
  with assms show ?thesis
    by (auto simp: packet_of_def Handle_def rememberNode_archived split: option.splits if_splits prod.splits)
next
  case (Some p)
  with assms handle_packet_archived [of lib p st s r st' s'] show ?thesis
    by (simp add: Handle_packet split: option.splits)
qed

end

section \<open>Property\<close>

text \<open>
  The warning about undecryptable packets is neither a flood nor a silence: while they arrive in
  the order of the clock, two warnings are at least a minute apart, each is written at an arrival, and
  no arrival is more than a minute after the last warning.
\<close>
theorem encrypted_warned_each_minute:
  assumes "sorted (map fst xs)" "\<forall>x \<in> set xs. zero_time + minute \<le> fst x"
  shows "sorted_wrt (\<lambda>a b. minute \<le> b - a) (warned_at new_ingest xs) \<and>
    set (warned_at new_ingest xs) \<subseteq> fst ` set xs \<and>
    (\<forall>x \<in> set xs. \<exists>w \<in> set (warned_at new_ingest xs). w \<le> fst x \<and> fst x - w < minute)"
  using warned_gaps [OF assms(1), of new_ingest] warned_covers [OF assms(1), of _ new_ingest] assms(2)
  by (force simp: new_ingest_def)

theorem encrypted_warned_each_minute_witness:
  "\<exists>w \<in> set (warned_at new_ingest (map (\<lambda>t. (t, base_record (sample_packet 42 257) t [])) [0, 59 * second, 61 * second])).
     w \<le> 61 * second \<and> 61 * second - w < minute"
proof -
  let ?xs = "map (\<lambda>t. (t, base_record (sample_packet 42 257) t [])) [0, 59 * second, 61 * second]"
  have "\<exists>w \<in> set (warned_at new_ingest ?xs). w \<le> fst x \<and> fst x - w < minute" if "x \<in> set ?xs" for x
    using encrypted_warned_each_minute [of ?xs] that by (auto simp: second_def zero_time_def minute_def)
  from this [of "(61 * second, base_record (sample_packet 42 257) (61 * second) [])"] show ?thesis by simp
qed

end
