(* ===== verification/Distance.thy ===== *)
theory Distance
  imports PositionFilter
begin

text \<open>
  \<open>distanceMeters\<close> of \<^verbatim>\<open>internal/caltopo/worker.go\<close>, the haversine distance. It is computed over the
  reals: the rounding of the floating point operations is not modelled. The lemmas show that the
  arguments of the square roots are in their domain, that the clamp \<open>math.Min(1, h)\<close> is only there for
  rounding, and the range and symmetry of the distance.
\<close>

section \<open>The formula\<close>

text \<open>The coordinates of stored positions are finite (the \<open>CHECK\<close> constraints); other values read 0.\<close>

fun f64_real :: "f64 \<Rightarrow> real" where
  "f64_real (Fin x) = real_of_rat x"
| "f64_real PosInf = 0"
| "f64_real NegInf = 0"
| "f64_real NaN = 0"

definition atan2 :: "real \<Rightarrow> real \<Rightarrow> real" where
  "atan2 y x =
     (if x > 0 then arctan (y / x)
      else if x < 0 then (if y \<ge> 0 then arctan (y / x) + pi else arctan (y / x) - pi)
      else if y > 0 then pi / 2 else if y < 0 then - (pi / 2) else 0)"

definition earthRadiusMeters :: real where
  "earthRadiusMeters = 6371000"

definition haversine :: "real \<Rightarrow> real \<Rightarrow> real \<Rightarrow> real \<Rightarrow> real" where
  "haversine latitude1 latitude2 latitudeDelta longitudeDelta =
     sin (latitudeDelta / 2) * sin (latitudeDelta / 2) +
     cos latitude1 * cos latitude2 * sin (longitudeDelta / 2) * sin (longitudeDelta / 2)"

definition distanceMeters :: "position \<Rightarrow> position \<Rightarrow> real" where
  "distanceMeters left right =
     (let latitude1 = f64_real (poLatitude left) * pi / 180;
          latitude2 = f64_real (poLatitude right) * pi / 180;
          latitudeDelta = (f64_real (poLatitude right) - f64_real (poLatitude left)) * pi / 180;
          longitudeDelta = (f64_real (poLongitude right) - f64_real (poLongitude left)) * pi / 180;
          h = min 1 (haversine latitude1 latitude2 latitudeDelta longitudeDelta)
      in earthRadiusMeters * 2 * atan2 (sqrt h) (sqrt (1 - h)))"

section \<open>Range\<close>

lemma half_bounds:
  fixes s c :: real
  shows "- 1 \<le> c \<Longrightarrow> - s \<le> (1 - 2 * s + c) / 2" "c \<le> 1 \<Longrightarrow> (1 - 2 * s + c) / 2 \<le> 1 - s"
  by simp_all

lemma cos_product_bounds:
  fixes a b :: real
  shows "- (sin ((b - a) / 2))\<^sup>2 \<le> cos a * cos b" "cos a * cos b \<le> 1 - (sin ((b - a) / 2))\<^sup>2"
proof -
  have c: "cos a * cos b = (cos (a - b) + cos (a + b)) / 2"
    by (simp add: cos_times_cos)
  have "cos (b - a) = 1 - 2 * (sin ((b - a) / 2))\<^sup>2"
    using cos_double_sin [of "(b - a) / 2"] by (simp only: field_sum_of_halves mult_2 field_simps)
  then have d: "cos (a - b) = 1 - 2 * (sin ((b - a) / 2))\<^sup>2"
    using cos_minus [of "b - a"] by simp
  show "- (sin ((b - a) / 2))\<^sup>2 \<le> cos a * cos b" "cos a * cos b \<le> 1 - (sin ((b - a) / 2))\<^sup>2"
    unfolding c d by (rule half_bounds cos_ge_minus_one cos_le_one)+
qed

lemma haversine_range: "0 \<le> haversine a b (b - a) l" "haversine a b (b - a) l \<le> 1"
proof -
  define s where "s = (sin (l / 2))\<^sup>2"
  define t where "t = (sin ((b - a) / 2))\<^sup>2"
  have s: "0 \<le> s" "s \<le> 1" by (simp_all add: s_def abs_square_le_1 [THEN iffD2])
  have t: "0 \<le> t" "t \<le> 1" by (simp_all add: t_def abs_square_le_1 [THEN iffD2])
  have h: "haversine a b (b - a) l = t + cos a * cos b * s"
    by (simp add: haversine_def s_def t_def power2_eq_square mult.assoc)
  have "- t * s \<le> cos a * cos b * s" "cos a * cos b * s \<le> (1 - t) * s"
    using cos_product_bounds [where a = a and b = b] s(1) unfolding t_def
    by (intro mult_right_mono; simp)+
  moreover have "(1 - t) * s \<le> (1 - t) * 1" "t * s \<le> t * 1" using s t by (intro mult_left_mono; simp)+
  ultimately show "0 \<le> haversine a b (b - a) l" "haversine a b (b - a) l \<le> 1"
    unfolding h by simp_all
qed

lemma atan2_quadrant:
  assumes "0 \<le> y" "0 \<le> x"
  shows "0 \<le> atan2 y x" "atan2 y x \<le> pi / 2"
proof -
  have "0 \<le> arctan (y / x)" "arctan (y / x) \<le> pi / 2"
    using assms arctan_ubound [of "y / x"] by (simp_all add: less_imp_le)
  then show "0 \<le> atan2 y x" "atan2 y x \<le> pi / 2" using assms by (simp_all add: atan2_def)
qed

definition haversine_of :: "position \<Rightarrow> position \<Rightarrow> real" where
  "haversine_of left right =
     haversine (f64_real (poLatitude left) * pi / 180) (f64_real (poLatitude right) * pi / 180)
       ((f64_real (poLatitude right) - f64_real (poLatitude left)) * pi / 180)
       ((f64_real (poLongitude right) - f64_real (poLongitude left)) * pi / 180)"

lemma haversine_of_range: "0 \<le> haversine_of p q" "haversine_of p q \<le> 1"
proof -
  have "(f64_real (poLatitude q) - f64_real (poLatitude p)) * pi / 180 =
      f64_real (poLatitude q) * pi / 180 - f64_real (poLatitude p) * pi / 180"
    by (simp add: algebra_simps diff_divide_distrib)
  then show "0 \<le> haversine_of p q" "haversine_of p q \<le> 1"
    by (simp_all only: haversine_of_def haversine_range)
qed

lemma haversine_of_commute: "haversine_of p q = haversine_of q p"
proof -
  have "haversine a b (- x) (- y) = haversine b a x y" for a b x y
    by (simp add: haversine_def mult.commute mult.left_commute)
  moreover have "(u - v) * pi / 180 = - ((v - u) * pi / 180)" for u v :: real
    by (simp add: field_simps)
  ultimately show ?thesis unfolding haversine_of_def by metis
qed

lemma haversine_of_self:
  "poLatitude p = poLatitude q \<Longrightarrow> poLongitude p = poLongitude q \<Longrightarrow> haversine_of p q = 0"
  by (simp add: haversine_of_def haversine_def)

lemma distanceMeters_haversine:
  "distanceMeters p q = earthRadiusMeters * 2 * atan2 (sqrt (haversine_of p q)) (sqrt (1 - haversine_of p q))"
  using haversine_of_range [of p q] by (simp add: distanceMeters_def haversine_of_def Let_def)

lemma distanceMeters_commute: "distanceMeters p q = distanceMeters q p"
  by (simp add: distanceMeters_haversine haversine_of_commute [of p q])

lemma distanceMeters_range: "0 \<le> distanceMeters p q" "distanceMeters p q \<le> pi * earthRadiusMeters"
  using atan2_quadrant [of "sqrt (haversine_of p q)" "sqrt (1 - haversine_of p q)"] haversine_of_range [of p q]
  by (simp_all add: distanceMeters_haversine earthRadiusMeters_def)

lemma distanceMeters_self:
  "poLatitude p = poLatitude q \<Longrightarrow> poLongitude p = poLongitude q \<Longrightarrow> distanceMeters p q = 0"
  by (simp add: distanceMeters_haversine haversine_of_self atan2_def)

section \<open>Properties\<close>

text \<open>
  The haversine term lies between 0 and 1 for every pair of positions, so the clamp never changes it
  and both square roots are real; the distance is symmetric, zero between equal coordinates, and never
  more than half the circumference of the earth.
\<close>
theorem distance_range:
  "0 \<le> haversine_of p q \<and> haversine_of p q \<le> 1 \<and>
   0 \<le> distanceMeters p q \<and> distanceMeters p q \<le> pi * earthRadiusMeters \<and>
   distanceMeters p q = distanceMeters q p \<and> distanceMeters p p = 0"
  using haversine_of_range distanceMeters_range distanceMeters_commute distanceMeters_self by blast

end
