(* ===== verification/FilterHistory.thy ===== *)
theory FilterHistory
  imports Distance
begin

text \<open>
  What the position filter decides over a run of deliveries, each prepared and then completed as
  decided. The specification \<open>history_run\<close> works on one node's positions alone and remembers all of
  them; the filter, with its three samples per node shared in one state, implements it for every node.
\<close>

section \<open>A run of the filter\<close>

fun run_filter :: "distance \<Rightarrow> position_filter \<Rightarrow> delivery list \<Rightarrow> (delivery \<times> position \<times> bool) list option" where
  "run_filter dst f [] = Some []"
| "run_filter dst f (d # ds) =
     (case prepare dst f d of
        ((p, publish), f1) \<Rightarrow>
          (case complete f1 (dvID d) publish of
             None \<Rightarrow> None
           | Some f2 \<Rightarrow> map_option (\<lambda>outs. (d, p, publish) # outs) (run_filter dst f2 ds)))"

section \<open>The specification\<close>

text \<open>
  The position offered for publication is the reported one with, from the third report on, the median
  of the last three coordinates; it is published when it is the first, when the heartbeat has elapsed
  since the last published one, or when the median has moved far enough.
\<close>

definition spec_position :: "position list \<Rightarrow> position \<Rightarrow> position" where
  "spec_position hist q =
     (if 2 \<le> length hist
      then q\<lparr>poLatitude := medianCoordinate (last_three (hist @ [q])) poLatitude,
        poLongitude := medianCoordinate (last_three (hist @ [q])) poLongitude\<rparr>
      else q)"

definition spec_publish ::
  "distance \<Rightarrow> f64 \<Rightarrow> duration \<Rightarrow> position list \<Rightarrow> position option \<Rightarrow> position \<Rightarrow> bool" where
  "spec_publish dst movement heartbeat hist published q =
     (case published of
        None \<Rightarrow> True
      | Some l \<Rightarrow> time_sub (poSourceTime q) (poSourceTime l) \<ge> heartbeat \<or>
          (2 \<le> length hist \<and> at_least (dst l (spec_position hist q)) movement))"

fun history_run ::
  "distance \<Rightarrow> f64 \<Rightarrow> duration \<Rightarrow> position list \<Rightarrow> position option \<Rightarrow> position list \<Rightarrow> (position \<times> bool) list" where
  "history_run dst movement heartbeat hist published [] = []"
| "history_run dst movement heartbeat hist published (q # qs) =
     (let pos = spec_position hist q; publish = spec_publish dst movement heartbeat hist published q
      in (pos, publish) #
         history_run dst movement heartbeat (hist @ [q]) (if publish then Some pos else published) qs)"

section \<open>The filter implements it\<close>

definition tracks_history :: "position_filter \<Rightarrow> u32 \<Rightarrow> position list \<Rightarrow> position option \<Rightarrow> bool" where
  "tracks_history f node hist published \<longleftrightarrow>
     fsSamples (node_state f node) = last_three hist \<and> fsLastPublished (node_state f node) = published"

lemma last_three_last_three: "last_three (last_three xs @ [x]) = last_three (xs @ [x])"
proof (cases "3 < length xs")
  case True
  then have "Suc (length xs - 3) = length xs - 2" by simp
  with True show ?thesis by (simp add: last_three_def)
qed (simp add: last_three_def)

lemma three_samples: "length (last_three (hist @ [q])) = 3 \<longleftrightarrow> 2 \<le> length hist"
  by (auto simp: length_last_three)

lemma candidate_spec:
  assumes "tracks_history f (poSourceNode (dvPosition d)) hist published"
  shows "candidate f d = spec_position hist (dvPosition d)"
    and "decide dst f d = spec_publish dst (pfMovementMeters f) (pfHeartbeat f) hist published (dvPosition d)"
proof -
  have s: "new_samples f d = last_three (hist @ [dvPosition d])"
    using assms by (simp add: new_samples_def tracks_history_def last_three_last_three)
  show c: "candidate f d = spec_position hist (dvPosition d)"
    by (simp add: candidate_def s three_samples spec_position_def)
  show "decide dst f d = spec_publish dst (pfMovementMeters f) (pfHeartbeat f) hist published (dvPosition d)"
    using assms
    by (auto simp: decide_def s three_samples c spec_publish_def heartbeat_due_def tracks_history_def
        split: option.splits)
qed

lemma filter_step:
  assumes "filter_ok f" "pfPrepared f (dvID d) = None"
  obtains f2 where
    "run_filter dst f (d # ds) =
       map_option (\<lambda>outs. (d, candidate f d, decide dst f d) # outs) (run_filter dst f2 ds)"
    "filter_ok f2" "pfPrepared f2 = pfPrepared f"
    "pfMovementMeters f2 = pfMovementMeters f" "pfHeartbeat f2 = pfHeartbeat f"
    "\<And>node. node_state f2 node = (if node = poSourceNode (dvPosition d)
       then \<lparr>fsSamples = new_samples f d, fsLastPublished =
         (if decide dst f d then Some (candidate f d) else fsLastPublished (node_state f node))\<rparr>
       else node_state f node)"
proof -
  let ?node = "poSourceNode (dvPosition d)"
  let ?st = "(node_state f ?node)\<lparr>fsSamples := new_samples f d\<rparr>"
  define f1 where "f1 = f\<lparr>pfNodes := (pfNodes f)(?node := Some ?st),
    pfPrepared := (pfPrepared f)(dvID d := Some (candidate f d, decide dst f d))\<rparr>"
  have p: "prepare dst f d = ((candidate f d, decide dst f d), f1)"
    unfolding f1_def by (rule prepare_fresh [OF assms(2)])
  have ok1: "filter_ok f1" by (rule prepare_ok [OF assms(1) p])
  have c: "complete f1 (dvID d) b = Some (f1\<lparr>pfPrepared := (pfPrepared f1)(dvID d := None),
      pfNodes := (if b then (pfNodes f1)(?node := Some (?st\<lparr>fsLastPublished := Some (candidate f d)\<rparr>))
        else pfNodes f1)\<rparr>)" for b
    using complete_Some [of f1 "dvID d" "candidate f d" "decide dst f d" ?st b] by (simp add: f1_def)
  obtain f2 where f2: "complete f1 (dvID d) (decide dst f d) = Some f2" "filter_ok f2"
    using complete_returns [OF ok1, of "dvID d" "candidate f d" "decide dst f d" "decide dst f d"]
    by (auto simp: f1_def)
  have unprepared: "(pfPrepared f)(dvID d := None) = pfPrepared f" using assms(2) by auto
  show ?thesis
  proof (rule that [of f2])
    show "run_filter dst f (d # ds) =
       map_option (\<lambda>outs. (d, candidate f d, decide dst f d) # outs) (run_filter dst f2 ds)"
      by (simp add: p f2)
  qed (use f2 c [of "decide dst f d"] unprepared in \<open>auto simp: f1_def node_state_def\<close>)
qed

lemma run_filter_history:
  assumes "filter_ok f" "\<And>node. tracks_history f node (hist node) (published node)"
    and "distinct (map dvID ds)" "\<And>d. d \<in> set ds \<Longrightarrow> pfPrepared f (dvID d) = None"
  shows "\<exists>outs. run_filter dst f ds = Some outs \<and>
    (\<forall>node. map snd (filter (\<lambda>out. poSourceNode (dvPosition (fst out)) = node) outs) =
       history_run dst (pfMovementMeters f) (pfHeartbeat f) (hist node) (published node)
         (map dvPosition (filter (\<lambda>d. poSourceNode (dvPosition d) = node) ds)))"
  using assms
proof (induction ds arbitrary: f hist published)
  case Nil
  then show ?case by simp
next
  case (Cons d ds)
  let ?node = "poSourceNode (dvPosition d)" and ?q = "dvPosition d"
  note spec = candidate_spec [OF Cons.prems(2) [of ?node]]
  obtain f2 where f2: "run_filter dst f (d # ds) =
       map_option (\<lambda>outs. (d, candidate f d, decide dst f d) # outs) (run_filter dst f2 ds)"
    "filter_ok f2" "pfPrepared f2 = pfPrepared f"
    "pfMovementMeters f2 = pfMovementMeters f" "pfHeartbeat f2 = pfHeartbeat f"
    "\<And>node. node_state f2 node = (if node = ?node then \<lparr>fsSamples = new_samples f d, fsLastPublished =
         (if decide dst f d then Some (candidate f d) else fsLastPublished (node_state f node))\<rparr>
       else node_state f node)"
    using filter_step [OF Cons.prems(1), of d dst ds] Cons.prems(4) [of d] by auto
  define hist' where "hist' = hist(?node := hist ?node @ [?q])"
  define published' where "published' = published(?node :=
    (if decide dst f d then Some (candidate f d) else published ?node))"
  have "tracks_history f2 node (hist' node) (published' node)" for node
    using Cons.prems(2) [of node]
    by (auto simp: tracks_history_def f2(6) hist'_def published'_def new_samples_def last_three_last_three)
  then obtain outs where outs: "run_filter dst f2 ds = Some outs"
    "\<And>node. map snd (filter (\<lambda>out. poSourceNode (dvPosition (fst out)) = node) outs) =
       history_run dst (pfMovementMeters f) (pfHeartbeat f) (hist' node) (published' node)
         (map dvPosition (filter (\<lambda>d. poSourceNode (dvPosition d) = node) ds))"
    using Cons.IH [OF f2(2), of hist' published'] Cons.prems(3,4) by (auto simp: f2(3-5))
  have "run_filter dst f (d # ds) = Some ((d, candidate f d, decide dst f d) # outs)"
    by (simp only: f2(1) outs(1) option.map)
  moreover have "map snd (filter (\<lambda>out. poSourceNode (dvPosition (fst out)) = node)
        ((d, candidate f d, decide dst f d) # outs)) =
      history_run dst (pfMovementMeters f) (pfHeartbeat f) (hist node) (published node)
        (map dvPosition (filter (\<lambda>d. poSourceNode (dvPosition d) = node) (d # ds)))" for node
  proof (cases "node = ?node")
    case True
    then show ?thesis using outs(2) [of node] spec by (simp add: hist'_def published'_def Let_def)
  next
    case False
    then show ?thesis using outs(2) [of node] by (simp add: hist'_def published'_def)
  qed
  ultimately show ?case by blast
qed

section \<open>Concrete deliveries\<close>

definition sample_position :: "u32 \<Rightarrow> int \<Rightarrow> time \<Rightarrow> position" where
  "sample_position node la t = \<lparr>poPacketID = 0, poSourceNode = node, poMeshPacketID = 7, poSourcePort = 3,
     poCallsign = NodeID node, poDeviceCallsign = [], poLatitude = Fin (of_int la), poLongitude = Fin 0,
     poAltitude = None, poSpeed = None, poCourse = None, poLocationSource = [], poPrecisionBits = 32,
     poSourceTime = t, poReceivedAt = t\<rparr>"

definition sample_delivery :: "int \<Rightarrow> u32 \<Rightarrow> int \<Rightarrow> time \<Rightarrow> delivery" where
  "sample_delivery i node la t = \<lparr>dvID = i, dvPosition = sample_position node la t, dvAttempts = 0\<rparr>"

section \<open>Properties\<close>

text \<open>
  C15: Over any run of deliveries with distinct ids the filter never panics, and for every node its
  positions and decisions are those of the specification on that node's reports alone: the other nodes
  have no influence, and three samples suffice to do what a full history does.
\<close>
theorem filter_refines_history:
  assumes "distinct (map dvID ds)"
  shows "\<exists>outs. run_filter dst (newPositionFilter movement heartbeat) ds = Some outs \<and>
    (\<forall>node. map snd (filter (\<lambda>out. poSourceNode (dvPosition (fst out)) = node) outs) =
       history_run dst movement heartbeat [] None
         (map dvPosition (filter (\<lambda>d. poSourceNode (dvPosition d) = node) ds)))"
  using run_filter_history [OF filter_ok_new, of movement heartbeat "\<lambda>_. []" "\<lambda>_. None" ds dst] assms
  by (simp add: tracks_history_def newPositionFilter_def node_state_def last_three_def)

text \<open>Two nodes, interleaved; the second report of node 1 is too close and too early to be published.\<close>
theorem filter_refines_history_witness:
  "\<exists>outs. run_filter (\<lambda>_ _. 0) (newPositionFilter (Fin 25) (300 * second))
      [sample_delivery 1 1 10 0, sample_delivery 2 2 50 0, sample_delivery 3 1 11 second] = Some outs \<and>
    map snd (filter (\<lambda>out. poSourceNode (dvPosition (fst out)) = 1) outs) =
      [(sample_position 1 10 0, True), (sample_position 1 11 second, False)]"
proof -
  have "distinct (map dvID [sample_delivery 1 1 10 0, sample_delivery 2 2 50 0, sample_delivery 3 1 11 second])"
    by (simp add: sample_delivery_def)
  from filter_refines_history [OF this, of "\<lambda>_ _. 0" "Fin 25" "300 * second"]
  obtain outs where outs: "run_filter (\<lambda>_ _. 0) (newPositionFilter (Fin 25) (300 * second))
      [sample_delivery 1 1 10 0, sample_delivery 2 2 50 0, sample_delivery 3 1 11 second] = Some outs"
    "map snd (filter (\<lambda>out. poSourceNode (dvPosition (fst out)) = 1) outs) =
       history_run (\<lambda>_ _. 0) (Fin 25) (300 * second) [] None
         (map dvPosition (filter (\<lambda>d. poSourceNode (dvPosition d) = 1)
           [sample_delivery 1 1 10 0, sample_delivery 2 2 50 0, sample_delivery 3 1 11 second]))"
    by blast
  then show ?thesis
    by (simp add: sample_delivery_def sample_position_def spec_position_def spec_publish_def time_sub_def second_def)
qed

text \<open>
  One bad fix cannot move the published position: whenever two of the three samples have a
  coordinate in some interval, the median is in it too, and it is a coordinate that was reported.
\<close>
theorem median_rejects_outlier:
  assumes "length ps = 3" "i < 3" "j < 3" "i \<noteq> j"
    and "lo \<le> coord (ps ! i)" "coord (ps ! i) \<le> hi" "lo \<le> coord (ps ! j)" "coord (ps ! j) \<le> hi"
  shows "lo \<le> medianCoordinate ps coord \<and> medianCoordinate ps coord \<le> hi \<and>
    medianCoordinate ps coord \<in> coord ` set ps"
proof -
  obtain a b c where ps: "ps = [a, b, c]" using assms(1) median_three by blast
  have "i \<in> {0, 1, 2}" "j \<in> {0, 1, 2}" using assms(2,3) by auto
  then have "lo \<le> medianCoordinate ps coord \<and> medianCoordinate ps coord \<le> hi"
    using assms(4-8) unfolding ps medianCoordinate_three median3_cases by auto
  then show ?thesis using median_member [of a b c coord] by (auto simp: ps)
qed

theorem median_rejects_outlier_witness:
  "medianCoordinate [sample_position 1 10 0, sample_position 1 80 1, sample_position 1 12 2] poLatitude \<le> Fin 12"
  using median_rejects_outlier [of "[sample_position 1 10 0, sample_position 1 80 1, sample_position 1 12 2]"
      0 2 "Fin 10" poLatitude "Fin 12"]
  by (simp add: sample_position_def)

text \<open>
  A node at rest is quiet between heartbeats: when its reports have had the coordinates of the last
  published position and the movement threshold is positive, the next report at the same place is
  not published unless the heartbeat has elapsed since that publication.
\<close>
theorem stationary_suppressed:
  assumes "pfPrepared f (dvID d) = None"
    and "fsLastPublished (node_state f (poSourceNode (dvPosition d))) = Some l"
    and "\<forall>q \<in> insert (dvPosition d) (set (fsSamples (node_state f (poSourceNode (dvPosition d))))).
      poLatitude q = poLatitude l \<and> poLongitude q = poLongitude l"
    and "pfMovementMeters f = Fin m" "0 < m"
  shows "snd (fst (prepare distanceMeters f d)) \<longleftrightarrow>
    pfHeartbeat f \<le> time_sub (poSourceTime (dvPosition d)) (poSourceTime l)"
proof -
  have same: "poLatitude q = poLatitude l \<and> poLongitude q = poLongitude l" if "q \<in> set (new_samples f d)" for q
  proof -
    have "q \<in> set (fsSamples (node_state f (poSourceNode (dvPosition d))) @ [dvPosition d])"
      using that set_last_three unfolding new_samples_def by blast
    then show ?thesis using assms(3) by auto
  qed
  have "poLatitude (candidate f d) = poLatitude l \<and> poLongitude (candidate f d) = poLongitude l"
  proof (cases "length (new_samples f d) = 3")
    case True
    then obtain a b c where abc: "new_samples f d = [a, b, c]" using median_three by blast
    with same have "poLatitude ` {a, b, c} = {poLatitude l}" "poLongitude ` {a, b, c} = {poLongitude l}" by auto
    then show ?thesis
      using median_member [of a b c poLatitude] median_member [of a b c poLongitude]
      by (auto simp: candidate_def abc)
  qed (use assms(3) in \<open>simp add: candidate_def\<close>)
  then have "distanceMeters l (candidate f d) = 0" by (intro distanceMeters_self) simp_all
  then have "\<not> at_least (distanceMeters l (candidate f d)) (pfMovementMeters f)"
    using assms(4,5) by simp
  then show ?thesis
    using assms(2) by (simp add: prepare_fresh [OF assms(1)] decide_def heartbeat_due_def)
qed

theorem stationary_suppressed_witness:
  "\<not> snd (fst (prepare distanceMeters
      \<lparr>pfNodes = [1 \<mapsto> \<lparr>fsSamples = [sample_position 1 10 0], fsLastPublished = Some (sample_position 1 10 0)\<rparr>],
       pfPrepared = Map.empty, pfMovementMeters = Fin 25, pfHeartbeat = 300 * second\<rparr>
      (sample_delivery 2 1 10 second)))"
  by (subst stationary_suppressed [where l = "sample_position 1 10 0" and m = 25])
    (simp_all add: sample_delivery_def sample_position_def node_state_def time_sub_def second_def)

end
