(* ===== verification/World.thy ===== *)
theory World
  imports StoreHistory Worker Adapter FilterHistory
begin

text \<open>
  The worker, the adapter and the store together, as \<^verbatim>\<open>cmd/bridge/main.go\<close> wires them: one state
  holds the database, the state \<open>'c\<close> of the CalTopo client with the service behind it, a count of
  the calls made so far, and whether the worker's channel of capacity one holds a token. The
  \<open>schedule\<close> gives for each call the driver's failures and the clock. The interfaces of the worker and the adapter are interpreted on the operations of \<open>Store.thy\<close>.
\<close>

section \<open>State\<close>

record 'c world =
  wdDb :: db
  wdClient :: 'c
  wdTick :: nat
  wdWake :: bool

type_synonym schedule = "nat \<Rightarrow> faults \<times> time"

definition tick :: "'c world \<Rightarrow> 'c world" where
  "tick w = w\<lparr>wdTick := Suc (wdTick w)\<rparr>"

definition io_at :: "schedule \<Rightarrow> 'c world \<Rightarrow> faults" where
  "io_at sched w = fst (sched (wdTick w))"

definition now_at :: "schedule \<Rightarrow> 'c world \<Rightarrow> time" where
  "now_at sched w = snd (sched (wdTick w))"

definition on_db :: "(db \<Rightarrow> 'a \<times> db) \<Rightarrow> 'c world \<Rightarrow> 'a \<times> 'c world" where
  "on_db f w = (let (r, d') = f (wdDb w) in (r, tick (w\<lparr>wdDb := d'\<rparr>)))"

definition on_client :: "('c \<Rightarrow> 'a \<times> 'c) \<Rightarrow> 'c world \<Rightarrow> 'a \<times> 'c world" where
  "on_client f w = (let (r, c') = f (wdClient w) in (r, w\<lparr>wdClient := c'\<rparr>))"

section \<open>The interfaces on the store\<close>

definition lift_client :: "'c gotopo \<Rightarrow> 'c world gotopo" where
  "lift_client c =
     \<lparr>gtMapID = \<lambda>w. gtMapID c (wdClient w),
      gtOpenMap = \<lambda>m. on_client (gtOpenMap c m),
      gtGetFeatures = \<lambda>cls. on_client (gtGetFeatures c cls),
      gtAddLiveTrack = \<lambda>title dev. on_client (gtAddLiveTrack c title dev),
      gtUpdateLiveTrack = \<lambda>track la lo al. on_client (gtUpdateLiveTrack c track la lo al),
      gtErrNotFound = gtErrNotFound c\<rparr>"

definition store_tracks :: "schedule \<Rightarrow> 'c world track_store" where
  "store_tracks sched =
     \<lparr>tsTrackID = \<lambda>k w. on_db (\<lambda>d. (TrackID (io_at sched w) k d, d)) w,
      tsSaveTrack = \<lambda>k dev t w. on_db (SaveTrack (io_at sched w) (now_at sched w) k dev t) w\<rparr>"

definition world_adapter :: "'c gotopo \<Rightarrow> schedule \<Rightarrow> string \<Rightarrow> string \<Rightarrow> 'c world adapter" where
  "world_adapter c sched grp mid =
     \<lparr>adClient = lift_client c, adStore = store_tracks sched, adGroup = grp, adMapID = mid\<rparr>"

definition world_env :: "'c gotopo \<Rightarrow> schedule \<Rightarrow> string \<Rightarrow> string \<Rightarrow> 'c world worker_env" where
  "world_env c sched grp mid =
     \<lparr>wPending = \<lambda>n w. on_db (\<lambda>d. (PendingDeliveries (io_at sched w) (now_at sched w) n d, d)) w,
      wMarkDelivered = \<lambda>i w. on_db (MarkDelivered (io_at sched w) (now_at sched w) i) w,
      wMarkFailed = \<lambda>i n t terminal e w. on_db (MarkFailed (io_at sched w) i n t terminal e) w,
      wPublish = \<lambda>timeout. Publish (world_adapter c sched grp mid),
      wNow = now_at sched\<rparr>"

lemmas world_defs = lift_client_def store_tracks_def world_adapter_def world_env_def

lemma on_db_eq: "on_db f w = (r, w') \<longleftrightarrow> (\<exists>d'. f (wdDb w) = (r, d') \<and> w' = tick (w\<lparr>wdDb := d'\<rparr>))"
  by (auto simp: on_db_def split: prod.splits)

lemma on_client_eq: "on_client f w = (r, w') \<longleftrightarrow> (\<exists>c'. f (wdClient w) = (r, c') \<and> w' = w\<lparr>wdClient := c'\<rparr>)"
  by (auto simp: on_client_def split: prod.splits)

lemma wdDb_tick [simp]: "wdDb (tick w) = wdDb w"
  by (simp add: tick_def)

section \<open>What a publication does to the database\<close>

text \<open>It may save tracks, and does nothing else.\<close>

definition tracks_only :: "db \<Rightarrow> db \<Rightarrow> bool" where
  "tracks_only d d' \<longleftrightarrow> packets d' = packets d \<and> positions d' = positions d \<and> deliveries d' = deliveries d \<and>
     nodes d' = nodes d \<and> (db_wf d \<longrightarrow> db_wf d')"

lemma tracks_only_refl [simp]: "tracks_only d d"
  by (simp add: tracks_only_def)

lemma tracks_only_trans: "tracks_only a b \<Longrightarrow> tracks_only b c \<Longrightarrow> tracks_only a c"
  by (auto simp: tracks_only_def)

lemma SaveTrack_only:
  assumes "SaveTrack io now k dev t d = (r, d')"
  shows "tracks_only d d'"
proof -
  have "db_wf d \<longrightarrow> db_wf d'" using SaveTrack_wf [of d io now k dev t] assms by simp
  with assms show ?thesis
    by (cases rule: SaveTrack_cases) (auto simp: tracks_only_def upsert_track_def split: if_splits)
qed

abbreviation steps_only :: "'c world \<Rightarrow> 'c world \<Rightarrow> bool" where
  "steps_only w w' \<equiv> tracks_only (wdDb w) (wdDb w')"

lemma client_only:
  "gtOpenMap (lift_client c) m w = (r, w') \<Longrightarrow> wdDb w' = wdDb w"
  "gtGetFeatures (lift_client c) cls w = (fs, w') \<Longrightarrow> wdDb w' = wdDb w"
  "gtAddLiveTrack (lift_client c) title dev w = (ft, w') \<Longrightarrow> wdDb w' = wdDb w"
  "gtUpdateLiveTrack (lift_client c) track la lo al w = (r, w') \<Longrightarrow> wdDb w' = wdDb w"
  by (auto simp: lift_client_def on_client_eq)

lemma createAndSave_only:
  assumes "createAndSaveTrack (world_adapter c sched grp mid) k title w = (r, w')"
  shows "steps_only w w'"
proof -
  obtain t w1 where t: "reconcileOrCreate (world_adapter c sched grp mid)
      (device_id (world_adapter c sched grp mid) k) title w = (t, w1)" by fastforce
  then have "wdDb w1 = wdDb w"
    by (auto simp: reconcileOrCreate_def world_adapter_def split: prod.splits sum.splits option.splits)
      (metis client_only(2,3))+
  with assms t show ?thesis
    by (auto simp: createAndSaveTrack_def store_tracks_def world_adapter_def on_db_eq dest!: SaveTrack_only
        split: sum.splits prod.splits option.splits)
qed

lemma Publish_only:
  assumes "Publish (world_adapter c sched grp mid) p w = (r, w')"
  shows "steps_only w w'"
proof -
  let ?a = "world_adapter c sched grp mid"
  have upd: "wdDb w2 = wdDb w1" if "update_track ?a t p w1 = (x, w2)" for t w1 w2 x
    using that client_only(4) by (simp add: update_track_def world_adapter_def)
  obtain o1 w1 where o: "ensureOpen ?a w = (o1, w1)" by fastforce
  have e1: "wdDb w1 = wdDb w"
    using o by (auto simp: ensureOpen_def world_adapter_def split: if_splits prod.splits option.splits)
      (metis client_only(1))+
  obtain t w2 where t: "tsTrackID (adStore ?a) (SourceID p) w1 = (t, w2)" by fastforce
  have e2: "wdDb w2 = wdDb w1" using t by (auto simp: world_adapter_def store_tracks_def on_db_eq)
  from assms o t show ?thesis
    using e1 e2
    by (auto simp: Publish_def split: option.splits sum.splits prod.splits if_splits
        dest!: upd createAndSave_only) (metis tracks_only_trans)+
qed

section \<open>The store is a delivery queue\<close>

definition pending_where :: "(delivery_row \<Rightarrow> bool) \<Rightarrow> db \<Rightarrow> int set" where
  "pending_where P d = drId ` {r \<in> set (deliveries d). drState r = Pending \<and> P r}"

definition outstanding :: "'c world \<Rightarrow> int set" where
  "outstanding w = pending_where (\<lambda>_. True) (wdDb w)"

definition ready_at :: "time \<Rightarrow> 'c world \<Rightarrow> int set" where
  "ready_at T w = pending_where (\<lambda>r. drNextAttemptAt r \<le> formatTime T) (wdDb w)"

definition world_ok :: "'c world \<Rightarrow> bool" where
  "world_ok w \<longleftrightarrow> db_wf (wdDb w) \<and> (\<forall>r \<in> set (deliveries (wdDb w)). 0 \<le> drAttempts r)"

lemma world_ok_deliveries:
  "world_ok w \<Longrightarrow> tracks_only (wdDb w) (wdDb w') \<Longrightarrow> world_ok w' \<and> pending_where P (wdDb w') = pending_where P (wdDb w)"
  by (auto simp: world_ok_def tracks_only_def pending_where_def)

lemma pending_where_update:
  assumes "\<And>r. drId (f r) = drId r"
  shows "pending_where P (update_deliveries i f d) \<subseteq>
      pending_where P d - {i} \<union> drId ` {r \<in> set (deliveries d). drId r = i \<and> drState r = Pending \<and>
        drState (f r) = Pending \<and> P (f r)}"
    and "pending_where P d - {i} \<subseteq> pending_where P (update_deliveries i f d)"
  using assms by (force simp: pending_where_def update_deliveries_def)+

lemma pending_where_kept:
  assumes "\<And>r. drId (f r) = drId r" "\<And>r. drState (f r) = Pending"
  shows "pending_where (\<lambda>_. True) (update_deliveries i f d) = pending_where (\<lambda>_. True) d"
proof -
  define h where "h = (\<lambda>r. if drId r = i \<and> drState r = Pending then f r else r)"
  have h: "drId (h r) = drId r" "drState (h r) = Pending \<longleftrightarrow> drState r = Pending" for r
    using assms by (simp_all add: h_def)
  have "deliveries (update_deliveries i f d) = map h (deliveries d)"
    by (simp add: update_deliveries_def h_def)
  then have "pending_where (\<lambda>_. True) (update_deliveries i f d) =
      (\<lambda>r. drId (h r)) ` {r \<in> set (deliveries d). drState (h r) = Pending}"
    by (auto simp: pending_where_def)
  then show ?thesis by (simp add: h pending_where_def)
qed

lemma world_ok_update:
  assumes "world_ok w" "\<And>r. drId (f r) = drId r" "\<And>r. drPositionId (f r) = drPositionId r"
    and "\<And>r. 0 \<le> drAttempts r \<Longrightarrow> 0 \<le> drAttempts (f r)"
  shows "world_ok (tick (w\<lparr>wdDb := update_deliveries i f (wdDb w)\<rparr>))"
  using assms update_deliveries_wf [of f "wdDb w" i]
  by (auto simp: world_ok_def update_deliveries_def)

lemma update_pending_None:
  assumes "update_pending io what i f d = (r, d')"
  shows "d' = d \<and> r \<noteq> None \<or> d' = update_deliveries i f d"
  using assms by (auto simp: update_pending_def attempt_def split: option.splits)

lemma MarkDelivered_world:
  assumes "world_ok w" "MarkDelivered io now i (wdDb w) = (r, d')"
  shows "world_ok (tick (w\<lparr>wdDb := d'\<rparr>)) \<and>
    (\<forall>P. pending_where P (wdDb w) - {i} \<subseteq> pending_where P d' \<and> pending_where P d' \<subseteq> pending_where P (wdDb w) \<and>
      (r = None \<longrightarrow> i \<notin> pending_where P d'))"
proof -
  let ?f = "\<lambda>r. r\<lparr>drState := Delivered, drDeliveredAt := Some (formatTime now), drLastError := None\<rparr>"
  consider (same) "d' = wdDb w" "r \<noteq> None" | (updated) "d' = update_deliveries i ?f (wdDb w)"
    using update_pending_None [OF assms(2) [unfolded MarkDelivered_def]] by blast
  then show ?thesis
  proof cases
    case same
    then show ?thesis using assms(1) by (auto simp: world_ok_def)
  next
    case updated
    have "pending_where P d' \<subseteq> pending_where P (wdDb w) - {i}" "pending_where P (wdDb w) - {i} \<subseteq> pending_where P d'" for P
      using pending_where_update [where f = ?f and P = P and i = i and d = "wdDb w"] unfolding updated by auto
    moreover have "world_ok (tick (w\<lparr>wdDb := d'\<rparr>))"
      unfolding updated using assms(1) by (rule world_ok_update) simp_all
    ultimately show ?thesis by blast
  qed
qed

definition retried :: "int \<Rightarrow> time \<Rightarrow> go_error \<Rightarrow> delivery_row \<Rightarrow> delivery_row" where
  "retried n t e r = r\<lparr>drState := Pending, drAttempts := n, drNextAttemptAt := formatTime t,
     drLastError := Some (error_text e)\<rparr>"

lemma retried_fields [simp]:
  "drId (retried n t e r) = drId r" "drPositionId (retried n t e r) = drPositionId r"
  "drState (retried n t e r) = Pending" "drAttempts (retried n t e r) = n"
  "drNextAttemptAt (retried n t e r) = formatTime t"
  by (simp_all add: retried_def)

lemma MarkFailed_cases:
  assumes "MarkFailed io i n t False e d = (r, d')"
  obtains (same) "d' = d" "r \<noteq> None" | (updated) "d' = update_deliveries i (retried n t e) d"
  using update_pending_None [OF assms [unfolded MarkFailed_def Let_def if_False]]
  unfolding retried_def [abs_def] by blast

lemma MarkFailed_world:
  assumes "world_ok w" "0 \<le> n" "MarkFailed io i n t False e (wdDb w) = (r, d')"
  shows "world_ok (tick (w\<lparr>wdDb := d'\<rparr>)) \<and> pending_where (\<lambda>_. True) d' = pending_where (\<lambda>_. True) (wdDb w)"
  using assms(3)
proof (cases rule: MarkFailed_cases)
  case same
  then show ?thesis using assms(1) by (auto simp: world_ok_def)
next
  case updated
  have "pending_where (\<lambda>_. True) d' = pending_where (\<lambda>_. True) (wdDb w)"
    unfolding updated by (rule pending_where_kept) simp_all
  moreover have "world_ok (tick (w\<lparr>wdDb := d'\<rparr>))"
    unfolding updated using assms(1) by (rule world_ok_update) (simp_all add: assms(2))
  ultimately show ?thesis by blast
qed

lemma MarkFailed_ready:
  assumes "MarkFailed io i n t False e d = (r, d')" "formatTime T < formatTime t"
  shows "pending_where (\<lambda>r. drNextAttemptAt r \<le> formatTime T) d' \<subseteq>
    pending_where (\<lambda>r. drNextAttemptAt r \<le> formatTime T) d - (if r = None then {i} else {})"
  using assms(1)
proof (cases rule: MarkFailed_cases)
  case same
  then show ?thesis by auto
next
  case updated
  have "pending_where (\<lambda>r. drNextAttemptAt r \<le> formatTime T) d' \<subseteq>
      pending_where (\<lambda>r. drNextAttemptAt r \<le> formatTime T) d - {i}"
    using pending_where_update(1) [where f = "retried n t e" and P = "\<lambda>r. drNextAttemptAt r \<le> formatTime T"
        and i = i and d = d] assms(2)
    unfolding updated by auto
  then show ?thesis by auto
qed

lemma PendingDeliveries_given:
  assumes "db_wf d" "PendingDeliveries io now n d = Inr ds"
  shows "distinct (map dvID ds)"
    and "dvID ` set ds \<subseteq> pending_where (\<lambda>r. drNextAttemptAt r \<le> formatTime now) d"
    and "\<forall>v \<in> set ds. \<exists>r \<in> set (deliveries d). dvAttempts v = drAttempts r"
proof -
  from assms(2) have l: "list_all2 (\<lambda>x v. scan_delivery x = Inr v) (pending_rows now n d) ds"
    by (simp add: PendingDeliveries_Inr)
  have row: "fst x \<in> set (deliveries d) \<and> drState (fst x) = Pending \<and> drNextAttemptAt (fst x) \<le> formatTime now"
    if "x \<in> set (pending_rows now n d)" for x
    using pending_rows_member [OF that] joined_iff [of "fst x" "snd x" d]
    by (simp add: is_head_def queued_def due_def)
  have "distinct (pending_rows now n d)"
    using distinct_joined [OF assms(1)] by (simp add: pending_rows_def distinct_limit_rows)
  then have "distinct (map (\<lambda>x. drId (fst x)) (pending_rows now n d))"
    using pending_rows_member joined_id_inj [OF assms(1)] by (auto simp: distinct_map inj_on_def)
  then show "distinct (map dvID ds)" by (simp add: scanned_maps(2) [OF l])
  have "dvID ` set ds = (\<lambda>x. drId (fst x)) ` set (pending_rows now n d)"
    using arg_cong [OF scanned_maps(2) [OF l], of set] by simp
  then show "dvID ` set ds \<subseteq> pending_where (\<lambda>r. drNextAttemptAt r \<le> formatTime now) d"
    using row by (auto simp: pending_where_def)
  show "\<forall>v \<in> set ds. \<exists>r \<in> set (deliveries d). dvAttempts v = drAttempts r"
    using list_all2_member2 [OF l] row by (force simp: scan_delivery_Inr)
qed

lemma pending_where_mono: "(\<And>r. P r \<Longrightarrow> Q r) \<Longrightarrow> pending_where P d \<subseteq> pending_where Q d"
  by (auto simp: pending_where_def)

lemma finite_pending_where: "finite (pending_where P d)"
  by (simp add: pending_where_def)

interpretation queue: delivery_queue "world_env c sched grp mid" outstanding world_ok
proof
  fix w w' :: "'a world" and n out
  assume "world_ok w" "wPending (world_env c sched grp mid) n w = (out, w')"
  then show "world_ok w' \<and> outstanding w' = outstanding w"
    by (auto simp: world_env_def on_db_eq world_ok_def outstanding_def)
next
  fix w w' :: "'a world" and n ds
  assume ok: "world_ok w" and p: "wPending (world_env c sched grp mid) n w = (Inr ds, w')"
  from p have "PendingDeliveries (io_at sched w) (now_at sched w) n (wdDb w) = Inr ds"
    by (auto simp: world_env_def on_db_eq)
  with ok PendingDeliveries_given [of "wdDb w" "io_at sched w" "now_at sched w" n ds]
  show "distinct (map dvID ds) \<and> dvID ` set ds \<subseteq> outstanding w \<and> (\<forall>d \<in> set ds. 0 \<le> dvAttempts d)"
    using pending_where_mono [of _ "\<lambda>_. True" "wdDb w"] by (fastforce simp: world_ok_def outstanding_def)
next
  fix w w' :: "'a world" and i r
  assume "world_ok w" "wMarkDelivered (world_env c sched grp mid) i w = (r, w')"
  then show "world_ok w' \<and> outstanding w - {i} \<subseteq> outstanding w' \<and> outstanding w' \<subseteq> outstanding w \<and>
      (r = None \<longrightarrow> i \<notin> outstanding w')"
    using MarkDelivered_world by (fastforce simp: world_env_def on_db_eq outstanding_def)
next
  fix w w' :: "'a world" and i n t e r
  assume "world_ok w" "0 \<le> n" "wMarkFailed (world_env c sched grp mid) i n t False e w = (r, w')"
  then show "world_ok w' \<and> outstanding w' = outstanding w"
    using MarkFailed_world by (fastforce simp: world_env_def on_db_eq outstanding_def)
next
  fix w w' :: "'a world" and p r timeout
  assume ok: "world_ok w" and "wPublish (world_env c sched grp mid) timeout p w = (r, w')"
  then have "steps_only w w'" by (intro Publish_only) (simp add: world_env_def)
  with ok show "world_ok w' \<and> outstanding w' = outstanding w"
    unfolding outstanding_def by (rule world_ok_deliveries)
qed (simp add: outstanding_def finite_pending_where)

section \<open>The store under a standing clock\<close>

definition clock_ok :: "time \<Rightarrow> bool" where
  "clock_ok T \<longleftrightarrow> 0 \<le> T \<and> T + 256 * second < 253402300800 * second"

definition standing :: "(nat \<Rightarrow> faults) \<Rightarrow> time \<Rightarrow> schedule" where
  "standing fs T = (\<lambda>n. (fs n, T))"

lemma now_standing [simp]: "now_at (standing fs T) w = T"
  by (simp add: now_at_def standing_def)

lemma later_text:
  assumes "clock_ok T" "T + second \<le> t" "t \<le> T + 256 * second"
  shows "formatTime T < formatTime t"
proof -
  have "four_digit_year T" "four_digit_year t"
    using assms by (auto intro!: four_digit_yearI simp: clock_ok_def second_def)
  moreover have "T div second < t div second"
    using zdiv_mono1 [OF assms(2), of second] by (simp add: second_def)
  ultimately show ?thesis unfolding formatTime_def by (rule rfc3339_less_seconds)
qed

interpretation clock: timed_queue "world_env c (standing fs T) grp mid" outstanding
  "\<lambda>w. world_ok w \<and> clock_ok T" "ready_at T" T
proof
  fix w w' :: "'a world" and n out
  assume "world_ok w \<and> clock_ok T" "wPending (world_env c (standing fs T) grp mid) n w = (out, w')"
  then show "(world_ok w' \<and> clock_ok T) \<and> outstanding w' = outstanding w"
    using queue.pending by blast
next
  fix w w' :: "'a world" and n ds
  assume "world_ok w \<and> clock_ok T" "wPending (world_env c (standing fs T) grp mid) n w = (Inr ds, w')"
  then show "distinct (map dvID ds) \<and> dvID ` set ds \<subseteq> outstanding w \<and> (\<forall>d \<in> set ds. 0 \<le> dvAttempts d)"
    using queue.pending_outstanding by blast
next
  fix w w' :: "'a world" and i r
  assume "world_ok w \<and> clock_ok T" "wMarkDelivered (world_env c (standing fs T) grp mid) i w = (r, w')"
  then show "(world_ok w' \<and> clock_ok T) \<and> outstanding w - {i} \<subseteq> outstanding w' \<and>
      outstanding w' \<subseteq> outstanding w \<and> (r = None \<longrightarrow> i \<notin> outstanding w')"
    using queue.delivered by blast
next
  fix w w' :: "'a world" and i n t e r
  assume "world_ok w \<and> clock_ok T" "0 \<le> n" "wMarkFailed (world_env c (standing fs T) grp mid) i n t False e w = (r, w')"
  then show "(world_ok w' \<and> clock_ok T) \<and> outstanding w' = outstanding w"
    using queue.failed by blast
next
  fix w w' :: "'a world" and p r timeout
  assume "world_ok w \<and> clock_ok T" "wPublish (world_env c (standing fs T) grp mid) timeout p w = (r, w')"
  then show "(world_ok w' \<and> clock_ok T) \<and> outstanding w' = outstanding w"
    using queue.publish by blast
next
  fix w w' :: "'a world" and n out
  assume ok: "world_ok w \<and> clock_ok T" and p: "wPending (world_env c (standing fs T) grp mid) n w = (out, w')"
  from p have "PendingDeliveries (io_at (standing fs T) w) T n (wdDb w) = out" and d: "wdDb w' = wdDb w"
    by (auto simp: world_env_def on_db_eq)
  moreover have "db_wf (wdDb w)" using ok by (simp add: world_ok_def)
  ultimately show "ready_at T w' = ready_at T w \<and> (\<forall>ds. out = Inr ds \<longrightarrow> dvID ` set ds \<subseteq> ready_at T w)"
    unfolding ready_at_def by (metis PendingDeliveries_given(2))
next
  fix w w' :: "'a world" and i r
  assume "world_ok w \<and> clock_ok T" "wMarkDelivered (world_env c (standing fs T) grp mid) i w = (r, w')"
  then show "ready_at T w' \<subseteq> ready_at T w"
    using MarkDelivered_world by (fastforce simp: world_env_def on_db_eq ready_at_def)
next
  fix w w' :: "'a world" and p r timeout
  assume ok: "world_ok w \<and> clock_ok T" and "wPublish (world_env c (standing fs T) grp mid) timeout p w = (r, w')"
  then have "steps_only w w'" by (intro Publish_only) (simp add: world_env_def)
  with ok show "ready_at T w' = ready_at T w"
    unfolding ready_at_def using world_ok_deliveries by blast
next
  fix w w' :: "'a world" and i n t e r
  assume ok: "world_ok w \<and> clock_ok T" and t: "T + second \<le> t" "t \<le> T + 256 * second"
    and m: "wMarkFailed (world_env c (standing fs T) grp mid) i n t False e w = (r, w')"
  have "formatTime T < formatTime t" using ok t by (intro later_text) simp_all
  moreover obtain d' where f: "MarkFailed (io_at (standing fs T) w) i n t False e (wdDb w) = (r, d')" "wdDb w' = d'"
    using m by (auto simp: world_env_def on_db_eq)
  ultimately have "ready_at T w' \<subseteq> ready_at T w - (if r = None then {i} else {})"
    unfolding ready_at_def f(2) by (intro MarkFailed_ready [OF f(1)])
  then show "ready_at T w' \<subseteq> ready_at T w \<and> (r = None \<longrightarrow> i \<notin> ready_at T w')" by (auto split: if_splits)
qed (auto simp: world_env_def ready_at_def outstanding_def finite_pending_where pending_where_def)

section \<open>The store is a track mapping\<close>

interpretation mapping: track_mapping "world_adapter c sched grp mid" "\<lambda>w. track_of (wdDb w)"
proof
  fix w w' :: "'a world" and k out
  assume "tsTrackID (adStore (world_adapter c sched grp mid)) k w = (out, w')"
  then show "track_of (wdDb w') = track_of (wdDb w) \<and> (\<forall>t b. out = Inr (t, b) \<longrightarrow>
      (b \<longleftrightarrow> track_of (wdDb w) k \<noteq> None) \<and> (b \<longrightarrow> track_of (wdDb w) k = Some t))"
    by (auto simp: world_defs on_db_eq TrackID_def attempt_def track_of_def split: option.splits)
next
  fix w w' :: "'a world" and k dev t r
  assume "tsSaveTrack (adStore (world_adapter c sched grp mid)) k dev t w = (r, w')"
  then obtain d' where s: "SaveTrack (io_at sched w) (now_at sched w) k dev t (wdDb w) = (r, d')" "wdDb w' = d'"
    by (auto simp: world_defs on_db_eq)
  from s(1) show "track_of (wdDb w') = (if r = None then (track_of (wdDb w))(k := Some t) else track_of (wdDb w))"
    by (cases rule: SaveTrack_cases) (auto simp: s(2) track_of_upsert fun_eq_iff)
qed (auto simp: world_adapter_def dest: client_only)

end
