(* ===== verification/Intake.thy ===== *)
theory Intake
  imports Ingest World
begin

text \<open>
  The ingest service on the store, as \<^verbatim>\<open>cmd/bridge/main.go\<close> wires it: the same state as the worker's
  and the same schedule of driver failures and clock readings. The interface \<open>packet_archive\<close> is
  interpreted on it, and the properties say what one message does to the database.
\<close>

section \<open>The service of the bridge\<close>

definition store_nodes :: "schedule \<Rightarrow> 'c world node_directory" where
  "store_nodes sched =
     \<lparr>ndUpsertNode = \<lambda>n short long w. on_db (UpsertNode (io_at sched w) (now_at sched w) n short long) w,
      ndNodeCallsign = \<lambda>n w. on_db (\<lambda>d. (NodeCallsign (io_at sched w) n d, d)) w\<rparr>"

text \<open>\<open>Wake\<close> puts a token into the worker's channel unless one is there.\<close>

definition Wake :: "'c world \<Rightarrow> 'c world" where
  "Wake w = w\<lparr>wdWake := True\<rparr>"

definition world_service :: "(string \<Rightarrow> byte list) \<Rightarrow> schedule \<Rightarrow> bool \<Rightarrow> bool \<Rightarrow> 'c world service" where
  "world_service sum256 sched enabled decode_position_app =
     \<lparr>svArchive = \<lambda>p pos enqueue w. on_db (Archive sum256 (io_at sched w) (now_at sched w) p pos enqueue) w,
      svNodes = Some (store_nodes sched), svEnqueueCalTopo = enabled,
      svDecodePositionApp = decode_position_app,
      svWakeDeliveries = (if enabled then Some Wake else None), svNow = now_at sched\<rparr>"

lemma service_fields [simp]:
  "svNow (world_service sum256 sched enabled app) = now_at sched"
  "svDecodePositionApp (world_service sum256 sched enabled app) = app"
  "svEnqueueCalTopo (world_service sum256 sched enabled app) = enabled"
  "svWakeDeliveries (world_service sum256 sched enabled app) = (if enabled then Some Wake else None)"
  by (simp_all add: world_service_def)

lemmas service_defs = world_service_def store_nodes_def

section \<open>The store is a packet archive\<close>

lemma Archive_packets:
  assumes "Archive sum256 io now p pos enqueue d = (Inr ids, d')"
  shows "packets d' = packets d @ [packet_row_of (packet_seq d + 1) p]"
  using assms by (cases rule: Archive_cases)
    (auto simp: insert_packet_Inr insert_position_Inr insert_delivery_Inr split: if_splits)

lemma Archive_failed: "Archive sum256 io now p pos enqueue d = (Inl e, d') \<Longrightarrow> d' = d"
  by (cases rule: Archive_cases) auto

definition archive_view :: "'c world \<Rightarrow> packet_row list" where
  "archive_view w = map (\<lambda>r. r\<lparr>prId := 0\<rparr>) (packets (wdDb w))"

definition facts_view :: "'c world \<Rightarrow> packet_row list \<times> _ \<times> delivery_row list" where
  "facts_view w = (packets (wdDb w), map fact_of (positions (wdDb w)), deliveries (wdDb w))"

lemma UpsertNode_facts:
  assumes "UpsertNode io now node short long d = (r, d')"
  shows "packets d' = packets d \<and> map fact_of (positions d') = map fact_of (positions d) \<and> deliveries d' = deliveries d"
  using assms
proof (cases rule: UpsertNode_cases)
  case stored
  have "packets (upsert_node_row n s l t d) = packets d \<and> positions (upsert_node_row n s l t d) = positions d \<and>
      deliveries (upsert_node_row n s l t d) = deliveries d" for n s l t
    by (simp add: upsert_node_row_def Let_def)
  with stored(2) show ?thesis by (simp add: rename_positions_def fact_of_rename)
qed simp

interpretation intake: packet_archive "world_service sum256 sched enabled app" archive_view "packet_row_of 0" facts_view
  by unfold_locales
    (auto simp: archive_view_def facts_view_def service_defs Wake_def on_db_eq packet_row_of_def
      dest!: Archive_packets Archive_failed UpsertNode_facts split: if_splits)


section \<open>A packet with a position\<close>

lemma position_ports:
  assumes "snd (DecodeWithOptions lib m t app) = Some q"
  shows "learn_node lib sv m st s = (None, st, s)" and "poSourceNode q = mpFrom m"
    and "pkEncrypted (fst (DecodeWithOptions lib m t app)) = False"
proof -
  from assms have "\<exists>d. GetDecoded m = Some d \<and> dtPortnum d \<noteq> NODEINFO_APP \<and> poSourceNode q = mpFrom m \<and>
      \<not> pkEncrypted (fst (DecodeWithOptions lib m t app))"
  proof (cases rule: decode_Some_cases)
    case (app raw d)
    from app(5) show ?thesis
      by (cases rule: decodePositionApp_Inr)
        (use app in \<open>auto simp: newPosition_Inr port_defs data_record_def base_record_def\<close>)
  next
    case (legacy raw d u)
    from legacy(4) show ?thesis
      by (cases rule: decodeLegacy_Inr)
        (use legacy in \<open>auto simp: newPosition_Inr port_defs data_record_def base_record_def\<close>)
  qed
  then show "learn_node lib sv m st s = (None, st, s)" "poSourceNode q = mpFrom m"
    "pkEncrypted (fst (DecodeWithOptions lib m t app)) = False"
    by (auto simp: learn_node_def)
qed

text \<open>The callsign a position is stored with: its own, or else the one the directory has.\<close>

definition known_callsign :: "position \<Rightarrow> db \<Rightarrow> string" where
  "known_callsign q d =
     (case NodeCallsign no_faults (poSourceNode q) d of
        Inr cs \<Rightarrow> if poCallsign q = SourceID q \<and> cs \<noteq> [] then cs else poCallsign q
      | Inl e \<Rightarrow> poCallsign q)"

lemma NodeCallsign_Inr:
  "NodeCallsign io n d = Inr cs \<Longrightarrow> NodeCallsign no_faults n d = Inr cs"
  by (auto simp: NodeCallsign_def attempt_def split: option.splits)

lemma resolve_store:
  assumes "resolve_callsign (world_service sum256 sched enabled app) (Some q) w = (Inr q', w')"
  shows "q' = Some (q\<lparr>poCallsign := known_callsign q (wdDb w)\<rparr>) \<and> wdDb w' = wdDb w \<and> wdWake w' = wdWake w"
proof -
  have "\<exists>cs. NodeCallsign no_faults n d = Inr cs" for n d
    by (auto simp: NodeCallsign_def attempt_def split: option.split)
  with assms show ?thesis
    by (cases q) (auto simp: resolve_callsign_def service_defs known_callsign_def on_db_eq tick_def
        dest: NodeCallsign_Inr split: if_splits sum.splits prod.splits)
qed

lemma Archive_stored:
  assumes "Archive sum256 io now p (Some q) enqueue d = (Inr (i, j, inserted), d')"
  shows "if positionKey sum256 q \<in> trDedupeKey ` set (positions d)
    then \<not> inserted \<and> positions d' = positions d \<and> deliveries d' = deliveries d
    else inserted \<and> (\<exists>port. positions d' = positions d @ [position_row_of j i (positionKey sum256 q) port q]) \<and>
      deliveries d' = deliveries d @ (if enqueue then [delivery_row_of (delivery_seq d + 1) j now] else [])"
  using assms
proof (cases rule: Archive_cases)
  case (duplicate q' row)
  then show ?thesis using position_of_key_Some [of _ d row] by (force simp: insert_packet_Inr)
next
  case (stored q' d1 d2)
  then show ?thesis
    by (auto simp: insert_packet_Inr insert_position_Inr insert_delivery_Inr position_of_key_None split: if_splits)
qed simp_all

section \<open>When nothing fails\<close>

lemma decoded_between:
  assumes "snd (DecodeWithOptions lib m t app) = Some q"
  shows "between 90 (poLatitude q) \<and> between 180 (poLongitude q)"
  using assms
proof (cases rule: decode_Some_cases)
  case (app raw d)
  from app(5) show ?thesis
    by (cases rule: decodePositionApp_Inr) (auto simp: newPosition_Inr not_out_of_range between_def)
next
  case (legacy raw d u)
  from legacy(4) show ?thesis
    by (cases rule: decodeLegacy_Inr) (auto simp: newPosition_Inr not_out_of_range between_def)
qed

lemma decoded_snr: "pkSNR (fst (DecodeWithOptions lib m t app)) = mpRxSnr m"
  by (simp add: DecodeWithOptions_def base_record_def Let_def split: sum.split option.split prod.split)

definition working_from :: "nat \<Rightarrow> schedule \<Rightarrow> bool" where
  "working_from n sched \<longleftrightarrow> (\<forall>k \<ge> n. fst (sched k) = no_faults)"

lemma io_at_working: "working_from n sched \<Longrightarrow> n \<le> wdTick w \<Longrightarrow> io_at sched w = no_faults"
  by (simp add: working_from_def io_at_def)

text \<open>What every call of the service keeps: the invariant of the tables, and the count of calls grows.\<close>

definition advance :: "'c world \<Rightarrow> 'c world \<Rightarrow> bool" where
  "advance w w' \<longleftrightarrow> (db_wf (wdDb w) \<longrightarrow> db_wf (wdDb w')) \<and> wdTick w \<le> wdTick w'"

abbreviation advance_err :: "'c world \<Rightarrow> bool \<Rightarrow> 'c world \<Rightarrow> bool" where
  "advance_err w failed w' \<equiv> advance w w' \<and> (failed \<longrightarrow> wdTick w < wdTick w')"

lemma advance_refl [simp]: "advance w w"
  by (simp add: advance_def)

lemma advance_trans: "advance w w1 \<Longrightarrow> advance w1 w2 \<Longrightarrow> advance w w2"
  by (auto simp: advance_def)

lemma on_db_advance:
  assumes "on_db f w = (r, w')" "db_wf (wdDb w) \<Longrightarrow> db_wf (snd (f (wdDb w)))"
  shows "advance w w' \<and> wdTick w < wdTick w'"
  using assms by (auto simp: on_db_eq advance_def tick_def)

lemma remember_advance:
  "rememberNode (world_service sum256 sched enabled app) n u w = (r, w') \<Longrightarrow> advance_err w (r \<noteq> None) w'"
  by (auto simp: rememberNode_def service_defs UpsertNode_wf dest!: on_db_advance split: option.splits)

lemma learn_advance:
  "learn_node lib (world_service sum256 sched enabled app) m st w = (r, st', w') \<Longrightarrow> advance_err w (r \<noteq> None) w'"
  by (auto simp: learn_node_def dest!: remember_advance split: option.splits sum.splits if_splits prod.splits)

lemma resolve_advance:
  "resolve_callsign (world_service sum256 sched enabled app) pos w = (r, w') \<Longrightarrow> advance_err w (isl r) w'"
  by (auto simp: resolve_callsign_def service_defs dest!: on_db_advance
      split: option.splits sum.splits if_splits prod.splits)

lemma archive_advance:
  "svArchive (world_service sum256 sched enabled app) p pos en w = (r, w') \<Longrightarrow> advance w w' \<and> wdTick w < wdTick w'"
  unfolding world_service_def by (simp add: Archive_wf on_db_advance)

lemma announce_advance:
  "announce (world_service sum256 sched enabled app) p pos ids st w = (st', w') \<Longrightarrow> advance w w'"
  by (auto simp: announce_def Let_def advance_def Wake_def split: option.splits if_splits prod.splits)

lemma handle_packet_advance:
  assumes "handle_packet lib (world_service sum256 sched enabled app) m st w = (r, st', w')"
  shows "advance_err w (r \<noteq> None) w'"
proof -
  let ?sv = "world_service sum256 sched enabled app"
  obtain l st1 w1 where l: "learn_node lib ?sv m st w = (l, st1, w1)" by (metis surj_pair)
  obtain p pos where p: "DecodeWithOptions lib m (now_at sched w1) app = (p, pos)" by fastforce
  obtain q w2 where q: "resolve_callsign ?sv pos w1 = (q, w2)" by fastforce
  obtain a w3 where a: "svArchive ?sv p (projr q) enabled w2 = (a, w3)" by fastforce
  obtain st2 w4 where n: "announce ?sv p (projr q) (projr a) st1 w3 = (st2, w4)" by fastforce
  note adv = learn_advance [OF l] resolve_advance [OF q] archive_advance [OF a] announce_advance [OF n]
  have "(r, w') = (case l of Some e \<Rightarrow> (Some e, w1) | None \<Rightarrow>
      (case q of Inl e \<Rightarrow> (Some e, w2) | Inr pos' \<Rightarrow> (case a of Inl e \<Rightarrow> (Some e, w3) | Inr ids \<Rightarrow> (None, w4))))"
    using assms l p q a n by (auto simp: handle_packet_def split: option.splits sum.splits prod.splits)
  with adv show ?thesis
    by (auto simp: advance_def split: option.splits sum.splits)
qed

lemma Handle_advance:
  assumes "Handle lib (world_service sum256 sched enabled app) m st w = (r, st', w')"
  shows "advance_err w (r \<noteq> None) w'"
proof (cases "packet_of m")
  case None
  with assms show ?thesis
    by (auto simp: packet_of_def Handle_def dest!: remember_advance split: option.splits if_splits prod.splits)
next
  case (Some p)
  with assms handle_packet_advance show ?thesis by (simp add: Handle_packet)
qed

lemma remember_succeeds:
  assumes "working_from (wdTick w) sched"
  shows "\<exists>w'. rememberNode (world_service sum256 sched enabled app) n u w = (None, w')"
  using UpsertNode_ok [of "now_at sched w" n "usShortName (the u)" "usLongName (the u)" "wdDb w"]
  by (cases u) (simp_all add: rememberNode_def service_defs on_db_def io_at_working [OF assms])

lemma learn_succeeds:
  assumes "working_from (wdTick w) sched"
  shows "\<exists>st' w'. learn_node lib (world_service sum256 sched enabled app) m st w = (None, st', w')"
proof -
  have "\<exists>w'. rememberNode (world_service sum256 sched enabled app) n u w = (None, w')" for n u
    by (rule remember_succeeds [OF assms])
  then show ?thesis
    by (auto simp: learn_node_def split: option.split sum.split prod.split) (metis prod.inject)+
qed

lemma resolve_succeeds:
  assumes "working_from (wdTick w) sched"
  shows "\<exists>w'. resolve_callsign (world_service sum256 sched enabled app) pos w =
    (Inr (map_option (\<lambda>q. q\<lparr>poCallsign := known_callsign q (wdDb w)\<rparr>) pos), w') \<and> wdDb w' = wdDb w"
proof (cases pos)
  case (Some q)
  have "\<exists>cs. NodeCallsign no_faults n d = Inr cs" for n d
    by (auto simp: NodeCallsign_def attempt_def split: option.split)
  then obtain cs where "NodeCallsign no_faults (poSourceNode q) (wdDb w) = Inr cs" by blast
  with Some show ?thesis
    by (cases q) (simp add: io_at_working [OF assms] resolve_callsign_def service_defs on_db_def known_callsign_def)
qed (simp add: resolve_callsign_def)

lemma working_advance: "working_from (wdTick w) sched \<Longrightarrow> advance w w' \<Longrightarrow> working_from (wdTick w') sched"
  by (auto simp: working_from_def advance_def)

lemma handle_packet_succeeds:
  assumes "working_from (wdTick w) sched" "db_wf (wdDb w)" "mpRxSnr m \<noteq> NaN"
  shows "\<exists>st' w'. handle_packet lib (world_service sum256 sched enabled app) m st w = (None, st', w')"
proof -
  let ?sv = "world_service sum256 sched enabled app"
  obtain st1 w1 where l: "learn_node lib ?sv m st w = (None, st1, w1)"
    using learn_succeeds [OF assms(1)] by blast
  have a1: "advance w w1" using learn_advance [OF l] by simp
  note wf1 = working_advance [OF assms(1) a1]
  obtain p pos where p: "DecodeWithOptions lib m (now_at sched w1) app = (p, pos)" by fastforce
  define pos' where "pos' = map_option (\<lambda>q. q\<lparr>poCallsign := known_callsign q (wdDb w1)\<rparr>) pos"
  obtain w2 where r: "resolve_callsign ?sv pos w1 = (Inr pos', w2)" "wdDb w2 = wdDb w1"
    using resolve_succeeds [OF wf1] unfolding pos'_def by blast
  have wf2: "working_from (wdTick w2) sched" using working_advance [OF wf1] resolve_advance [OF r(1)] by blast
  have db: "db_wf (wdDb w2)" using a1 assms(2) r(2) by (simp add: advance_def)
  have range: "between 90 (poLatitude q) \<and> between 180 (poLongitude q)" if "pos' = Some q" for q
    using that p decoded_between [of lib m "now_at sched w1" app] by (auto simp: pos'_def)
  have "pkSNR p \<noteq> NaN" using decoded_snr [of lib m "now_at sched w1" app] p assms(3) by simp
  then have "\<not> isl (fst (Archive sum256 no_faults (now_at sched w2) p pos' enabled (wdDb w2)))"
    using Archive_succeeds db range by metis
  then obtain ids d3 where "Archive sum256 no_faults (now_at sched w2) p pos' enabled (wdDb w2) = (Inr ids, d3)"
    by (metis isl_def prod.collapse sum.exhaust)
  then obtain w3 where "svArchive ?sv p pos' enabled w2 = (Inr ids, w3)"
    by (simp add: io_at_working [OF wf2] world_service_def on_db_def)
  with l p r(1) show ?thesis by (simp add: handle_packet_def split: prod.split)
qed

lemma Handle_succeeds:
  assumes "working_from (wdTick w) sched" "db_wf (wdDb w)" "\<And>p. packet_of m = Some p \<Longrightarrow> mpRxSnr p \<noteq> NaN"
  shows "\<exists>st' w'. Handle lib (world_service sum256 sched enabled app) m st w = (None, st', w')"
proof (cases "packet_of m")
  case None
  have rem: "\<exists>w'. rememberNode (world_service sum256 sched enabled app) n u w = (None, w')" for n u
    using remember_succeeds [OF assms(1)] by blast
  show ?thesis
    using None rem [of "fst (the (frNodeInfo m))" "snd (the (frNodeInfo m))"]
    by (auto simp: Handle_def packet_of_def split: option.split)
next
  case (Some p)
  then show ?thesis
    using handle_packet_succeeds [OF assms(1,2) assms(3) [OF Some]] by (simp add: Handle_packet)
qed

section \<open>A message with a fix\<close>

definition sample_message :: from_radio where
  "sample_message = \<lparr>frMetadata = None, frDeviceRole = None, frConfigCompleteId = 0, frNodeInfo = None,
     frPacket = Some (sample_packet 42 POSITION_APP)\<rparr>"

abbreviation sample_service :: "unit world service" where
  "sample_service \<equiv> world_service sample_hash (\<lambda>_. (no_faults, 0)) True True"

definition empty_world :: "unit world" where
  "empty_world = \<lparr>wdDb = empty_db, wdClient = (), wdTick = 0, wdWake = False\<rparr>"

lemma sample_message_packet: "packet_of sample_message = Some (sample_packet 42 POSITION_APP)"
  by (simp add: packet_of_def sample_message_def)

lemma sample_handled:
  "\<exists>st' w'. Handle sample_lib sample_service sample_message new_ingest empty_world = (None, st', w')"
  by (rule Handle_succeeds) (simp_all add: working_from_def empty_world_def db_wf_empty sample_message_packet sample_packet_def)

section \<open>Properties\<close>

text \<open>
  Handling a message stores its packet exactly once or leaves everything archived as it was: with
  an error, and for every message that is not a packet, no packet row, no position's facts and no
  delivery has changed; without one exactly one row was appended, the packet as the decoder read it.
\<close>
theorem handle_archives_once:
  assumes "Handle lib (world_service sum256 sched enabled app) m st w = (r, st', w')"
  shows "case (packet_of m, r) of
      (Some p, None) \<Rightarrow> \<exists>t. map (\<lambda>x. x\<lparr>prId := 0\<rparr>) (packets (wdDb w')) =
        map (\<lambda>x. x\<lparr>prId := 0\<rparr>) (packets (wdDb w)) @ [packet_row_of 0 (fst (DecodeWithOptions lib p t app))]
    | _ \<Rightarrow> packets (wdDb w') = packets (wdDb w) \<and> deliveries (wdDb w') = deliveries (wdDb w) \<and>
        map fact_of (positions (wdDb w')) = map fact_of (positions (wdDb w))"
  using intake.Handle_archived [OF assms]
  by (auto simp: archive_view_def facts_view_def world_service_def split: option.splits)

theorem handle_archives_once_witness:
  "\<exists>st' w'. Handle sample_lib sample_service sample_message new_ingest empty_world = (None, st', w') \<and>
     length (packets (wdDb w')) = 1"
proof -
  obtain st' w' where h: "Handle sample_lib sample_service sample_message new_ingest empty_world = (None, st', w')"
    using sample_handled by blast
  from handle_archives_once [OF h] have "length (map (\<lambda>x. x\<lparr>prId := 0\<rparr>) (packets (wdDb w'))) = 1"
    by (auto simp: sample_message_packet empty_world_def empty_db_def)
  with h show ?thesis by simp
qed

text \<open>
  C20: What becomes of a position: when \<open>Handle\<close> succeeds on a packet that decodes to a position, the
  position is stored with the callsign the node directory has for it if it came without one, queued
  for delivery and announced to the worker, unless one with the same key is stored already; then
  nothing is queued and the worker is not woken.
\<close>
theorem handle_stores_position:
  assumes "Handle lib (world_service sum256 sched enabled app) m st w = (None, st', w')"
    and "packet_of m = Some p" "snd (DecodeWithOptions lib p (now_at sched w) app) = Some q"
  shows "let q' = q\<lparr>poCallsign := known_callsign q (wdDb w)\<rparr> in
    if positionKey sum256 q' \<in> trDedupeKey ` set (positions (wdDb w))
    then positions (wdDb w') = positions (wdDb w) \<and> deliveries (wdDb w') = deliveries (wdDb w) \<and> wdWake w' = wdWake w
    else (\<exists>i j port now. positions (wdDb w') = positions (wdDb w) @ [position_row_of j i (positionKey sum256 q') port q'] \<and>
        deliveries (wdDb w') = deliveries (wdDb w) @
          (if enabled then [delivery_row_of (delivery_seq (wdDb w) + 1) j now] else [])) \<and>
      wdWake w' = (enabled \<or> wdWake w)"
proof -
  let ?sv = "world_service sum256 sched enabled app"
  define q' where "q' = q\<lparr>poCallsign := known_callsign q (wdDb w)\<rparr>"
  obtain pk where d: "DecodeWithOptions lib p (now_at sched w) app = (pk, Some q)"
    using assms(3) by (metis prod.collapse)
  have enc: "\<not> pkEncrypted pk" using position_ports(3) [OF assms(3)] d by simp
  have h: "handle_packet lib ?sv p st w = (None, st', w')" using assms(1,2) by (simp add: Handle_packet)
  have run: "(case resolve_callsign ?sv (Some q) w of
      (Inl e, w1) \<Rightarrow> (Some e, st, w1)
    | (Inr pos, w1) \<Rightarrow>
        (case svArchive ?sv pk pos enabled w1 of
          (Inl e, w2) \<Rightarrow> (Some e, st, w2)
        | (Inr ids, w2) \<Rightarrow> (case announce ?sv pk pos ids st w2 of (st2, w3) \<Rightarrow> (None, st2, w3)))) = (None, st', w')"
    using h unfolding handle_packet_def position_ports(1) [OF assms(3)] prod.case option.case service_fields d Let_def .
  obtain pos w1 where rp: "resolve_callsign ?sv (Some q) w = (Inr pos, w1)"
    using run by (cases "resolve_callsign ?sv (Some q) w"; cases "fst (resolve_callsign ?sv (Some q) w)") auto
  then have r: "pos = Some q'" "wdDb w1 = wdDb w" "wdWake w1 = wdWake w"
    using resolve_store [OF rp] by (simp_all add: q'_def)
  obtain i j inserted w2 where a1: "svArchive ?sv pk (Some q') enabled w1 = (Inr (i, j, inserted), w2)"
    using run rp r(1) by (cases "svArchive ?sv pk (Some q') enabled w1"; cases "fst (svArchive ?sv pk (Some q') enabled w1)") auto
  have a: "Archive sum256 (io_at sched w1) (now_at sched w1) pk (Some q') enabled (wdDb w)
      = (Inr (i, j, inserted), wdDb w2)" and "wdWake w2 = wdWake w"
    using a1 r(2,3) by (auto simp: world_service_def on_db_eq tick_def)
  moreover have wk: "(case svWakeDeliveries ?sv of None \<Rightarrow> w2 | Some f \<Rightarrow> f w2) = w2\<lparr>wdWake := enabled \<or> wdWake w2\<rparr>"
    by (cases enabled) (simp_all add: Wake_def)
  ultimately have w': "wdDb w' = wdDb w2" "wdWake w' = (if inserted then enabled \<or> wdWake w else wdWake w)"
    using run rp r(1) a1 enc
    by (auto simp: announce_def wk simp del: service_fields split: if_splits)
  show ?thesis
  proof (cases "positionKey sum256 q' \<in> trDedupeKey ` set (positions (wdDb w))")
    case True
    with Archive_stored [OF a] w' show ?thesis by (simp add: q'_def [symmetric])
  next
    case False
    with Archive_stored [OF a] obtain port where new: "inserted"
      "positions (wdDb w2) = positions (wdDb w) @ [position_row_of j i (positionKey sum256 q') port q']"
      "deliveries (wdDb w2) = deliveries (wdDb w) @
        (if enabled then [delivery_row_of (delivery_seq (wdDb w) + 1) j (now_at sched w1)] else [])"
      by auto
    have "\<exists>i j port now. positions (wdDb w') = positions (wdDb w) @ [position_row_of j i (positionKey sum256 q') port q'] \<and>
        deliveries (wdDb w') = deliveries (wdDb w) @
          (if enabled then [delivery_row_of (delivery_seq (wdDb w) + 1) j now] else [])"
      unfolding w'(1) new by (intro exI conjI) (rule refl)+
    with False new(1) w'(2) show ?thesis by (simp add: q'_def [symmetric])
  qed
qed

theorem handle_stores_position_witness:
  "\<exists>st' w'. Handle sample_lib sample_service sample_message new_ingest empty_world = (None, st', w') \<and>
     length (deliveries (wdDb w')) = 1 \<and> wdWake w'"
proof -
  obtain st' w' where h: "Handle sample_lib sample_service sample_message new_ingest empty_world = (None, st', w')"
    using sample_handled by blast
  obtain q where "snd (DecodeWithOptions sample_lib (sample_packet 42 POSITION_APP) (now_at (\<lambda>_. (no_faults, 0)) empty_world) True) = Some q"
    by (rule decode_sample)
  from handle_stores_position [OF h sample_message_packet this] h show ?thesis
    by (auto simp: empty_world_def empty_db_def Let_def)
qed

text \<open>
  Intake does not get stuck by itself: while the database works, \<open>Handle\<close> returns no error for any
  message, whatever the radio sent and however little of it could be decoded; the one exception is a
  packet whose signal-to-noise ratio is NaN.
\<close>
theorem handle_succeeds:
  assumes "reachable sum256 (wdDb w)" "working_from (wdTick w) sched"
    and "\<And>p. packet_of m = Some p \<Longrightarrow> mpRxSnr p \<noteq> NaN"
  shows "\<exists>st' w'. Handle lib (world_service sum256 sched enabled app) m st w = (None, st', w')"
  by (rule Handle_succeeds [OF assms(2) reachable_db_wf [OF assms(1)] assms(3)])

theorem handle_succeeds_witness:
  "\<exists>st' w'. Handle sample_lib sample_service sample_message new_ingest empty_world = (None, st', w')"
  by (rule handle_succeeds)
    (simp_all add: working_from_def empty_world_def reachable_def sample_message_packet sample_packet_def)

end
