(* ===== verification/Delivery.thy ===== *)
theory Delivery
  imports World
begin

text \<open>
  What the worker achieves on the store: nothing leaves the queue without having been published or
  judged superfluous, a rejected publication is repeated with the same position, the loop ends, and a
  completed publication updated the track that the store maps the node to.
\<close>

section \<open>The retry delay\<close>

lemma retry_delay_bounds:
  assumes "1 \<le> n"
  shows "2 * second \<le> second * 2 ^ nat (min n 8)" "second * 2 ^ nat (min n 8) \<le> 256 * second"
proof -
  have "(2 :: int) ^ 1 \<le> 2 ^ nat (min n 8)" using assms by (intro power_increasing) auto
  then show "2 * second \<le> second * 2 ^ nat (min n 8)" by (simp add: second_def)
  have "(2 :: int) ^ nat (min n 8) \<le> 2 ^ 8" by (intro power_increasing) auto
  then show "second * 2 ^ nat (min n 8) \<le> 256 * second" by (simp add: second_def)
qed

section \<open>One drain\<close>

lemma outcomes_prefix: "\<exists>rest. ds = map fst (outcomes env dst timeout ds f s) @ rest"
  by (induction ds arbitrary: f s) (auto split: option.splits)

lemma settled_ids_distinct:
  "distinct (map dvID (map fst outs)) \<Longrightarrow> (d, out) \<in> set outs \<Longrightarrow> \<not> settled_outcome out \<Longrightarrow>
    dvID d \<notin> settled_ids outs"
proof (induction outs)
  case (Cons x outs)
  then obtain c o' where x: "x = (c, o')" by (cases x)
  have rest: "distinct (map dvID (map fst outs))" "dvID c \<notin> dvID ` set (map fst outs)"
    using Cons.prems(1) by (simp_all add: x del: map_map)
  have sub: "settled_ids outs \<subseteq> dvID ` set (map fst outs)" by (auto simp: settled_ids_def)
  show ?case
  proof (cases "(d, out) = x")
    case True
    moreover have "dvID c \<notin> settled_ids outs" using rest(2) sub by blast
    ultimately show ?thesis using Cons.prems(3) by (simp add: x)
  next
    case False
    then have m: "(d, out) \<in> set outs" using Cons.prems(2) by simp
    then have "dvID d \<in> dvID ` set (map fst outs)" by force
    with rest(2) have "dvID d \<noteq> dvID c" by metis
    with Cons.IH [OF rest(1) m Cons.prems(3)] show ?thesis by (simp add: x)
  qed
qed simp

lemma drain_world:
  assumes "world_ok w" "filter_ok f" "wPending (world_env c sched grp mid) 50 w = (Inr ds, w1)"
  obtains r f' w' where "deliver_all (world_env c sched grp mid) dst timeout ds f w1 = Some (r, f', w')"
    "drain (world_env c sched grp mid) dst timeout f w =
       Some ((case r of None \<Rightarrow> int (length ds) | Some e \<Rightarrow> 0, r), f', w')"
    "filter_ok f'" "world_ok w'" "distinct (map dvID ds)" "outstanding w1 = outstanding w"
    "outstanding w' \<subseteq> outstanding w"
    "outstanding w - outstanding w' \<subseteq> settled_ids (outcomes (world_env c sched grp mid) dst timeout ds f w1)"
    "r = None \<Longrightarrow> settled_ids (outcomes (world_env c sched grp mid) dst timeout ds f w1) \<inter> outstanding w' = {}"
proof -
  let ?env = "world_env c sched grp mid"
  have w1: "world_ok w1" "outstanding w1 = outstanding w" using queue.pending [OF assms(1,3)] by simp_all
  have given: "distinct (map dvID ds)" "\<forall>d \<in> set ds. 0 \<le> dvAttempts d"
    using queue.pending_outstanding [OF assms(1,3)] by simp_all
  obtain r f' w' where a: "deliver_all ?env dst timeout ds f w1 = Some (r, f', w')" "filter_ok f'"
    using deliver_all_total [OF assms(2) given(2), of ?env dst timeout w1] by blast
  note q = queue.deliver_all_queue [OF w1(1) given(2) a(1)]
  show ?thesis
    by (rule that [OF a(1) _ a(2) _ given(1) w1(2)])
      (use a assms(3) q w1 in \<open>auto simp: drain_def split: option.splits\<close>)
qed

section \<open>The loop\<close>

lemma drain_loop_returns:
  assumes "world_ok w" "clock_ok T" "filter_ok f"
  shows "\<exists>r f' w'. drain_loop (world_env c (standing fs T) grp mid) dst timeout f w = Some (r, f', w') \<and>
    filter_ok f' \<and> world_ok w' \<and> (r = None \<longrightarrow> (\<forall>x. is_head (wdDb w') x \<longrightarrow> \<not> due T x))"
proof -
  obtain r f' w' where l: "drain_loop (world_env c (standing fs T) grp mid) dst timeout f w = Some (r, f', w')"
      "filter_ok f'" "world_ok w'"
      "r = None \<longrightarrow> (\<exists>w1. wPending (world_env c (standing fs T) grp mid) 50 w1 = (Inr [], w'))"
    using clock.drain_loop_ends [of w T f] assms by blast
  have "is_head (wdDb w') x \<longrightarrow> \<not> due T x" if "r = None" for x
  proof -
    from l(4) that obtain w1 where "wPending (world_env c (standing fs T) grp mid) 50 w1 = (Inr [], w')" by blast
    then have "pending_rows T 50 (wdDb w') = []"
      by (auto simp: world_env_def on_db_eq PendingDeliveries_Inr)
    then have "\<not> (is_head (wdDb w') x \<and> due T x)" by (rule pending_rows_empty) simp
    then show ?thesis by blast
  qed
  then have "r = None \<longrightarrow> (\<forall>x. is_head (wdDb w') x \<longrightarrow> \<not> due T x)" by simp
  with l(1-3) show ?thesis by blast
qed

section \<open>A client that works\<close>

definition sample_client :: "unit gotopo" where
  "sample_client = \<lparr>gtMapID = \<lambda>c. ''ABC'', gtOpenMap = \<lambda>m c. (None, c), gtGetFeatures = \<lambda>cls c. (Inr [], c),
     gtAddLiveTrack = \<lambda>title dev c. (Inr \<lparr>ftID = dev, ftDeviceId = ''FLEET:'' @ dev\<rparr>, c),
     gtUpdateLiveTrack = \<lambda>track la lo al c. (None, c), gtErrNotFound = NewError ''not found''\<rparr>"

definition broken_client :: "unit gotopo" where
  "broken_client = sample_client\<lparr>gtUpdateLiveTrack := \<lambda>track la lo al c. (Some (NewError ''timeout''), c)\<rparr>"

definition sample_world :: "unit world" where
  "sample_world = \<lparr>wdDb = sample_queue 0 second, wdClient = (), wdTick = 0, wdWake = False\<rparr>"

definition sample_filter :: position_filter where
  "sample_filter = newPositionFilter (Fin 25) (300 * second)"

lemma sample_world_ok: "world_ok sample_world"
  using sample_queue_wf [of 0 second]
  by (simp add: world_ok_def sample_world_def) (simp add: sample_queue_def delivery_row_of_def)

lemma sample_filter_ok: "filter_ok sample_filter"
  unfolding sample_filter_def by (rule filter_ok_new)

lemma sample_pending:
  "\<exists>ds w1. wPending (world_env c (standing (\<lambda>_. no_faults) (2 * second)) grp mid) 50 sample_world = (Inr ds, w1)"
proof -
  obtain ds where "PendingDeliveries no_faults (2 * second) 50 (sample_queue 0 second) = Inr ds"
    using PendingDeliveries_ok [OF sample_queue_times [of 0 second]] by (auto simp: second_def)
  then show ?thesis
    by (simp add: world_env_def on_db_def io_at_def now_at_def standing_def sample_world_def)
qed

text \<open>Its first drain is given a delivery.\<close>

lemma sample_given:
  "\<exists>d ds. wPending (world_env c (standing (\<lambda>_. no_faults) (2 * second)) grp mid) 50 sample_world =
     (Inr (d # ds), tick sample_world)"
proof -
  obtain ds where ds: "PendingDeliveries no_faults (2 * second) 50 (sample_queue 0 second) = Inr ds"
    using PendingDeliveries_ok [OF sample_queue_times [of 0 second]] by (auto simp: second_def)
  have "is_head (sample_queue 0 second) (sample_x 0)"
    by (rule sample_head) (simp_all add: second_def four_digit_yearI)
  moreover have "formatTime 0 < formatTime (2 * second)"
    unfolding formatTime_def by (rule rfc3339_less_seconds) (simp_all add: second_def four_digit_yearI)
  then have "due (2 * second) (sample_x 0)" by (simp add: due_def delivery_row_of_def)
  ultimately have "pending_rows (2 * second) 50 (sample_queue 0 second) \<noteq> []"
    using pending_rows_empty [of "2 * second" 50 "sample_queue 0 second" "sample_x 0"] by auto
  then obtain d ds' where "ds = d # ds'" using ds by (cases ds) (auto simp: PendingDeliveries_Inr)
  with ds show ?thesis
    by (auto simp: world_env_def on_db_def io_at_def now_at_def standing_def sample_world_def)
qed

section \<open>Properties\<close>

text \<open>
  The worker loses nothing and does not panic: a drain always returns, keeps its invariants, and
  a delivery leaves the queue only if the filter judged it superfluous or the publisher accepted its
  position in this drain. Without an error it handled every delivery it was given, and exactly those
  settled ones have left the queue.
\<close>
theorem drain_settles:
  assumes "world_ok w" "filter_ok f" "wPending (world_env c sched grp mid) 50 w = (Inr ds, w1)"
  shows "let env = world_env c sched grp mid; outs = outcomes env dst timeout ds f w1 in
    \<exists>n r f' w'. drain env dst timeout f w = Some ((n, r), f', w') \<and> filter_ok f' \<and> world_ok w' \<and>
      outstanding w' \<subseteq> outstanding w \<and> outstanding w - outstanding w' \<subseteq> settled_ids outs \<and>
      (r = None \<longrightarrow> n = int (length ds) \<and> map fst outs = ds \<and> outstanding w' = outstanding w - settled_ids outs)"
  unfolding Let_def
proof (rule drain_world [OF assms, of dst timeout])
  let ?env = "world_env c sched grp mid"
  fix r f' w'
  assume a: "deliver_all ?env dst timeout ds f w1 = Some (r, f', w')"
    and d: "drain ?env dst timeout f w = Some ((case r of None \<Rightarrow> int (length ds) | Some e \<Rightarrow> 0, r), f', w')"
    and ok: "filter_ok f'" "world_ok w'"
    and sub: "outstanding w' \<subseteq> outstanding w"
      "outstanding w - outstanding w' \<subseteq> settled_ids (outcomes ?env dst timeout ds f w1)"
      "r = None \<Longrightarrow> settled_ids (outcomes ?env dst timeout ds f w1) \<inter> outstanding w' = {}"
  have "r = None \<longrightarrow> map fst (outcomes ?env dst timeout ds f w1) = ds \<and>
      outstanding w' = outstanding w - settled_ids (outcomes ?env dst timeout ds f w1)"
    using outcomes_all a sub by auto
  with d ok sub show "\<exists>n r f' w'. drain ?env dst timeout f w = Some ((n, r), f', w') \<and> filter_ok f' \<and> world_ok w' \<and>
      outstanding w' \<subseteq> outstanding w \<and> outstanding w - outstanding w' \<subseteq> settled_ids (outcomes ?env dst timeout ds f w1) \<and>
      (r = None \<longrightarrow> n = int (length ds) \<and> map fst (outcomes ?env dst timeout ds f w1) = ds \<and>
        outstanding w' = outstanding w - settled_ids (outcomes ?env dst timeout ds f w1))"
    by (intro exI [of _ "case r of None \<Rightarrow> int (length ds) | Some e \<Rightarrow> 0"] exI [of _ r] exI [of _ f'] exI [of _ w']) auto
qed

theorem drain_settles_witness:
  "\<exists>n r f' w'. drain (world_env sample_client (standing (\<lambda>_. no_faults) (2 * second)) ''mesh'' ''ABC'')
     (\<lambda>_ _. 0) 0 sample_filter sample_world = Some ((n, r), f', w')"
proof -
  obtain ds w1 where "wPending (world_env sample_client (standing (\<lambda>_. no_faults) (2 * second)) ''mesh'' ''ABC'') 50
      sample_world = (Inr ds, w1)"
    using sample_pending by blast
  from drain_settles [OF sample_world_ok sample_filter_ok this, of "\<lambda>_ _. 0" 0] show ?thesis
    by (auto simp: Let_def)
qed

text \<open>
  C29: A retry repeats the decision: when the publisher rejected a position, its delivery is still in
  the queue after the drain, and the next time the filter sees that delivery it offers the very same
  position for publication and changes nothing.
\<close>
theorem rejected_is_retried:
  assumes "world_ok w" "filter_ok f" "wPending (world_env c sched grp mid) 50 w = (Inr ds, w1)"
    and "drain (world_env c sched grp mid) dst timeout f w = Some ((n, r), f', w')"
    and "(d, Rejected p e) \<in> set (outcomes (world_env c sched grp mid) dst timeout ds f w1)" "dvID d' = dvID d"
  shows "dvID d \<in> outstanding w' \<and> prepare dst' f' d' = ((p, True), f')"
proof (rule drain_world [OF assms(1-3), of dst timeout])
  let ?env = "world_env c sched grp mid"
  fix r2 f2 w2
  assume a: "deliver_all ?env dst timeout ds f w1 = Some (r2, f2, w2)"
    and d: "drain ?env dst timeout f w = Some ((case r2 of None \<Rightarrow> int (length ds) | Some e \<Rightarrow> 0, r2), f2, w2)"
    and di: "distinct (map dvID ds)"
    and sub: "outstanding w - outstanding w2 \<subseteq> settled_ids (outcomes ?env dst timeout ds f w1)"
  from assms(4) d have eq: "r2 = r" "f2 = f'" "w2 = w'" by auto
  obtain rest where rest: "ds = map fst (outcomes ?env dst timeout ds f w1) @ rest"
    using outcomes_prefix [of ds ?env dst timeout f w1] by blast
  have "d \<in> set ds" using assms(5) by (subst rest) force
  then have "dvID d \<in> outstanding w" using queue.pending_outstanding [OF assms(1,3)] by blast
  moreover have "distinct (map dvID (map fst (outcomes ?env dst timeout ds f w1)))"
    using di by (subst (asm) rest) simp
  then have "dvID d \<notin> settled_ids (outcomes ?env dst timeout ds f w1)"
    by (rule settled_ids_distinct [OF _ assms(5)]) simp
  ultimately have "dvID d \<in> outstanding w'" using sub eq by blast
  moreover have "pfPrepared f' (dvID d) = Some (p, True)"
    using deliver_all_rejected [OF a di assms(5)] eq by simp
  ultimately show ?thesis using assms(6) by (simp add: prepare_known)
qed

text \<open>The update of the track times out: the position is offered again.\<close>
theorem rejected_is_retried_witness:
  "\<exists>d p n r f' w'. drain (world_env broken_client (standing (\<lambda>_. no_faults) (2 * second)) ''mesh'' ''ABC'')
     (\<lambda>_ _. 0) 0 sample_filter sample_world = Some ((n, r), f', w') \<and>
     dvID d \<in> outstanding w' \<and> prepare (\<lambda>_ _. 0) f' d = ((p, True), f')"
proof -
  let ?env = "world_env broken_client (standing (\<lambda>_. no_faults) (2 * second)) ''mesh'' ''ABC''"
  define w1 where "w1 = tick sample_world"
  obtain d ds' where p0: "wPending ?env 50 sample_world = (Inr (d # ds'), w1)"
    using sample_given unfolding w1_def by blast
  define ds where "ds = d # ds'"
  have p: "wPending ?env 50 sample_world = (Inr ds, w1)" using p0 by (simp add: ds_def)
  have d: "ds = d # ds'" by (simp add: ds_def)
  have "fst (wPublish ?env t q w1) = Some (NewError ''timeout'')" for t q
    by (simp add: w1_def tick_def sample_world_def sample_queue_def world_defs broken_client_def sample_client_def
        Publish_def ensureOpen_def createAndSaveTrack_def reconcileOrCreate_def on_db_def on_client_def TrackID_def
        SaveTrack_def upsert_track_def update_track_def is_not_found_def io_at_def standing_def Let_def)
  then have o: "outcome_of ?env (\<lambda>_ _. 0) 0 d sample_filter w1 = Rejected (candidate sample_filter d) (NewError ''timeout'')"
    by (simp add: outcome_of_def prepare_def Let_def decide_def node_state_def sample_filter_def newPositionFilter_def)
  obtain n r f' w' where dr: "drain ?env (\<lambda>_ _. 0) 0 sample_filter sample_world = Some ((n, r), f', w')"
    using drain_world [OF sample_world_ok sample_filter_ok p, of "\<lambda>_ _. 0" 0] by metis
  have "(d, Rejected (candidate sample_filter d) (NewError ''timeout'')) \<in>
      set (outcomes ?env (\<lambda>_ _. 0) 0 ds sample_filter w1)"
    by (simp add: d o)
  from rejected_is_retried [OF sample_world_ok sample_filter_ok p dr this refl] dr show ?thesis by blast
qed

text \<open>
  The worker's loop ends: as long as the clock has not moved on, whatever the CalTopo client
  answers and whichever driver calls fail, \<open>Run\<close>'s inner loop returns; and when it returns without an
  error no head of a node's queue is due any more.
\<close>
theorem worker_loop_ends:
  assumes "world_ok w" "clock_ok T" "filter_ok f"
  shows "\<exists>r f' w'. drain_loop (world_env c (standing fs T) grp mid) dst timeout f w = Some (r, f', w') \<and>
    filter_ok f' \<and> world_ok w' \<and> (r = None \<longrightarrow> (\<forall>x. is_head (wdDb w') x \<longrightarrow> \<not> due T x))"
  by (rule drain_loop_returns [OF assms])

theorem worker_loop_ends_witness:
  "\<exists>r f' w'. drain_loop (world_env broken_client (standing (\<lambda>_. no_faults) (2 * second)) ''mesh'' ''ABC'')
     (\<lambda>_ _. 0) 0 sample_filter sample_world = Some (r, f', w')"
proof -
  have "clock_ok (2 * second)" by (simp add: clock_ok_def second_def)
  from worker_loop_ends [OF sample_world_ok this sample_filter_ok, of broken_client "\<lambda>_. no_faults" "''mesh''" "''ABC''"
      "\<lambda>_ _. 0" 0]
  show ?thesis by blast
qed

text \<open>
  The delay before the n-th retry doubles from two seconds and stays at 256 seconds from the eighth
  attempt on; the five minutes it is also capped at are never reached.
\<close>
theorem retry_delay_schedule:
  assumes "1 \<le> n"
  shows "\<exists>delay. retry_delay n = Some delay \<and> delay = second * 2 ^ nat (min n 8) \<and>
    2 * second \<le> delay \<and> delay \<le> 256 * second \<and> delay < 5 * 60 * second"
  using retry_delay_Some [of n] retry_delay_bounds [OF assms] assms by (simp add: second_def)

theorem retry_delay_schedule_witness: "\<exists>delay. retry_delay 8 = Some delay \<and> delay = second * 256"
  using retry_delay_schedule [of 8] by auto

text \<open>
  C32: A publication that reports success ended with an update of a live track by exactly the position's
  coordinates and altitude, accepted by CalTopo, and the store maps the node to that track from then
  on, also when the track had to be found or created; no other node's mapping changed.
\<close>
theorem publish_updates_mapped_track:
  assumes "Publish (world_adapter c sched grp mid) p w = (None, w')"
  shows "\<exists>track c1. gtUpdateLiveTrack c track (poLatitude p) (poLongitude p) (poAltitude p) c1 = (None, wdClient w') \<and>
    track_of (wdDb w') (SourceID p) = Some track \<and>
    (\<forall>k. k \<noteq> SourceID p \<longrightarrow> track_of (wdDb w') k = track_of (wdDb w) k)"
proof -
  obtain track w1 where "update_track (world_adapter c sched grp mid) track p w1 = (None, w')"
    and "track_of (wdDb w') (SourceID p) = Some track"
      "\<forall>k. k \<noteq> SourceID p \<longrightarrow> track_of (wdDb w') k = track_of (wdDb w) k"
    using mapping.Publish_lookup [OF assms] by blast
  then show ?thesis by (auto simp: update_track_def world_adapter_def lift_client_def on_client_eq)
qed

theorem publish_updates_mapped_track_witness:
  "\<exists>w'. Publish (world_adapter sample_client (standing (\<lambda>_. no_faults) 0) ''mesh'' ''ABC'') (sample_fix 42 0) sample_world
     = (None, w') \<and> (\<exists>track. track_of (wdDb w') (NodeID 42) = Some track)"
proof -
  have "fst (Publish (world_adapter sample_client (standing (\<lambda>_. no_faults) 0) ''mesh'' ''ABC'') (sample_fix 42 0) sample_world) = None"
    by (simp add: tick_def sample_world_def sample_queue_def world_defs sample_client_def
        Publish_def ensureOpen_def createAndSaveTrack_def reconcileOrCreate_def on_db_def on_client_def TrackID_def
        SaveTrack_def upsert_track_def update_track_def is_not_found_def io_at_def standing_def Let_def)
  then obtain w' where w': "Publish (world_adapter sample_client (standing (\<lambda>_. no_faults) 0) ''mesh'' ''ABC'')
      (sample_fix 42 0) sample_world = (None, w')"
    by (metis prod.collapse)
  from publish_updates_mapped_track [OF w'] w' show ?thesis by (auto simp: SourceID_def sample_fix_def)
qed

end
