(* ===== verification/Process.thy ===== *)
theory Process
  imports Config Migration Web SerialLive Intake Delivery
begin

text \<open>
  The process of \<^verbatim>\<open>cmd/bridge/main.go\<close>: \<open>run\<close> up to the start of the goroutines, with the
  constructors of the components it wires (\<open>store.Open\<close>, \<open>caltopo.New\<close>, \<open>caltopo.NewWorker\<close>), and the
  shutdown, as the steps of the main goroutine and of the three it started. The operating system and
  the libraries are the record \<open>os\<close>.
\<close>

section \<open>The outside\<close>

record client_options =
  opEndpoint :: string
  opTimeout :: duration
  opID :: string
  opKey :: string
  opAccountID :: string

record 'c os =
  osArgs :: "string list"
  osVars :: environ
  osParsers :: number_parsers
  osBuild :: "string \<times> string \<times> string \<times> string"
  osDevices :: "string list result"
  osStat :: "string \<Rightarrow> go_error option"
  osAbs :: "string \<Rightarrow> string result"
  osSqlOpen :: "string \<Rightarrow> go_error option"
  osInit :: init_faults
  osNewClient :: "client_options \<Rightarrow> 'c gotopo result"

datatype resource = Database string | Client

datatype event = Opened resource | Closed resource | Printed string

text \<open>Resources are released in the reverse order; None when one is released that is not the last one open.\<close>

fun still_open :: "resource list \<Rightarrow> event list \<Rightarrow> resource list option" where
  "still_open st [] = Some st"
| "still_open st (Opened r # evs) = still_open (r # st) evs"
| "still_open st (Closed r # evs) = (if st \<noteq> [] \<and> hd st = r then still_open (tl st) evs else None)"
| "still_open st (Printed s # evs) = still_open st evs"

lemma still_open_append: "still_open st (xs @ ys) = Option.bind (still_open st xs) (\<lambda>st'. still_open st' ys)"
  by (induction st xs rule: still_open.induct) auto

section \<open>Constructors\<close>

definition resolve_path :: "'c os \<Rightarrow> string \<Rightarrow> string result" where
  "resolve_path os path =
     (if path \<noteq> '':memory:''
      then (case osAbs os path of Inl e \<Rightarrow> Inl (WrapError ''resolve database path'' e) | Inr absolute \<Rightarrow> Inr absolute)
      else Inr path)"

definition store_Open :: "'c os \<Rightarrow> string \<Rightarrow> catalog \<Rightarrow> string result \<times> catalog \<times> event list" where
  "store_Open os path c =
     (case resolve_path os path of
        Inl e \<Rightarrow> (Inl e, c, [])
      | Inr path' \<Rightarrow>
      (case osSqlOpen os path' of
        Some e \<Rightarrow> (Inl (WrapError ''open SQLite database'' e), c, [])
      | None \<Rightarrow>
      (case initialize (osInit os) c of
        (Some e, c1) \<Rightarrow> (Inl e, c1, [Opened (Database path'), Closed (Database path')])
      | (None, c1) \<Rightarrow> (Inr path', c1, [Opened (Database path')]))))"

definition client_options_of :: "cal_topo \<Rightarrow> client_options" where
  "client_options_of cfg =
     \<lparr>opEndpoint = ccEndpoint cfg, opTimeout = ccTimeout cfg, opID = ccCredentialID cfg, opKey = ccKey cfg,
      opAccountID = ccAccountID cfg\<rparr>"

definition New :: "'c os \<Rightarrow> cal_topo \<Rightarrow> 'c world track_store \<Rightarrow> 'c world adapter result" where
  "New os cfg trackStore =
     (case osNewClient os (client_options_of cfg) of
        Inl e \<Rightarrow> Inl (WrapError ''create CalTopo client'' e)
      | Inr client \<Rightarrow> Inr \<lparr>adClient = lift_client client, adStore = trackStore, adGroup = ccGroup cfg, adMapID = ccMapID cfg\<rparr>)"

record 's worker =
  wkPublisher :: "'s adapter"
  wkTimeout :: duration
  wkWake :: bool
  wkFilter :: position_filter

record filter_config =
  fcMovementMeters :: f64
  fcHeartbeat :: duration

text \<open>The channel is made with capacity one, and empty.\<close>

definition NewWorker :: "'s adapter \<Rightarrow> duration \<Rightarrow> filter_config \<Rightarrow> 's worker" where
  "NewWorker publisher timeout fc =
     \<lparr>wkPublisher = publisher, wkTimeout = timeout, wkWake = False,
      wkFilter = newPositionFilter (fcMovementMeters fc) (fcHeartbeat fc)\<rparr>"

section \<open>Start\<close>

definition printDevices :: "'c os \<Rightarrow> go_error option \<times> event list" where
  "printDevices os =
     (case osDevices os of
        Inl e \<Rightarrow> (Some (WrapError ''list serial devices'' e), [])
      | Inr devices \<Rightarrow>
          if devices = [] then (Some (NewError ''no serial devices found''), [])
          else (None, map Printed (sort devices)))"

definition version_line :: "'c os \<Rightarrow> string" where
  "version_line os =
     (let (version, commit, goos, goarch) = osBuild os in
      ''meshtastic-caltopo-bridge '' @ version @ '' ('' @ commit @ '') '' @ goos @ ''/'' @ goarch)"

record 'c wiring =
  wrConfig :: config
  wrDatabase :: string
  wrWorker :: "'c world worker option"
  wrService :: "'c world service"
  wrServer :: http_server

datatype 'c start = Exit "go_error option" | Running "'c wiring"

text \<open>The service is given the wake callback only when there is a worker.\<close>

definition wire_up :: "(string \<Rightarrow> byte list) \<Rightarrow> schedule \<Rightarrow> config \<Rightarrow> string \<Rightarrow> 'c world worker option \<Rightarrow> 'c wiring" where
  "wire_up sum256 sched cfg database worker =
     \<lparr>wrConfig = cfg, wrDatabase = database, wrWorker = worker,
      wrService =
        \<lparr>svArchive = \<lambda>p pos enqueue w. on_db (Archive sum256 (io_at sched w) (now_at sched w) p pos enqueue) w,
         svNodes = Some (store_nodes sched), svEnqueueCalTopo = ccEnabled (cfCalTopo cfg),
         svDecodePositionApp = cfDecodePositionApp cfg,
         svWakeDeliveries = (if worker \<noteq> None then Some Wake else None), svNow = now_at sched\<rparr>,
      wrServer = NewServer (cfHTTPListenAddress cfg)\<rparr>"

definition start_worker :: "'c os \<Rightarrow> schedule \<Rightarrow> config \<Rightarrow> 'c world worker option result" where
  "start_worker os sched cfg =
     (if ccEnabled (cfCalTopo cfg)
      then (case New os (cfCalTopo cfg) (store_tracks sched) of
          Inl e \<Rightarrow> Inl e
        | Inr adapter \<Rightarrow> Inr (Some (NewWorker adapter (ccTimeout (cfCalTopo cfg))
            \<lparr>fcMovementMeters = ccMovement (cfCalTopo cfg), fcHeartbeat = ccHeartbeat (cfCalTopo cfg)\<rparr>)))
      else Inr None)"

definition start :: "'c os \<Rightarrow> (string \<Rightarrow> byte list) \<Rightarrow> schedule \<Rightarrow> catalog \<Rightarrow> 'c start \<times> catalog \<times> event list" where
  "start os sum256 sched c =
     (case Parse (osParsers os) (osVars os) (osArgs os) of
        (cfg, Some e) \<Rightarrow> (Exit (Some e), c, [])
      | (cfg, None) \<Rightarrow>
          if cfVersion cfg then (Exit None, c, [Printed (version_line os)])
          else if cfListDevices cfg then (case printDevices os of (r, evs) \<Rightarrow> (Exit r, c, evs))
          else
      (case osStat os (cfSerialDevice cfg) of
        Some e \<Rightarrow> (Exit (Some (WrapError (''access serial device '' @ cfSerialDevice cfg) e)), c, [])
      | None \<Rightarrow>
      (case store_Open os (cfDatabasePath cfg) c of
        (Inl e, c1, evs) \<Rightarrow> (Exit (Some e), c1, evs)
      | (Inr database, c1, evs) \<Rightarrow>
      (case start_worker os sched cfg of
        Inl e \<Rightarrow> (Exit (Some e), c1, evs @ [Closed (Database database)])
      | Inr worker \<Rightarrow>
          (Running (wire_up sum256 sched cfg database worker), c1,
           evs @ (if worker \<noteq> None then [Opened Client] else []))))))"

section \<open>The goroutines\<close>

text \<open>
  \<open>rtErrors\<close> is the channel \<open>runtimeErrors\<close> of capacity two, \<open>rtDone\<close> says that the context is done and
  \<open>rtShutdown\<close> that \<open>Shutdown\<close> was called. History variables: whether a signal came, the error of
  \<open>ListenAndServe\<close> and the result of \<open>Shutdown\<close>.
\<close>

datatype sender = Serving | Sending "go_error option" | Ended

datatype goroutine = Absent | Live | Gone

datatype main_pc =
    Receiving
  | Stopping "go_error option"
  | ShuttingDown "go_error option"
  | Joining "go_error option" "go_error option"
  | Returned "go_error option"

record runtime =
  rtMain :: main_pc
  rtWorker :: goroutine
  rtSource :: sender
  rtServer :: sender
  rtErrors :: "go_error option list"
  rtDone :: bool
  rtShutdown :: bool
  rtEvents :: "event list"
  rtSignalled :: bool
  rtListenErr :: "go_error option"
  rtShutdownErr :: "go_error option"

definition launched :: "'c wiring \<Rightarrow> runtime" where
  "launched wr =
     \<lparr>rtMain = Receiving, rtWorker = (if wrWorker wr \<noteq> None then Live else Absent), rtSource = Serving,
      rtServer = Serving, rtErrors = [], rtDone = False, rtShutdown = False, rtEvents = [], rtSignalled = False,
      rtListenErr = None, rtShutdownErr = None\<rparr>"

definition ErrServerClosed :: go_error where
  "ErrServerClosed = NewError ''http: Server closed''"

definition server_error :: "go_error \<Rightarrow> go_error option" where
  "server_error e = (if errors_is e ErrServerClosed then None else Some e)"

definition deferred :: "'c wiring \<Rightarrow> event list" where
  "deferred wr = (if wrWorker wr \<noteq> None then [Closed Client] else []) @ [Closed (Database (wrDatabase wr))]"

text \<open>
  The worker returns when the context is done; so does the source, and its \<open>Run\<close> then returns nil, as
  \<open>SerialLive\<close> shows. \<open>ListenAndServe\<close> always returns an error, \<open>ErrServerClosed\<close> only after
  \<open>Shutdown\<close> was called.
\<close>

inductive runtime_step :: "'c wiring \<Rightarrow> runtime \<Rightarrow> runtime \<Rightarrow> bool" for wr where
  receive: "rtMain s = Receiving \<Longrightarrow> rtErrors s = e # es \<Longrightarrow>
    runtime_step wr s (s\<lparr>rtMain := Stopping e, rtErrors := es\<rparr>)"
| stop: "rtMain s = Stopping e \<Longrightarrow> runtime_step wr s (s\<lparr>rtMain := ShuttingDown e, rtDone := True\<rparr>)"
| shutdown: "rtMain s = ShuttingDown e \<Longrightarrow> \<not> rtShutdown s \<Longrightarrow> runtime_step wr s (s\<lparr>rtShutdown := True\<rparr>)"
| shut: "rtMain s = ShuttingDown e \<Longrightarrow> rtShutdown s \<Longrightarrow>
    runtime_step wr s (s\<lparr>rtMain := Joining e r, rtShutdownErr := r\<rparr>)"
| wait: "rtMain s = Joining e r \<Longrightarrow> rtWorker s \<noteq> Live \<Longrightarrow> rtSource s = Ended \<Longrightarrow> rtServer s = Ended \<Longrightarrow>
    runtime_step wr s (s\<lparr>rtMain := Returned (errors_join [e, r]), rtEvents := rtEvents s @ deferred wr\<rparr>)"
| signal: "\<not> rtDone s \<Longrightarrow> runtime_step wr s (s\<lparr>rtDone := True, rtSignalled := True\<rparr>)"
| worker: "rtWorker s = Live \<Longrightarrow> rtDone s \<Longrightarrow> runtime_step wr s (s\<lparr>rtWorker := Gone\<rparr>)"
| source: "rtSource s = Serving \<Longrightarrow> rtDone s \<Longrightarrow> runtime_step wr s (s\<lparr>rtSource := Sending None\<rparr>)"
| source_send: "rtSource s = Sending e \<Longrightarrow> length (rtErrors s) < 2 \<Longrightarrow>
    runtime_step wr s (s\<lparr>rtSource := Ended, rtErrors := rtErrors s @ [e]\<rparr>)"
| server: "rtServer s = Serving \<Longrightarrow> rtShutdown s \<or> \<not> errors_is e ErrServerClosed \<Longrightarrow>
    runtime_step wr s (s\<lparr>rtServer := Sending (server_error e), rtListenErr := server_error e\<rparr>)"
| server_send: "rtServer s = Sending e \<Longrightarrow> length (rtErrors s) < 2 \<Longrightarrow>
    runtime_step wr s (s\<lparr>rtServer := Ended, rtErrors := rtErrors s @ [e]\<rparr>)"

text \<open>\<open>main\<close> turns an error into the exit status 1.\<close>

definition exit_code :: "go_error option \<Rightarrow> int" where
  "exit_code r = (if r \<noteq> None then 1 else 0)"

section \<open>The start\<close>

lemma store_Open_events:
  assumes "store_Open os path c = (r, c', evs)"
  shows "still_open st evs = Some (case r of Inl e \<Rightarrow> st | Inr p \<Rightarrow> Database p # st)"
  using assms by (auto simp: store_Open_def split: sum.splits option.splits prod.splits)

lemma printed_open: "still_open st (map Printed xs) = Some st"
  by (induction xs) simp_all

lemma start_worker_Inr:
  "start_worker os sched cfg = Inr worker \<Longrightarrow> worker \<noteq> None \<longleftrightarrow> ccEnabled (cfCalTopo cfg)"
  by (auto simp: start_worker_def split: if_splits sum.splits)

definition open_resources :: "'c wiring \<Rightarrow> resource list" where
  "open_resources wr = (if wrWorker wr \<noteq> None then [Client] else []) @ [Database (wrDatabase wr)]"

lemma start_cases:
  assumes "start os sum256 sched c = (out, c', evs)"
  obtains (early) r where "out = Exit r" "still_open [] evs = Some []"
  | (running) cfg database worker where "Parse (osParsers os) (osVars os) (osArgs os) = (cfg, None)"
      "\<not> cfVersion cfg" "\<not> cfListDevices cfg" "osStat os (cfSerialDevice cfg) = None"
      "initialize (osInit os) c = (None, c')" "start_worker os sched cfg = Inr worker"
      "out = Running (wire_up sum256 sched cfg database worker)" "still_open [] evs = Some (open_resources (wire_up sum256 sched cfg database worker))"
proof -
  obtain cfg r where p: "Parse (osParsers os) (osVars os) (osArgs os) = (cfg, r)" by fastforce
  obtain d c1 e1 where o: "store_Open os (cfDatabasePath cfg) c = (d, c1, e1)" by (metis surj_pair)
  note ev = store_Open_events [OF o]
  show ?thesis
  proof (cases "r = None \<and> \<not> cfVersion cfg \<and> \<not> cfListDevices cfg \<and> osStat os (cfSerialDevice cfg) = None \<and> \<not> isl d \<and>
      \<not> isl (start_worker os sched cfg)")
    case False
    then have "(\<exists>x. out = Exit x) \<and> still_open [] evs = Some []"
      using assms p o ev
      by (auto simp: start_def printDevices_def printed_open still_open_append isl_def
          split: option.splits if_splits sum.splits prod.splits)
    then show ?thesis using early by blast
  next
    case True
    then obtain database worker where w: "d = Inr database" "start_worker os sched cfg = Inr worker"
      by (metis isl_def sum.exhaust)
    have "initialize (osInit os) c = (None, c1)"
      using o w(1) by (auto simp: store_Open_def split: sum.splits option.splits prod.splits)
    moreover have "out = Running (wire_up sum256 sched cfg database worker)" "c' = c1"
        "evs = e1 @ (if worker \<noteq> None then [Opened Client] else [])"
      using assms p o w True by (simp_all add: start_def)
    moreover have "still_open [] evs = Some (open_resources (wire_up sum256 sched cfg database worker))"
      using ev w(1) calculation(4) by (simp add: still_open_append open_resources_def wire_up_def)
    ultimately show ?thesis using running [of cfg worker database] p w True by simp
  qed
qed

section \<open>The shutdown\<close>

fun main_left :: "main_pc \<Rightarrow> nat" where
  "main_left Receiving = 4"
| "main_left (Stopping e) = 3"
| "main_left (ShuttingDown e) = 2"
| "main_left (Joining e r) = 1"
| "main_left (Returned r) = 0"

fun sender_left :: "sender \<Rightarrow> nat" where
  "sender_left Serving = 2"
| "sender_left (Sending e) = 1"
| "sender_left Ended = 0"

definition steps_left :: "runtime \<Rightarrow> nat" where
  "steps_left s = main_left (rtMain s) + of_bool (\<not> rtDone s) + of_bool (\<not> rtShutdown s) +
     of_bool (rtWorker s = Live) + sender_left (rtSource s) + sender_left (rtServer s)"

lemma runtime_step_decreases: "runtime_step wr s s' \<Longrightarrow> steps_left s' < steps_left s"
  by (induction rule: runtime_step.induct) (simp_all add: steps_left_def)

lemma runtime_step_wf: "wfp (\<lambda>s' s. runtime_step wr s s')"
  by (rule wfp_if_convertible_to_nat [where f = steps_left]) (rule runtime_step_decreases)

fun main_received :: "main_pc \<Rightarrow> bool" where
  "main_received Receiving = False"
| "main_received pc = True"

fun main_ok :: "'c wiring \<Rightarrow> runtime \<Rightarrow> main_pc \<Rightarrow> bool" where
  "main_ok wr s Receiving = True"
| "main_ok wr s (Stopping e) = True"
| "main_ok wr s (ShuttingDown e) = rtDone s"
| "main_ok wr s (Joining e r) = (rtDone s \<and> rtShutdown s)"
| "main_ok wr s (Returned r) = (rtDone s \<and> rtWorker s \<noteq> Live \<and> rtSource s = Ended \<and> rtServer s = Ended)"

text \<open>
  Both values are in the channel, received, or still to be sent; so the channel never blocks a sender.
\<close>

definition runtime_ok :: "'c wiring \<Rightarrow> runtime \<Rightarrow> bool" where
  "runtime_ok wr s \<longleftrightarrow>
     length (rtErrors s) + of_bool (rtSource s \<noteq> Ended) + of_bool (rtServer s \<noteq> Ended) +
       of_bool (main_received (rtMain s)) = 2 \<and>
     main_ok wr s (rtMain s) \<and>
     rtEvents s = (case rtMain s of Returned r \<Rightarrow> deferred wr | _ \<Rightarrow> [])"

lemma launched_ok: "runtime_ok wr (launched wr)"
  by (simp add: runtime_ok_def launched_def)

lemma runtime_step_ok: "runtime_step wr s s' \<Longrightarrow> runtime_ok wr s \<Longrightarrow> runtime_ok wr s'"
proof (induction rule: runtime_step.induct)
  case (worker s)
  then show ?case by (cases "rtMain s") (simp_all add: runtime_ok_def)
next
  case (source s)
  then show ?case by (cases "rtMain s") (simp_all add: runtime_ok_def)
next
  case (source_send s e)
  then show ?case by (cases "rtMain s") (simp_all add: runtime_ok_def)
next
  case (server s e)
  then show ?case by (cases "rtMain s") (simp_all add: runtime_ok_def)
next
  case (server_send s e)
  then show ?case by (cases "rtMain s") (simp_all add: runtime_ok_def)
next
  case (signal s)
  then show ?case by (cases "rtMain s") (simp_all add: runtime_ok_def)
qed (simp_all add: runtime_ok_def)

lemma runtime_reaches_ok: "(runtime_step wr)\<^sup>*\<^sup>* (launched wr) s \<Longrightarrow> runtime_ok wr s"
  by (induction rule: rtranclp_induct) (auto intro: launched_ok runtime_step_ok)

text \<open>Every step but the signal keeps the mark of a signal.\<close>

definition own_step :: "'c wiring \<Rightarrow> runtime \<Rightarrow> bool" where
  "own_step wr s \<longleftrightarrow> (\<exists>s'. runtime_step wr s s' \<and> rtSignalled s' = rtSignalled s)"

lemma own_stepI: "runtime_step wr s s' \<Longrightarrow> rtSignalled s' = rtSignalled s \<Longrightarrow> own_step wr s"
  by (auto simp: own_step_def)

lemma main_steps:
  "rtMain s = Receiving \<Longrightarrow> rtErrors s = x # xs \<Longrightarrow> own_step wr s"
  "rtMain s = Stopping e \<Longrightarrow> own_step wr s"
  "rtMain s = ShuttingDown e \<Longrightarrow> rtShutdown s \<Longrightarrow> own_step wr s"
  "rtMain s = ShuttingDown e \<Longrightarrow> \<not> rtShutdown s \<Longrightarrow> own_step wr s"
  "rtMain s = Joining e r \<Longrightarrow> rtWorker s \<noteq> Live \<Longrightarrow> rtSource s = Ended \<Longrightarrow> rtServer s = Ended \<Longrightarrow> own_step wr s"
  by (rule own_stepI, erule runtime_step.receive runtime_step.stop runtime_step.shut runtime_step.shutdown runtime_step.wait,
      simp_all)+

lemma other_steps:
  "rtWorker s = Live \<Longrightarrow> rtDone s \<Longrightarrow> own_step wr s"
  "rtSource s = Serving \<Longrightarrow> rtDone s \<Longrightarrow> own_step wr s"
  "rtSource s = Sending e \<Longrightarrow> length (rtErrors s) < 2 \<Longrightarrow> own_step wr s"
  "rtServer s = Serving \<Longrightarrow> rtShutdown s \<Longrightarrow> own_step wr s"
  "rtServer s = Sending e \<Longrightarrow> length (rtErrors s) < 2 \<Longrightarrow> own_step wr s"
  by (rule own_stepI, erule runtime_step.worker runtime_step.source runtime_step.source_send runtime_step.server
      runtime_step.server_send, simp_all)+

lemma runtime_progress:
  assumes "runtime_ok wr s" "\<And>r. rtMain s \<noteq> Returned r"
    and "rtDone s \<or> rtMain s \<noteq> Receiving \<or> rtServer s \<noteq> Serving"
  shows "own_step wr s"
proof -
  have room: "length (rtErrors s) < 2" if "rtSource s \<noteq> Ended \<or> rtServer s \<noteq> Ended"
    using assms(1) that by (auto simp: runtime_ok_def)
  show ?thesis
  proof (cases "rtMain s")
    case Receiving
    show ?thesis
    proof (cases "rtErrors s")
      case Nil
      then have alive: "rtSource s \<noteq> Ended" "rtServer s \<noteq> Ended"
        using assms(1) Receiving by (cases "rtServer s = Ended"; cases "rtSource s = Ended"; auto simp: runtime_ok_def)+
      show ?thesis
      proof (cases "rtSource s")
        case Serving
        show ?thesis
        proof (cases "rtDone s")
          case True
          then show ?thesis by (rule other_steps(2) [OF Serving])
        next
          case False
          then obtain e where "rtServer s = Sending e" using assms(3) Receiving alive(2) by (cases "rtServer s") auto
          then show ?thesis using room alive(1) by (intro other_steps(5)) simp_all
        qed
      next
        case (Sending e)
        then show ?thesis using room alive(1) by (intro other_steps(3)) simp_all
      qed (use alive(1) in simp)
    next
      case (Cons x xs)
      then show ?thesis by (rule main_steps(1) [OF Receiving])
    qed
  next
    case (Stopping e)
    then show ?thesis by (rule main_steps(2))
  next
    case (ShuttingDown e)
    then show ?thesis by (cases "rtShutdown s") (rule main_steps(3,4), assumption, assumption)+
  next
    case (Joining e r)
    then have d: "rtDone s" "rtShutdown s" using assms(1) by (simp_all add: runtime_ok_def)
    show ?thesis
    proof (cases "rtSource s")
      case Serving
      then show ?thesis by (rule other_steps(2) [OF _ d(1)])
    next
      case (Sending x)
      then show ?thesis using room by (intro other_steps(3)) simp_all
    next
      case Ended
      show ?thesis
      proof (cases "rtServer s")
        case Serving
        then show ?thesis by (rule other_steps(4) [OF _ d(2)])
      next
        case (Sending x)
        then show ?thesis using room by (intro other_steps(5)) simp_all
      next
        case srv: Ended
        show ?thesis using main_steps(5) [OF Joining _ Ended srv] other_steps(1) [OF _ d(1)] by blast
      qed
    qed
  next
    case (Returned r)
    then show ?thesis using assms(2) by blast
  qed
qed

section \<open>The result\<close>

text \<open>
  A value on its way is the source's nil or what the server returned; without a signal the first one
  received is the server's, which is then an error.
\<close>

fun sent :: "sender \<Rightarrow> go_error option set" where
  "sent (Sending e) = {e}"
| "sent s = {}"

definition under_way :: "runtime \<Rightarrow> go_error option set" where
  "under_way s = sent (rtSource s) \<union> sent (rtServer s) \<union> set (rtErrors s)"

definition first_ok :: "runtime \<Rightarrow> go_error option \<Rightarrow> bool" where
  "first_ok s e \<longleftrightarrow> (e = None \<or> e = rtListenErr s) \<and> (\<not> rtSignalled s \<longrightarrow> e \<noteq> None)"

fun status :: "runtime \<Rightarrow> main_pc \<Rightarrow> bool" where
  "status s Receiving = (\<not> rtShutdown s \<and> (\<not> rtSignalled s \<longrightarrow> \<not> rtDone s \<and> None \<notin> under_way s))"
| "status s (Stopping e) = first_ok s e"
| "status s (ShuttingDown e) = first_ok s e"
| "status s (Joining e r) = (first_ok s e \<and> r = rtShutdownErr s)"
| "status s (Returned r) = (\<exists>e. first_ok s e \<and> r = errors_join [e, rtShutdownErr s])"

definition status_ok :: "runtime \<Rightarrow> bool" where
  "status_ok s \<longleftrightarrow> (\<forall>e \<in> under_way s. e = None \<or> e = rtListenErr s) \<and>
     (rtServer s = Serving \<longrightarrow> rtListenErr s = None) \<and> status s (rtMain s)"

lemma status_launched: "status_ok (launched wr)"
  by (simp add: status_ok_def launched_def under_way_def)

lemma runtime_step_status: "runtime_step wr s s' \<Longrightarrow> status_ok s \<Longrightarrow> status_ok s'"
proof (induction rule: runtime_step.induct)
  case (receive s e es)
  then show ?case by (cases "rtListenErr s") (auto simp: status_ok_def under_way_def first_ok_def)
next
  case (server s e)
  then show ?case
    by (cases "rtMain s") (auto simp: status_ok_def under_way_def first_ok_def server_error_def split: if_splits)
next
  case (source s)
  then show ?case by (cases "rtMain s") (auto simp: status_ok_def under_way_def first_ok_def)
next
  case (signal s)
  then show ?case by (cases "rtMain s") (auto simp: status_ok_def under_way_def first_ok_def)
next
  case (worker s)
  then show ?case by (cases "rtMain s") (auto simp: status_ok_def under_way_def first_ok_def)
next
  case (source_send s e)
  then show ?case by (cases "rtMain s") (auto simp: status_ok_def under_way_def first_ok_def)
next
  case (server_send s e)
  then show ?case by (cases "rtMain s") (auto simp: status_ok_def under_way_def first_ok_def)
qed (auto simp: status_ok_def under_way_def first_ok_def)

lemma runtime_reaches_status: "(runtime_step wr)\<^sup>*\<^sup>* (launched wr) s \<Longrightarrow> status_ok s"
  by (induction rule: rtranclp_induct) (auto intro: status_launched runtime_step_status)

section \<open>An example\<close>

definition sample_os :: "unit os" where
  "sample_os =
     \<lparr>osArgs = sample_args, osVars = sample_environ, osParsers = sample_parsers,
      osBuild = (''dev'', ''unknown'', ''linux'', ''amd64''), osDevices = Inr [], osStat = \<lambda>p. None,
      osAbs = \<lambda>p. Inr (''/srv/'' @ p), osSqlOpen = \<lambda>p. None, osInit = ok_calls,
      osNewClient = \<lambda>opts. Inr sample_client\<rparr>"

definition blank_catalog :: catalog where
  "blank_catalog = \<lparr>ctTables = [], ctVersions = [], ctRows = []\<rparr>"

lemma sample_started:
  "\<exists>wr c' evs. start sample_os sample_hash sched blank_catalog = (Running wr, c', evs) \<and> wrWorker wr \<noteq> None"
proof -
  have p: "Parse sample_parsers sample_environ sample_args = (sample_config, None)"
    using sample_parse by (simp add: sample_config_def prod_eq_iff)
  show ?thesis
    using sample_parse
    by (simp add: start_def sample_os_def p store_Open_def resolve_path_def initialize_ok start_worker_def New_def wire_up_def)
qed

definition sample_wiring :: "unit wiring" where
  "sample_wiring = wire_up sample_hash (\<lambda>_. (no_faults, 0)) sample_config ''bridge.db'' None"

abbreviation signalled_run :: "main_pc \<Rightarrow> sender \<Rightarrow> sender \<Rightarrow> go_error option list \<Rightarrow> bool \<Rightarrow> event list \<Rightarrow> runtime" where
  "signalled_run pc src srv errs shut evs \<equiv>
     \<lparr>rtMain = pc, rtWorker = Absent, rtSource = src, rtServer = srv, rtErrors = errs, rtDone = True, rtShutdown = shut,
      rtEvents = evs, rtSignalled = True, rtListenErr = None, rtShutdownErr = None\<rparr>"

text \<open>A signal, and every goroutine returns.\<close>

lemma sample_signalled:
  "(runtime_step sample_wiring)\<^sup>*\<^sup>* (launched sample_wiring)
     (signalled_run (Returned (errors_join [None, None])) Ended Ended [None] True (deferred sample_wiring))"
proof -
  let ?step = "runtime_step sample_wiring" and ?l = "launched sample_wiring"
  note defs = launched_def sample_wiring_def wire_up_def server_error_def
  have "?step ?l (signalled_run Receiving Serving Serving [] False [])"
    using runtime_step.signal [of ?l sample_wiring] by (simp add: defs)
  then have "?step\<^sup>*\<^sup>* ?l (signalled_run Receiving Serving Serving [] False [])" by blast
  also have "?step \<dots> (signalled_run Receiving (Sending None) Serving [] False [])"
    using runtime_step.source [of "signalled_run Receiving Serving Serving [] False []" sample_wiring] by simp
  also have "?step \<dots> (signalled_run Receiving Ended Serving [None] False [])"
    using runtime_step.source_send [of "signalled_run Receiving (Sending None) Serving [] False []" None sample_wiring] by simp
  also have "?step \<dots> (signalled_run (Stopping None) Ended Serving [] False [])"
    using runtime_step.receive [of "signalled_run Receiving Ended Serving [None] False []" None "[]" sample_wiring] by simp
  also have "?step \<dots> (signalled_run (ShuttingDown None) Ended Serving [] False [])"
    using runtime_step.stop [of "signalled_run (Stopping None) Ended Serving [] False []" None sample_wiring] by simp
  also have "?step \<dots> (signalled_run (ShuttingDown None) Ended Serving [] True [])"
    using runtime_step.shutdown [of "signalled_run (ShuttingDown None) Ended Serving [] False []" None sample_wiring] by simp
  also have "?step \<dots> (signalled_run (Joining None None) Ended Serving [] True [])"
    using runtime_step.shut [of "signalled_run (ShuttingDown None) Ended Serving [] True []" None sample_wiring None] by simp
  also have "?step \<dots> (signalled_run (Joining None None) Ended (Sending None) [] True [])"
    using runtime_step.server [of "signalled_run (Joining None None) Ended Serving [] True []" ErrServerClosed sample_wiring]
    by (simp add: server_error_def ErrServerClosed_def)
  also have "?step \<dots> (signalled_run (Joining None None) Ended Ended [None] True [])"
    using runtime_step.server_send [of "signalled_run (Joining None None) Ended (Sending None) [] True []" None sample_wiring] by simp
  also have "?step \<dots> (signalled_run (Returned (errors_join [None, None])) Ended Ended [None] True (deferred sample_wiring))"
    using runtime_step.wait [of "signalled_run (Joining None None) Ended Ended [None] True []" None None sample_wiring] by simp
  finally show ?thesis .
qed

section \<open>Properties\<close>

text \<open>
  C18: Nothing is left behind and nothing is closed too early: when \<open>run\<close> gives up during the start, whatever
  it had opened is closed again. Once the goroutines were started, nothing is closed in any reachable state
  in which the worker, the source or the server is still running; and when \<open>run\<close> has returned, they have
  all ended and every resource opened has been closed, in the reverse order: the client, then the database.
\<close>
theorem run_releases:
  assumes "start os sum256 sched c = (out, c', evs)"
  shows "case out of
      Exit r \<Rightarrow> still_open [] evs = Some []
    | Running wr \<Rightarrow> \<forall>s. (runtime_step wr)\<^sup>*\<^sup>* (launched wr) s \<longrightarrow>
        (rtWorker s = Live \<or> rtSource s \<noteq> Ended \<or> rtServer s \<noteq> Ended \<longrightarrow> rtEvents s = []) \<and>
        (\<forall>r. rtMain s = Returned r \<longrightarrow>
          still_open [] (evs @ rtEvents s) = Some [] \<and> rtWorker s \<noteq> Live \<and> rtSource s = Ended \<and> rtServer s = Ended)"
  using assms
proof (cases rule: start_cases)
  case early
  then show ?thesis by simp
next
  case (running cfg database worker)
  have "still_open (open_resources wr) (deferred wr) = Some []" for wr :: "'a wiring"
    by (simp add: open_resources_def deferred_def)
  moreover have "rtEvents s = []" if "runtime_ok wr s" "rtWorker s = Live \<or> rtSource s \<noteq> Ended \<or> rtServer s \<noteq> Ended"
    for wr :: "'a wiring" and s
    using that by (cases "rtMain s") (auto simp: runtime_ok_def)
  ultimately show ?thesis
    using running(7,8) by (auto simp: still_open_append runtime_ok_def dest!: runtime_reaches_ok)
qed

text \<open>A database that cannot be migrated is closed before \<open>run\<close> returns.\<close>
theorem run_releases_witness:
  "\<exists>r c' evs. start (sample_os\<lparr>osInit := \<lambda>c. if c = Query_Version then Some (NewError ''busy'') else None\<rparr>)
     sample_hash (\<lambda>_. (no_faults, 0)) blank_catalog = (Exit (Some r), c', evs) \<and> evs \<noteq> [] \<and> still_open [] evs = Some []"
proof -
  let ?os = "sample_os\<lparr>osInit := \<lambda>c. if c = Query_Version then Some (NewError ''busy'') else None\<rparr>"
  have p: "Parse sample_parsers sample_environ sample_args = (sample_config, None)"
    using sample_parse by (simp add: sample_config_def prod_eq_iff)
  obtain out c' evs where st: "start ?os sample_hash (\<lambda>_. (no_faults, 0)) blank_catalog = (out, c', evs)"
    by (metis surj_pair)
  obtain c1 where "initialize (\<lambda>c. if c = Query_Version then Some (NewError ''busy'') else None) blank_catalog
      = (Some (WrapError ''query schema migration'' (NewError ''busy'')), c1)"
    by (simp add: initialize_def exec_schema_def schema_tables_def migrate_def)
  then have "\<exists>path. store_Open ?os (cfDatabasePath sample_config) blank_catalog =
      (Inl (WrapError ''query schema migration'' (NewError ''busy'')), c1, [Opened (Database path), Closed (Database path)])"
    by (cases "cfDatabasePath sample_config = '':memory:''") (simp_all add: store_Open_def resolve_path_def sample_os_def)
  then obtain path where o: "store_Open ?os (cfDatabasePath sample_config) blank_catalog =
      (Inl (WrapError ''query schema migration'' (NewError ''busy'')), c1, [Opened (Database path), Closed (Database path)])"
    by blast
  have parsers: "osParsers sample_os = sample_parsers" "osVars sample_os = sample_environ" "osArgs sample_os = sample_args" "osStat sample_os p = None" for p
    by (simp_all add: sample_os_def)
  have "out = Exit (Some (WrapError ''query schema migration'' (NewError ''busy'')))" "evs \<noteq> []"
    using st o sample_parse p by (auto simp: start_def parsers)
  with run_releases [OF st] st show ?thesis by auto
qed

text \<open>
  What is running once the start has succeeded: the configuration was accepted, the device was there, the
  database is initialised and migrated, and the components are wired so that positions are queued for
  CalTopo exactly when there is a worker to deliver and a callback to wake it, with the filter, the
  timeout, the group and the map of the configuration.
\<close>
theorem started_as_configured:
  assumes "start os sum256 sched c = (Running wr, c', evs)"
  shows "let cfg = wrConfig wr in
    Parse (osParsers os) (osVars os) (osArgs os) = (cfg, None) \<and> osStat os (cfSerialDevice cfg) = None \<and>
    initialize (osInit os) c = (None, c') \<and>
    wrService wr = world_service sum256 sched (ccEnabled (cfCalTopo cfg)) (cfDecodePositionApp cfg) \<and>
    hsAddr (wrServer wr) = cfHTTPListenAddress cfg \<and> hsAddr (wrServer wr) \<noteq> [] \<and> hsHandler (wrServer wr) = serve \<and>
    (case wrWorker wr of
       None \<Rightarrow> \<not> ccEnabled (cfCalTopo cfg)
     | Some wk \<Rightarrow> ccEnabled (cfCalTopo cfg) \<and> wkTimeout wk = request_timeout (wkTimeout wk) \<and> \<not> wkWake wk \<and>
         wkFilter wk = newPositionFilter (ccMovement (cfCalTopo cfg)) (ccHeartbeat (cfCalTopo cfg)) \<and>
         (\<exists>client. osNewClient os (client_options_of (cfCalTopo cfg)) = Inr client \<and>
            wkPublisher wk = world_adapter client sched (ccGroup (cfCalTopo cfg)) (ccMapID (cfCalTopo cfg))))"
  using assms
proof (cases rule: start_cases)
  case (running cfg database worker)
  have wr: "wr = wire_up sum256 sched cfg database worker" using running(7) by simp
  have v: "Validate cfg = None"
    using running(1) by (auto simp: Parse_def split: sum.splits if_splits prod.splits)
  have "0 < ccTimeout (cfCalTopo cfg)" if "ccEnabled (cfCalTopo cfg)"
    using Validate_None [OF v running(3,2)] that by (auto simp: caltopo_errors_def)
  then have "case worker of
       None \<Rightarrow> \<not> ccEnabled (cfCalTopo cfg)
     | Some wk \<Rightarrow> ccEnabled (cfCalTopo cfg) \<and> wkTimeout wk = request_timeout (wkTimeout wk) \<and> \<not> wkWake wk \<and>
         wkFilter wk = newPositionFilter (ccMovement (cfCalTopo cfg)) (ccHeartbeat (cfCalTopo cfg)) \<and>
         (\<exists>client. osNewClient os (client_options_of (cfCalTopo cfg)) = Inr client \<and>
            wkPublisher wk = world_adapter client sched (ccGroup (cfCalTopo cfg)) (ccMapID (cfCalTopo cfg)))"
    using running(6)
    by (auto simp: start_worker_def New_def NewWorker_def request_timeout_def world_adapter_def split: if_splits sum.splits)
  moreover have "wrService wr = world_service sum256 sched (ccEnabled (cfCalTopo cfg)) (cfDecodePositionApp cfg)"
    using start_worker_Inr [OF running(6)] by (simp add: wr wire_up_def world_service_def)
  moreover have "cfHTTPListenAddress cfg \<noteq> []" using Validate_None [OF v running(3,2)] by blast
  ultimately show ?thesis using running(1,4,5) by (simp add: wr wire_up_def NewServer_def)
qed simp

theorem started_as_configured_witness:
  "\<exists>wr c' evs wk. start sample_os sample_hash (\<lambda>_. (no_faults, 0)) blank_catalog = (Running wr, c', evs) \<and>
     wrWorker wr = Some wk \<and> wkTimeout wk = request_timeout (wkTimeout wk) \<and>
     svEnqueueCalTopo (wrService wr) \<and> svWakeDeliveries (wrService wr) = Some Wake"
proof -
  obtain wr c' evs wk where st: "start sample_os sample_hash (\<lambda>_. (no_faults, 0)) blank_catalog = (Running wr, c', evs)"
      "wrWorker wr = Some wk"
    using sample_started by blast
  from started_as_configured [OF st(1)] st show ?thesis by (auto simp: Let_def)
qed

text \<open>
  C24: The shutdown ends: once started, the process takes finitely many steps, and it can only come to rest
  by returning; no goroutine waits for another for ever, and none is blocked on the error channel.
\<close>
theorem process_ends:
  assumes "(runtime_step wr)\<^sup>*\<^sup>* (launched wr) s"
  shows "wfp (\<lambda>s' s. runtime_step wr s s') \<and>
    (rtDone s \<or> rtMain s \<noteq> Receiving \<or> rtServer s \<noteq> Serving \<longrightarrow>
       (\<exists>r. rtMain s = Returned r) \<or> (\<exists>s'. runtime_step wr s s' \<and> rtSignalled s' = rtSignalled s))"
  using runtime_step_wf runtime_progress [OF runtime_reaches_ok [OF assms]] unfolding own_step_def by blast

theorem process_ends_witness:
  "wfp (\<lambda>s' s. runtime_step sample_wiring s s') \<and>
   (\<exists>s'. runtime_step sample_wiring (signalled_run Receiving Serving Serving [] False []) s' \<and> rtSignalled s')"
proof -
  have "runtime_step sample_wiring (launched sample_wiring) (signalled_run Receiving Serving Serving [] False [])"
    using runtime_step.signal [of "launched sample_wiring" sample_wiring]
    by (simp add: launched_def sample_wiring_def wire_up_def)
  then have "(runtime_step sample_wiring)\<^sup>*\<^sup>* (launched sample_wiring) (signalled_run Receiving Serving Serving [] False [])" by blast
  from process_ends [OF this] show ?thesis by simp
qed

text \<open>
  C31: The exit status: a started process exits with 0 only if a signal stopped it and the HTTP server shut
  down in time, and with 1 only because \<open>ListenAndServe\<close> or \<open>Shutdown\<close> failed; a process that was not
  signalled reports why the server stopped.
\<close>
theorem exit_status:
  assumes "(runtime_step wr)\<^sup>*\<^sup>* (launched wr) s" "rtMain s = Returned r"
  shows "(exit_code r = 0 \<longrightarrow> rtSignalled s \<and> rtShutdownErr s = None) \<and>
    (exit_code r = 1 \<longrightarrow> rtListenErr s \<noteq> None \<or> rtShutdownErr s \<noteq> None) \<and>
    (\<not> rtSignalled s \<longrightarrow> r = errors_join [rtListenErr s, rtShutdownErr s] \<and> rtListenErr s \<noteq> None)"
proof -
  obtain e where "first_ok s e" "r = errors_join [e, rtShutdownErr s]"
    using runtime_reaches_status [OF assms(1)] assms(2) by (auto simp: status_ok_def)
  then show ?thesis by (auto simp: exit_code_def first_ok_def errors_join_None)
qed

theorem exit_status_witness:
  "\<exists>s. (runtime_step sample_wiring)\<^sup>*\<^sup>* (launched sample_wiring) s \<and> rtMain s = Returned None \<and>
     rtSignalled s \<and> rtShutdownErr s = None"
proof -
  let ?s = "signalled_run (Returned (errors_join [None, None])) Ended Ended [None] True (deferred sample_wiring)"
  have r: "rtMain ?s = Returned (errors_join [None, None])" by simp
  from exit_status [OF sample_signalled r] sample_signalled show ?thesis
    by (intro exI [of _ ?s]) (simp add: errors_join_def exit_code_def)
qed

end
