(* ===== verification/Interleaving.thy ===== *)
theory Interleaving
  imports Intake Delivery
begin

text \<open>
  The goroutines of \<^verbatim>\<open>cmd/bridge/main.go\<close> that share the store, interleaved: the one that handles the
  radio's messages and \<open>Worker.Run\<close> of \<^verbatim>\<open>internal/caltopo/worker.go\<close>. A step is one call on the
  store, one publication, or one operation on the wake-up channel; between any two of them the other
  goroutine may run. The program counters hold the code's local variables; \<open>rnLast\<close>,
  \<open>rnOutcomes\<close> and \<open>rnHandled\<close> are history (how the worker's last round ended, what it decided, which
  messages were handled) that no step reads. The composition of the
  steps of each side is its sequential definition (\<open>Handle\<close>, \<open>drain_loop\<close>).
\<close>

section \<open>The worker's steps\<close>

text \<open>What follows the decision on a delivery and, if it was to be published, the publication.\<close>

definition settle ::
  "'s worker_env \<Rightarrow> delivery \<Rightarrow> outcome \<Rightarrow> position_filter \<Rightarrow> 's \<Rightarrow> (go_error option \<times> position_filter \<times> 's) option" where
  "settle env d out f s =
     (let mark = (\<lambda>published. case wMarkDelivered env (dvID d) s of
            (Some e, s1) \<Rightarrow> Some (Some e, f, s1)
          | (None, s1) \<Rightarrow> map_option (\<lambda>f1. (None, f1, s1)) (complete f (dvID d) published))
      in case out of
           Suppressed \<Rightarrow> mark False
         | Published pos \<Rightarrow> mark True
         | Rejected pos err \<Rightarrow>
             (let attempts = dvAttempts d + 1 in
              case retry_delay attempts of
                None \<Rightarrow> None
              | Some delay \<Rightarrow>
                  (case wMarkFailed env (dvID d) attempts (wNow env s + delay) False err s of
                     (markErr, s1) \<Rightarrow> Some (markErr, f, s1))))"

definition publish_outcome :: "position \<Rightarrow> go_error option \<Rightarrow> outcome" where
  "publish_outcome pos r = (case r of None \<Rightarrow> Published pos | Some e \<Rightarrow> Rejected pos e)"

lemma deliver_one_steps:
  "deliver_one env dst timeout d f s =
     (case prepare dst f d of
        ((pos, publish), f1) \<Rightarrow>
          if \<not> publish then settle env d Suppressed f1 s
          else (case wPublish env (request_timeout timeout) pos s of
                  (r, s1) \<Rightarrow> settle env d (publish_outcome pos r) f1 s1))"
  by (simp add: deliver_one_def settle_def publish_outcome_def Let_def split: prod.split option.split)

datatype worker_pc =
    Starting
  | Waiting
  | Querying
  | Delivering "delivery list"
  | Publishing delivery position "delivery list"
  | Settling delivery outcome "delivery list"
  | Stopped

text \<open>
  Three fields of the state are history variables: \<open>rnLast\<close> says how the last round of drains ended,
  with the rows of the queue and the clock at the query that found nothing due; \<open>rnOutcomes\<close> what
  became of each delivery handled so far, and \<open>rnHandled\<close> the messages handled to the end.
\<close>

datatype last_round = NeverRan | Failed | Emptied "delivery_row list" time

datatype handler_pc =
    Idle
  | Received from_radio
  | Resolving from_radio packet "position option"
  | Storing from_radio packet "position option"
  | Announcing from_radio packet "position option" "int \<times> int \<times> bool"

record 'c running =
  rnWorld :: "'c world"
  rnFilter :: position_filter
  rnWorker :: worker_pc
  rnLast :: last_round
  rnOutcomes :: "(delivery \<times> outcome) list"
  rnHandler :: handler_pc
  rnHandled :: "from_radio list"
  rnIngest :: ingest_state
  rnCancelled :: bool

text \<open>What \<open>main.go\<close> fixes when it wires the components.\<close>

record 'c deployment =
  dpLib :: pb_lib
  dpSum :: "string \<Rightarrow> byte list"
  dpClient :: "'c gotopo"
  dpSchedule :: schedule
  dpGroup :: string
  dpMapID :: string
  dpDecodePositionApp :: bool
  dpDistance :: distance
  dpTimeout :: duration

definition env_of :: "'c deployment \<Rightarrow> 'c world worker_env" where
  "env_of dp = world_env (dpClient dp) (dpSchedule dp) (dpGroup dp) (dpMapID dp)"

definition service_of :: "'c deployment \<Rightarrow> 'c world service" where
  "service_of dp = world_service (dpSum dp) (dpSchedule dp) True (dpDecodePositionApp dp)"

text \<open>One step of the worker outside its \<open>select\<close>; None where it waits, has returned or panics.\<close>

definition worker_step :: "'c deployment \<Rightarrow> 'c running \<Rightarrow> 'c running option" where
  "worker_step dp r =
     (case rnWorker r of
        Starting \<Rightarrow> Some (r\<lparr>rnWorld := Wake (rnWorld r), rnWorker := Waiting\<rparr>)
      | Waiting \<Rightarrow> None
      | Querying \<Rightarrow>
          (case wPending (env_of dp) 50 (rnWorld r) of
             (Inl e, w) \<Rightarrow> Some (r\<lparr>rnWorld := w, rnWorker := Waiting, rnLast := Failed\<rparr>)
           | (Inr [], w) \<Rightarrow> Some (r\<lparr>rnWorld := w, rnWorker := Waiting,
               rnLast := Emptied (deliveries (wdDb (rnWorld r))) (wNow (env_of dp) (rnWorld r))\<rparr>)
           | (Inr ds, w) \<Rightarrow> Some (r\<lparr>rnWorld := w, rnWorker := Delivering ds\<rparr>))
      | Delivering [] \<Rightarrow> Some (r\<lparr>rnWorker := Querying\<rparr>)
      | Delivering (d # ds) \<Rightarrow>
          (case prepare (dpDistance dp) (rnFilter r) d of
             ((pos, publish), f) \<Rightarrow> Some (r\<lparr>rnFilter := f,
               rnWorker := (if publish then Publishing d pos ds else Settling d Suppressed ds)\<rparr>))
      | Publishing d pos ds \<Rightarrow>
          (case wPublish (env_of dp) (request_timeout (dpTimeout dp)) pos (rnWorld r) of
             (e, w) \<Rightarrow> Some (r\<lparr>rnWorld := w, rnWorker := Settling d (publish_outcome pos e) ds\<rparr>))
      | Settling d out ds \<Rightarrow>
          (case settle (env_of dp) d out (rnFilter r) (rnWorld r) of
             None \<Rightarrow> None
           | Some (Some e, f, w) \<Rightarrow> Some (r\<lparr>rnWorld := w, rnFilter := f, rnWorker := Waiting,
               rnOutcomes := rnOutcomes r @ [(d, out)], rnLast := Failed\<rparr>)
           | Some (None, f, w) \<Rightarrow> Some (r\<lparr>rnWorld := w, rnFilter := f, rnWorker := Delivering ds,
               rnOutcomes := rnOutcomes r @ [(d, out)]\<rparr>))
      | Stopped \<Rightarrow> None)"

section \<open>The handler's steps\<close>

text \<open>
  After an error the message is handled again from the start, as \<open>consume\<close> does after its pause. A
  message without a packet makes at most one call on the store.
\<close>

definition handler_step :: "'c deployment \<Rightarrow> 'c running \<Rightarrow> 'c running option" where
  "handler_step dp r =
     (let sv = service_of dp in
      case rnHandler r of
        Idle \<Rightarrow> None
      | Received m \<Rightarrow>
          (case packet_of m of
             None \<Rightarrow>
               (case Handle (dpLib dp) sv m (rnIngest r) (rnWorld r) of
                  (e, st, w) \<Rightarrow> Some (r\<lparr>rnWorld := w, rnIngest := st,
                    rnHandler := (if e = None then Idle else Received m),
                    rnHandled := rnHandled r @ (if e = None then [m] else [])\<rparr>))
           | Some p \<Rightarrow>
               (case learn_node (dpLib dp) sv p (rnIngest r) (rnWorld r) of
                  (Some e, st, w) \<Rightarrow> Some (r\<lparr>rnWorld := w, rnIngest := st, rnHandler := Received m\<rparr>)
                | (None, st, w) \<Rightarrow>
                    (case DecodeWithOptions (dpLib dp) p (svNow sv w) (svDecodePositionApp sv) of
                       (pk, pos) \<Rightarrow> Some (r\<lparr>rnWorld := w, rnIngest := st, rnHandler := Resolving m pk pos\<rparr>))))
      | Resolving m pk pos \<Rightarrow>
          (case resolve_callsign sv pos (rnWorld r) of
             (Inl e, w) \<Rightarrow> Some (r\<lparr>rnWorld := w, rnHandler := Received m\<rparr>)
           | (Inr pos', w) \<Rightarrow> Some (r\<lparr>rnWorld := w, rnHandler := Storing m pk pos'\<rparr>))
      | Storing m pk pos \<Rightarrow>
          (case svArchive sv pk pos (svEnqueueCalTopo sv) (rnWorld r) of
             (Inl e, w) \<Rightarrow> Some (r\<lparr>rnWorld := w, rnHandler := Received m\<rparr>)
           | (Inr ids, w) \<Rightarrow> Some (r\<lparr>rnWorld := w, rnHandler := Announcing m pk pos ids\<rparr>))
      | Announcing m pk pos ids \<Rightarrow>
          (case announce sv pk pos ids (rnIngest r) (rnWorld r) of
             (st, w) \<Rightarrow> Some (r\<lparr>rnWorld := w, rnIngest := st, rnHandler := Idle, rnHandled := rnHandled r @ [m]\<rparr>)))"

section \<open>All interleavings\<close>

text \<open>
  The three cases of the worker's \<open>select\<close> are steps of their own, since Go picks among the ready ones
  at random: the context is done, the ticker fired, or the channel held a token.
\<close>

inductive bridge_step :: "'c deployment \<Rightarrow> 'c running \<Rightarrow> 'c running \<Rightarrow> bool" for dp where
  worker: "worker_step dp r = Some r' \<Longrightarrow> bridge_step dp r r'"
| handler: "handler_step dp r = Some r' \<Longrightarrow> bridge_step dp r r'"
| receive: "rnHandler r = Idle \<Longrightarrow> bridge_step dp r (r\<lparr>rnHandler := Received m\<rparr>)"
| ticker: "rnWorker r = Waiting \<Longrightarrow> bridge_step dp r (r\<lparr>rnWorker := Querying\<rparr>)"
| token: "rnWorker r = Waiting \<Longrightarrow> wdWake (rnWorld r) \<Longrightarrow>
    bridge_step dp r (r\<lparr>rnWorld := (rnWorld r)\<lparr>wdWake := False\<rparr>, rnWorker := Querying\<rparr>)"
| cancel: "bridge_step dp r (r\<lparr>rnCancelled := True\<rparr>)"
| stop: "rnWorker r = Waiting \<Longrightarrow> rnCancelled r \<Longrightarrow> bridge_step dp r (r\<lparr>rnWorker := Stopped\<rparr>)"

inductive_cases bridge_step_cases: "bridge_step dp r r'"

text \<open>The process starts on a database an earlier run may have left, with an empty filter.\<close>

definition started :: "'c world \<Rightarrow> f64 \<Rightarrow> duration \<Rightarrow> 'c running" where
  "started w movement heartbeat =
     \<lparr>rnWorld = w, rnFilter = newPositionFilter movement heartbeat, rnWorker = Starting, rnLast = NeverRan,
      rnOutcomes = [], rnHandler = Idle, rnHandled = [], rnIngest = new_ingest, rnCancelled = False\<rparr>"

definition bridge_reaches :: "'c deployment \<Rightarrow> 'c world \<Rightarrow> f64 \<Rightarrow> duration \<Rightarrow> 'c running \<Rightarrow> bool" where
  "bridge_reaches dp w movement heartbeat r \<longleftrightarrow> (bridge_step dp)\<^sup>*\<^sup>* (started w movement heartbeat) r"

section \<open>What the handler may do to the queue\<close>

text \<open>\<open>feeds\<close>: it may add deliveries and rename nodes; \<open>leaves_queue\<close>: not even the former.\<close>

definition leaves_queue :: "'c world \<Rightarrow> 'c world \<Rightarrow> bool" where
  "leaves_queue w w' \<longleftrightarrow> deliveries (wdDb w') = deliveries (wdDb w) \<and>
     map fact_of (positions (wdDb w')) = map fact_of (positions (wdDb w)) \<and> wdWake w' = wdWake w"

definition feeds :: "'c world \<Rightarrow> 'c world \<Rightarrow> bool" where
  "feeds w w' \<longleftrightarrow> (world_ok w \<longrightarrow> world_ok w') \<and> outstanding w \<subseteq> outstanding w' \<and> (wdWake w \<longrightarrow> wdWake w')"

lemma leaves_feeds: "leaves_queue w w' \<Longrightarrow> advance w w' \<Longrightarrow> feeds w w'"
  by (simp add: leaves_queue_def feeds_def advance_def world_ok_def outstanding_def pending_where_def)

lemma remember_quiet:
  "rememberNode (world_service sum256 sched en app) n u w = (r, w') \<Longrightarrow> leaves_queue w w'"
  by (auto simp: rememberNode_def service_defs leaves_queue_def on_db_eq tick_def
      dest!: UpsertNode_facts split: option.splits)

lemma learn_quiet:
  "learn_node lib (world_service sum256 sched en app) m st w = (r, st', w') \<Longrightarrow> leaves_queue w w'"
  by (auto simp: learn_node_def leaves_queue_def dest!: remember_quiet
      split: option.splits sum.splits if_splits prod.splits)

lemma resolve_quiet:
  "resolve_callsign (world_service sum256 sched en app) pos w = (r, w') \<Longrightarrow> leaves_queue w w'"
  by (auto simp: resolve_callsign_def service_defs leaves_queue_def on_db_eq tick_def
      split: option.splits sum.splits if_splits prod.splits)

lemma Handle_quiet:
  "Handle lib (world_service sum256 sched en app) m st w = (r, st', w') \<Longrightarrow> packet_of m = None \<Longrightarrow> leaves_queue w w'"
  by (auto simp: packet_of_def Handle_def leaves_queue_def dest!: remember_quiet
      split: option.splits if_splits prod.splits)

lemma archive_feeds:
  assumes "svArchive (world_service sum256 sched en app) p pos en w = (out, w')"
  shows "feeds w w' \<and> ((\<forall>i j. out \<noteq> Inr (i, j, True)) \<longrightarrow> leaves_queue w w') \<and>
    (\<forall>i j. out = Inr (i, j, True) \<longrightarrow> pos \<noteq> None)"
proof -
  obtain d' where a: "Archive sum256 (io_at sched w) (now_at sched w) p pos en (wdDb w) = (out, d')"
    and w': "w' = tick (w\<lparr>wdDb := d'\<rparr>)"
    using assms by (auto simp: world_service_def on_db_eq)
  have wf: "db_wf (wdDb w) \<longrightarrow> db_wf d'" using Archive_wf [of "wdDb w" sum256] a by (metis snd_conv)
  have wake: "wdWake w' = wdWake w" by (simp add: w' tick_def)
  show ?thesis
    using a
  proof (cases rule: Archive_cases)
    case (stored q d1 d2)
    then have "deliveries d' = deliveries (wdDb w) \<or> (\<exists>i j t. deliveries d' = deliveries (wdDb w) @ [delivery_row_of i j t])"
      by (auto simp: insert_packet_Inr insert_position_Inr insert_delivery_Inr split: if_splits)
    then have "feeds w w'"
      using wf wake by (auto simp: feeds_def w' world_ok_def outstanding_def pending_where_def delivery_row_of_def)
    with stored(1,6) show ?thesis by simp
  qed (use wf wake in \<open>auto simp: feeds_def leaves_queue_def w' world_ok_def outstanding_def pending_where_def insert_packet_Inr\<close>)
qed

lemma announce_feeds:
  assumes "announce (world_service sum256 sched True app) p pos (i, j, inserted) st w = (st', w')"
  shows "feeds w w' \<and> (inserted \<and> pos \<noteq> None \<longrightarrow> wdWake w') \<and> (\<not> (inserted \<and> pos \<noteq> None) \<longrightarrow> leaves_queue w w')"
  using assms
  by (auto simp: announce_def Let_def Wake_def feeds_def leaves_queue_def world_ok_def outstanding_def
      split: option.splits if_splits)

lemma quiet_feeds:
  "learn_node lib (world_service sum256 sched en app) p st w = (r, st', w') \<Longrightarrow> leaves_queue w w' \<and> feeds w w'"
  "resolve_callsign (world_service sum256 sched en app) pos w = (out, w') \<Longrightarrow> leaves_queue w w' \<and> feeds w w'"
  "Handle lib (world_service sum256 sched en app) m st w = (r, st', w') \<Longrightarrow> packet_of m = None \<Longrightarrow>
    leaves_queue w w' \<and> feeds w w'"
  by (meson leaves_feeds learn_quiet learn_advance resolve_quiet resolve_advance Handle_quiet Handle_advance)+

text \<open>The handler has archived a new position and has yet to wake the worker.\<close>

fun about_to_wake :: "handler_pc \<Rightarrow> bool" where
  "about_to_wake (Announcing m pk pos (i, j, inserted)) = (inserted \<and> pos \<noteq> None)"
| "about_to_wake pc = False"

lemma handler_step_frame:
  assumes "handler_step dp r = Some r'"
  shows "rnFilter r' = rnFilter r \<and> rnWorker r' = rnWorker r \<and> rnLast r' = rnLast r \<and> rnOutcomes r' = rnOutcomes r \<and>
    rnCancelled r' = rnCancelled r"
  using assms
  by (auto simp: handler_step_def Let_def split: handler_pc.splits option.splits sum.splits prod.splits)

lemma handler_step_world:
  assumes "handler_step dp r = Some r'"
  shows "feeds (rnWorld r) (rnWorld r') \<and>
    (leaves_queue (rnWorld r) (rnWorld r') \<and> (about_to_wake (rnHandler r) \<longrightarrow> about_to_wake (rnHandler r')) \<or>
     about_to_wake (rnHandler r') \<or> wdWake (rnWorld r'))"
proof (cases "rnHandler r")
  case Idle
  with assms show ?thesis by (simp add: handler_step_def)
next
  case (Received m)
  with assms show ?thesis
    unfolding handler_step_def service_of_def Let_def
    by (auto split: option.splits sum.splits prod.splits dest!: quiet_feeds)
next
  case (Resolving m pk pos)
  with assms show ?thesis
    unfolding handler_step_def service_of_def Let_def
    by (auto split: option.splits sum.splits prod.splits dest!: quiet_feeds)
next
  case (Storing m pk pos)
  with assms show ?thesis
    unfolding handler_step_def service_of_def Let_def
    by (auto split: option.splits sum.splits prod.splits dest!: archive_feeds)
next
  case (Announcing m pk pos ids)
  with assms show ?thesis
    unfolding handler_step_def service_of_def Let_def
    by (cases ids) (auto split: option.splits sum.splits prod.splits dest!: announce_feeds)
qed

section \<open>The invariant\<close>

fun in_hand :: "worker_pc \<Rightarrow> delivery list" where
  "in_hand (Delivering ds) = ds"
| "in_hand (Publishing d pos ds) = d # ds"
| "in_hand (Settling d out ds) = d # ds"
| "in_hand pc = []"

text \<open>The filter remembers the decision the worker is acting on.\<close>

fun decided :: "outcome \<Rightarrow> (position \<times> bool) option \<Rightarrow> bool" where
  "decided Suppressed x = (\<exists>pos. x = Some (pos, False))"
| "decided (Published pos) x = (x = Some (pos, True))"
| "decided (Rejected pos e) x = (x = Some (pos, True))"

fun remembered :: "worker_pc \<Rightarrow> position_filter \<Rightarrow> bool" where
  "remembered (Publishing d pos ds) f = (pfPrepared f (dvID d) = Some (pos, True))"
| "remembered (Settling d out ds) f = decided out (pfPrepared f (dvID d))"
| "remembered pc f = True"

definition hand_ok :: "'c world \<Rightarrow> worker_pc \<Rightarrow> bool" where
  "hand_ok w pc \<longleftrightarrow> distinct (map dvID (in_hand pc)) \<and> dvID ` set (in_hand pc) \<subseteq> outstanding w \<and>
     (\<forall>d \<in> set (in_hand pc). 0 \<le> dvAttempts d)"

text \<open>Nothing is due that the worker has not been told of.\<close>

definition nothing_due :: "time \<Rightarrow> db \<Rightarrow> bool" where
  "nothing_due T d \<longleftrightarrow> (\<forall>x. is_head d x \<longrightarrow> \<not> due T x)"

fun caught_up :: "last_round \<Rightarrow> db \<Rightarrow> bool" where
  "caught_up NeverRan d = False"
| "caught_up Failed d = True"
| "caught_up (Emptied rows T) d = (deliveries d = rows \<and> nothing_due T d)"

definition asleep_ok :: "'c running \<Rightarrow> bool" where
  "asleep_ok r \<longleftrightarrow> (rnWorker r = Waiting \<and> \<not> about_to_wake (rnHandler r) \<and> \<not> wdWake (rnWorld r) \<longrightarrow>
     caught_up (rnLast r) (wdDb (rnWorld r)))"

definition running_ok :: "'c running \<Rightarrow> bool" where
  "running_ok r \<longleftrightarrow> world_ok (rnWorld r) \<and> filter_ok (rnFilter r) \<and> hand_ok (rnWorld r) (rnWorker r) \<and>
     remembered (rnWorker r) (rnFilter r) \<and> asleep_ok r"

text \<open>What is due depends on the rows of the queue and the facts of the positions only.\<close>

lemma joined_image:
  assumes "deliveries d' = deliveries d" "map fact_of (positions d') = map fact_of (positions d)"
    and "x \<in> set (joined d')"
  obtains y where "y \<in> set (joined d)" "fst y = fst x" "node_of y = node_of x" "queue_key y = queue_key x"
proof -
  define p where "p = snd x"
  have p: "x = (fst x, p)" "fst x \<in> set (deliveries d')" "p \<in> set (positions d')" "trId p = drPositionId (fst x)"
    using assms(3) joined_iff [of "fst x" "snd x" d'] by (simp_all add: p_def)
  have "fact_of p \<in> fact_of ` set (positions d)"
    using p(3) arg_cong [OF assms(2), of set] by (metis image_eqI image_set)
  then obtain q where q: "q \<in> set (positions d)" "fact_of q = fact_of p" by force
  then have "(fst x, q) \<in> set (joined d)" using p assms(1) by (auto simp: joined_iff fact_of_def)
  moreover have "node_of (fst x, q) = node_of x" "queue_key (fst x, q) = queue_key x"
    by (subst p(1), use q(2) in \<open>simp add: node_of_def queue_key_def fact_of_def\<close>)+
  ultimately show ?thesis using that by simp
qed

lemma nothing_due_facts:
  assumes "deliveries d' = deliveries d" "map fact_of (positions d') = map fact_of (positions d)" "nothing_due T d"
  shows "nothing_due T d'"
  unfolding nothing_due_def
proof (intro allI impI notI)
  fix x assume x: "is_head d' x" "due T x"
  from x(1) obtain y where y: "y \<in> set (joined d)" "fst y = fst x" "node_of y = node_of x" "queue_key y = queue_key x"
    using joined_image [OF assms(1,2), of x] by (auto simp: is_head_def queued_def)
  have "queue_key y \<le> queue_key z" if "z \<in> queued d (node_of y)" for z
  proof -
    from that obtain z' where z': "z' \<in> set (joined d')" "fst z' = fst z" "node_of z' = node_of z" "queue_key z' = queue_key z"
      using joined_image [OF assms(1,2) [symmetric], of z] by (auto simp: queued_def)
    then have "z' \<in> queued d' (node_of x)" using that y(3) by (simp add: queued_def)
    then have "queue_key x \<le> queue_key z'" using x(1) by (simp add: is_head_def)
    then show ?thesis by (simp add: y(4) z'(4))
  qed
  with x y have "is_head d y" by (auto simp: is_head_def queued_def)
  with assms(3) x(2) y(2) show False by (metis nothing_due_def due_def)
qed

section \<open>The invariant is kept\<close>

context delivery_queue
begin

lemma settle_queue:
  assumes "inv s" "filter_ok f" "decided out (pfPrepared f (dvID d))" "0 \<le> dvAttempts d"
  shows "\<exists>e f' s'. settle env d out f s = Some (e, f', s') \<and> filter_ok f' \<and> inv s' \<and>
    outstanding s - {dvID d} \<subseteq> outstanding s' \<and> (\<not> settled_outcome out \<longrightarrow> outstanding s' = outstanding s)"
proof -
  obtain pos b where p: "pfPrepared f (dvID d) = Some (pos, b)" using assms(3) by (cases out) auto
  have c: "\<exists>f'. complete f (dvID d) c = Some f' \<and> filter_ok f'" for c
    by (rule complete_returns [OF assms(2) p])
  obtain e s1 where m: "wMarkDelivered env (dvID d) s = (e, s1)" by fastforce
  have a: "retry_delay (dvAttempts d + 1) = Some (second * 2 ^ nat (min (dvAttempts d + 1) 8))"
    by (rule retry_delay_Some) (use assms(4) in simp)
  show ?thesis
  proof (cases out)
    case (Rejected q err)
    obtain e' s' where "wMarkFailed env (dvID d) (dvAttempts d + 1)
        (wNow env s + second * 2 ^ nat (min (dvAttempts d + 1) 8)) False err s = (e', s')" by fastforce
    with failed [OF assms(1) _ this] assms(2,4) a show ?thesis
      by (auto simp: settle_def Rejected Let_def)
  qed (use m c [of True] c [of False] delivered [OF assms(1) m] assms(2) in
      \<open>auto simp: settle_def Let_def split: option.split\<close>)
qed

end

lemma handler_keeps:
  assumes "handler_step dp r = Some r'" "running_ok r"
  shows "running_ok r'"
proof -
  note frame = handler_step_frame [OF assms(1)] and world = handler_step_world [OF assms(1)]
  have "hand_ok (rnWorld r') (rnWorker r')"
    using assms(2) frame world by (auto simp: running_ok_def hand_ok_def feeds_def)
  moreover have "asleep_ok r'"
  proof (cases "leaves_queue (rnWorld r) (rnWorld r') \<and> (about_to_wake (rnHandler r) \<longrightarrow> about_to_wake (rnHandler r'))")
    case True
    then have "caught_up (rnLast r) (wdDb (rnWorld r)) \<Longrightarrow> caught_up (rnLast r) (wdDb (rnWorld r'))"
      by (cases "rnLast r") (auto simp: leaves_queue_def intro: nothing_due_facts)
    with True show ?thesis using assms(2) frame by (auto simp: running_ok_def asleep_ok_def leaves_queue_def)
  next
    case False
    with world show ?thesis by (auto simp: asleep_ok_def)
  qed
  ultimately show ?thesis
    using assms(2) frame world by (simp add: running_ok_def feeds_def)
qed

lemma worker_step_total:
  assumes "running_ok r"
  shows "(\<exists>r'. worker_step dp r = Some r' \<and> running_ok r') \<or> rnWorker r = Waiting \<or> rnWorker r = Stopped"
proof (cases "rnWorker r")
  case Starting
  then show ?thesis
    using assms by (simp add: worker_step_def running_ok_def Wake_def hand_ok_def asleep_ok_def world_ok_def outstanding_def)
next
  case Querying
  let ?w = "rnWorld r"
  obtain out w where q: "wPending (env_of dp) 50 ?w = (out, w)" by fastforce
  have db: "wdDb w = wdDb ?w" using q by (auto simp: env_of_def world_env_def on_db_eq)
  have ok: "world_ok w" "outstanding w = outstanding ?w"
    using queue.pending [OF _ q [unfolded env_of_def]] assms by (simp_all add: running_ok_def)
  show ?thesis
  proof (cases out)
    case (Inl e)
    with Querying q assms ok show ?thesis
      by (simp add: worker_step_def running_ok_def hand_ok_def asleep_ok_def)
  next
    case (Inr ds)
    have given: "distinct (map dvID ds) \<and> dvID ` set ds \<subseteq> outstanding ?w \<and> (\<forall>d \<in> set ds. 0 \<le> dvAttempts d)"
      using queue.pending_outstanding [OF _ q [unfolded env_of_def Inr]] assms by (simp add: running_ok_def)
    have "nothing_due (now_at (dpSchedule dp) ?w) (wdDb ?w)" if "ds = []"
    proof -
      have "pending_rows (now_at (dpSchedule dp) ?w) 50 (wdDb ?w) = []"
        using q that by (auto simp: Inr env_of_def world_env_def on_db_eq PendingDeliveries_Inr)
      then show ?thesis unfolding nothing_due_def using pending_rows_empty [of _ 50] by fastforce
    qed
    then show ?thesis
      using Querying q assms ok given Inr
      by (cases ds) (simp_all add: worker_step_def running_ok_def hand_ok_def asleep_ok_def db env_of_def world_env_def)
  qed
next
  case (Delivering ds)
  show ?thesis
  proof (cases ds)
    case Nil
    with Delivering assms show ?thesis by (simp add: worker_step_def running_ok_def hand_ok_def asleep_ok_def)
  next
    case (Cons d ds')
    obtain pos b f where p: "prepare (dpDistance dp) (rnFilter r) d = ((pos, b), f)" by (metis surj_pair)
    have "filter_ok f" "pfPrepared f (dvID d) = Some (pos, b)"
      using prepare_ok [OF _ p] prepare_prepared [OF p] assms by (simp_all add: running_ok_def)
    with Delivering Cons p assms show ?thesis
      by (simp add: worker_step_def running_ok_def hand_ok_def asleep_ok_def)
  qed
next
  case (Publishing d pos ds)
  obtain e w where p: "wPublish (env_of dp) (request_timeout (dpTimeout dp)) pos (rnWorld r) = (e, w)" by fastforce
  have "world_ok w" "outstanding w = outstanding (rnWorld r)"
    using queue.publish [OF _ p [unfolded env_of_def]] assms by (simp_all add: running_ok_def)
  with Publishing p assms show ?thesis
    by (cases e) (simp_all add: worker_step_def running_ok_def hand_ok_def asleep_ok_def publish_outcome_def)
next
  case (Settling d out ds)
  have pre: "world_ok (rnWorld r)" "filter_ok (rnFilter r)" "decided out (pfPrepared (rnFilter r) (dvID d))"
      "0 \<le> dvAttempts d" "distinct (map dvID (d # ds))" "dvID ` set (d # ds) \<subseteq> outstanding (rnWorld r)"
      "\<forall>d \<in> set ds. 0 \<le> dvAttempts d"
    using assms Settling by (simp_all add: running_ok_def hand_ok_def)
  obtain e f w where s: "settle (env_of dp) d out (rnFilter r) (rnWorld r) = Some (e, f, w)" "filter_ok f" "world_ok w"
      "outstanding (rnWorld r) - {dvID d} \<subseteq> outstanding w"
    unfolding env_of_def using queue.settle_queue [OF pre(1-4)] by blast
  have "dvID d \<notin> dvID ` set ds" "dvID ` set ds \<subseteq> outstanding (rnWorld r)" using pre(5,6) by simp_all
  then have "dvID ` set ds \<subseteq> outstanding (rnWorld r) - {dvID d}" by blast
  then have "hand_ok w (Delivering ds)"
    using pre(5,7) s(4) by (auto simp: hand_ok_def)
  with Settling s show ?thesis
    by (cases e) (simp_all add: worker_step_def running_ok_def hand_ok_def asleep_ok_def)
qed simp_all

lemma started_ok: "world_ok w \<Longrightarrow> running_ok (started w movement heartbeat)"
  by (simp add: started_def running_ok_def hand_ok_def asleep_ok_def filter_ok_new)

lemma bridge_step_keeps:
  assumes "bridge_step dp r r'" "running_ok r"
  shows "running_ok r'"
  using assms(1)
proof cases
  case worker
  then show ?thesis using worker_step_total [OF assms(2), of dp] by (auto simp: worker_step_def)
next
  case handler
  then show ?thesis using handler_keeps assms(2) by blast
next
  case (receive m)
  then show ?thesis using assms(2) by (simp add: running_ok_def asleep_ok_def)
next
  case token
  then show ?thesis
    using assms(2) by (simp add: running_ok_def hand_ok_def asleep_ok_def world_ok_def)
qed (use assms(2) in \<open>simp_all add: running_ok_def hand_ok_def asleep_ok_def\<close>)

lemma bridge_reaches_ok:
  assumes "bridge_reaches dp w movement heartbeat r" "world_ok w"
  shows "running_ok r"
  using assms(1) unfolding bridge_reaches_def
  by (induction rule: rtranclp_induct) (auto intro: started_ok [OF assms(2)] bridge_step_keeps)

section \<open>Alone, each side is its sequential definition\<close>

abbreviation alone :: "('c running \<Rightarrow> 'c running option) \<Rightarrow> 'c running \<Rightarrow> 'c running \<Rightarrow> bool" where
  "alone step \<equiv> (\<lambda>r r'. step r = Some r')\<^sup>*\<^sup>*"

lemma alone_step: "step r = Some r1 \<Longrightarrow> alone step r1 r2 \<Longrightarrow> alone step r r2"
  by (rule converse_rtranclp_into_rtranclp)

lemma alone_reaches:
  assumes "alone (worker_step dp) r r'" "bridge_reaches dp w movement heartbeat r"
  shows "bridge_reaches dp w movement heartbeat r'"
  using assms unfolding bridge_reaches_def
  by (induction rule: rtranclp_induct) (auto intro: rtranclp.rtrancl_into_rtrancl bridge_step.worker)

lemma alone_reaches_handler:
  assumes "alone (handler_step dp) r r'" "bridge_reaches dp w movement heartbeat r"
  shows "bridge_reaches dp w movement heartbeat r'"
  using assms unfolding bridge_reaches_def
  by (induction rule: rtranclp_induct) (auto intro: rtranclp.rtrancl_into_rtrancl bridge_step.handler)

definition at_pc :: "'c running \<Rightarrow> worker_pc \<Rightarrow> position_filter \<Rightarrow> 'c world \<Rightarrow> 'c running" where
  "at_pc r pc f w = r\<lparr>rnWorld := w, rnFilter := f, rnWorker := pc\<rparr>"

lemma at_pc_fields [simp]:
  "rnWorld (at_pc r pc f w) = w" "rnFilter (at_pc r pc f w) = f" "rnWorker (at_pc r pc f w) = pc"
  "rnLast (at_pc r pc f w) = rnLast r" "rnOutcomes (at_pc r pc f w) = rnOutcomes r" "rnHandler (at_pc r pc f w) = rnHandler r"
  by (simp_all add: at_pc_def)

lemma at_pc_updates [simp]:
  "(at_pc r pc f w)\<lparr>rnWorld := w'\<rparr> = at_pc r pc f w'"
  "(at_pc r pc f w)\<lparr>rnFilter := f'\<rparr> = at_pc r pc f' w"
  "(at_pc r pc f w)\<lparr>rnWorker := pc'\<rparr> = at_pc r pc' f w"
  "(at_pc r pc f w)\<lparr>rnLast := l\<rparr> = at_pc (r\<lparr>rnLast := l\<rparr>) pc f w"
  "(at_pc r pc f w)\<lparr>rnOutcomes := outs\<rparr> = at_pc (r\<lparr>rnOutcomes := outs\<rparr>) pc f w"
  by (simp_all add: at_pc_def)

text \<open>The run after a round that logged \<open>outs\<close> and ended with \<open>e\<close>.\<close>

definition logged :: "go_error option \<Rightarrow> (delivery \<times> outcome) list \<Rightarrow> 'c running \<Rightarrow> 'c running" where
  "logged e outs r =
     r\<lparr>rnOutcomes := rnOutcomes r @ outs, rnLast := (if e = None then rnLast r else Failed)\<rparr>"

lemma logged_fields [simp]:
  "rnOutcomes (logged e outs r) = rnOutcomes r @ outs" "rnLast (logged None outs r) = rnLast r"
  "rnHandler (logged e outs r) = rnHandler r" "logged None [] r = r"
  "logged e outs (logged None outs' r) = logged e (outs' @ outs) r"
  by (simp_all add: logged_def)

lemma deliver_one_alone:
  assumes "deliver_one (env_of dp) (dpDistance dp) (dpTimeout dp) d f w = Some (e, f', w')"
  shows "alone (worker_step dp) (at_pc r (Delivering (d # ds)) f w)
    (at_pc (logged e [(d, outcome_of (env_of dp) (dpDistance dp) (dpTimeout dp) d f w)] r)
       (if e = None then Delivering ds else Waiting) f' w')"
proof -
  obtain pos b f1 where p: "prepare (dpDistance dp) f d = ((pos, b), f1)" by (metis surj_pair)
  obtain x w1 where x: "wPublish (env_of dp) (request_timeout (dpTimeout dp)) pos w = (x, w1)" by fastforce
  have last: "alone (worker_step dp) (at_pc r (Settling d out ds) f1 v)
      (at_pc (logged e [(d, out)] r) (if e = None then Delivering ds else Waiting) f' w')"
    if "settle (env_of dp) d out f1 v = Some (e, f', w')" for out v
    using that by (cases e) (auto intro!: r_into_rtranclp simp: worker_step_def logged_def)
  show ?thesis
  proof (cases b)
    case True
    then have out: "outcome_of (env_of dp) (dpDistance dp) (dpTimeout dp) d f w = publish_outcome pos x"
      by (simp add: outcome_of_def p x publish_outcome_def)
    from True have "settle (env_of dp) d (publish_outcome pos x) f1 w1 = Some (e, f', w')"
      using assms by (simp add: deliver_one_steps p x)
    note settled = last [OF this]
    have s1: "worker_step dp (at_pc r (Delivering (d # ds)) f w) = Some (at_pc r (Publishing d pos ds) f1 w)"
      using True p by (simp add: worker_step_def)
    have s2: "worker_step dp (at_pc r (Publishing d pos ds) f1 w) = Some (at_pc r (Settling d (publish_outcome pos x) ds) f1 w1)"
      using x by (simp add: worker_step_def)
    show ?thesis
      unfolding out by (rule alone_step [of "worker_step dp", OF s1 alone_step [of "worker_step dp", OF s2 settled]])
  next
    case False
    then have out: "outcome_of (env_of dp) (dpDistance dp) (dpTimeout dp) d f w = Suppressed"
      by (simp add: outcome_of_def p)
    from False have "settle (env_of dp) d Suppressed f1 w = Some (e, f', w')"
      using assms by (simp add: deliver_one_steps p)
    note settled = last [OF this]
    have s1: "worker_step dp (at_pc r (Delivering (d # ds)) f w) = Some (at_pc r (Settling d Suppressed ds) f1 w)"
      using False p by (simp add: worker_step_def)
    show ?thesis unfolding out by (rule alone_step [of "worker_step dp", OF s1 settled])
  qed
qed

lemma deliver_all_alone:
  "deliver_all (env_of dp) (dpDistance dp) (dpTimeout dp) ds f w = Some (e, f', w') \<Longrightarrow>
    alone (worker_step dp) (at_pc r (Delivering ds) f w)
      (at_pc (logged e (outcomes (env_of dp) (dpDistance dp) (dpTimeout dp) ds f w) r)
         (if e = None then Delivering [] else Waiting) f' w')"
proof (induction ds arbitrary: f w r)
  case (Cons d ds)
  obtain e1 f1 w1 where o: "deliver_one (env_of dp) (dpDistance dp) (dpTimeout dp) d f w = Some (e1, f1, w1)"
    using Cons.prems by (auto split: option.splits)
  note one = deliver_one_alone [OF o, of r ds]
  show ?case
  proof (cases e1)
    case None
    with Cons.prems o have "deliver_all (env_of dp) (dpDistance dp) (dpTimeout dp) ds f1 w1 = Some (e, f', w')" by simp
    from Cons.IH [OF this, of "logged None [(d, outcome_of (env_of dp) (dpDistance dp) (dpTimeout dp) d f w)] r"]
    have "alone (worker_step dp) (at_pc (logged None [(d, outcome_of (env_of dp) (dpDistance dp) (dpTimeout dp) d f w)] r)
        (Delivering ds) f1 w1) (at_pc (logged e (outcomes (env_of dp) (dpDistance dp) (dpTimeout dp) (d # ds) f w) r)
          (if e = None then Delivering [] else Waiting) f' w')"
      using None o by simp
    with one None show ?thesis by (auto intro: rtranclp_trans)
  next
    case (Some err)
    then have "e = Some err" "f' = f1" "w' = w1" using Cons.prems o by simp_all
    with one Some o show ?thesis by simp
  qed
qed simp

text \<open>How a loop that returned with \<open>e\<close> leaves the history variable.\<close>

fun ended_with :: "go_error option \<Rightarrow> last_round \<Rightarrow> bool" where
  "ended_with (Some e) l = (l = Failed)"
| "ended_with None l = (\<exists>rows T. l = Emptied rows T)"

lemma drain_loop_alone:
  "drain_loop (env_of dp) (dpDistance dp) (dpTimeout dp) f w = Some (e, f', w') \<Longrightarrow>
    \<exists>l outs. ended_with e l \<and> alone (worker_step dp) (at_pc r Querying f w)
      (at_pc (r\<lparr>rnOutcomes := rnOutcomes r @ outs, rnLast := l\<rparr>) Waiting f' w')"
proof (induction "env_of dp" "dpDistance dp" "dpTimeout dp" f w "(e, f', w')" arbitrary: r
    rule: drain_loop.raw_induct [rotated 1, consumes 1, case_names 1])
  case (1 loop f w)
  obtain out w1 where q: "wPending (env_of dp) 50 w = (out, w1)" by fastforce
  show ?case
  proof (cases out)
    case (Inl err)
    with 1(2) q have "e = Some err" "f' = f" "w' = w1" by (simp_all add: drain_def)
    with q Inl show ?thesis
      by (intro exI [of _ Failed] exI [of _ "[]"]) (auto intro!: r_into_rtranclp simp: worker_step_def at_pc_def)
  next
    case (Inr ds)
    obtain e1 f1 w2 where a: "deliver_all (env_of dp) (dpDistance dp) (dpTimeout dp) ds f w1 = Some (e1, f1, w2)"
      using 1(2) q Inr by (auto simp: drain_def split: option.splits)
    show ?thesis
    proof (cases ds)
      case Nil
      with 1(2) q Inr have "e = None" "f' = f" "w' = w1" by (simp_all add: drain_def)
      with q Inr Nil show ?thesis
        by (intro exI [of _ "Emptied (deliveries (wdDb w)) (wNow (env_of dp) w)"] exI [of _ "[]"])
          (auto intro!: r_into_rtranclp simp: worker_step_def at_pc_def)
    next
      case (Cons d ds')
      define outs where "outs = outcomes (env_of dp) (dpDistance dp) (dpTimeout dp) ds f w1"
      have head: "worker_step dp (at_pc r Querying f w) = Some (at_pc r (Delivering ds) f w1)"
        using q Inr Cons by (simp add: worker_step_def)
      note all = alone_step [of "worker_step dp", OF head deliver_all_alone [OF a], folded outs_def]
      show ?thesis
      proof (cases e1)
        case (Some err)
        with 1(2) q Inr a have "e = Some err" "f' = f1" "w' = w2" by (simp_all add: drain_def)
        with all Some show ?thesis by (intro exI [of _ Failed] exI [of _ outs]) (simp add: logged_def at_pc_def)
      next
        case None
        have "worker_step dp (at_pc (logged None outs r) (Delivering []) f1 w2) = Some (at_pc (logged None outs r) Querying f1 w2)"
          by (simp add: worker_step_def)
        then have again: "alone (worker_step dp) (at_pc r Querying f w) (at_pc (logged None outs r) Querying f1 w2)"
          using all None by (simp add: rtranclp.rtrancl_into_rtrancl)
        have "loop (env_of dp) (dpDistance dp) (dpTimeout dp) f1 w2 = Some (e, f', w')"
          using 1(2) q Inr a None Cons by (simp add: drain_def split: if_splits)
        from 1(1) [OF this, of "logged None outs r"] obtain l outs' where "ended_with e l"
          "alone (worker_step dp) (at_pc (logged None outs r) Querying f1 w2)
            (at_pc ((logged None outs r)\<lparr>rnOutcomes := rnOutcomes (logged None outs r) @ outs', rnLast := l\<rparr>) Waiting f' w')"
          by blast
        with again show ?thesis
          by (intro exI [of _ l] exI [of _ "outs @ outs'"]) (auto simp: logged_def intro: rtranclp_trans)
      qed
    qed
  qed
qed

text \<open>The handler: one message, handled from start to end with no step of the worker in between.\<close>

definition at_message :: "'c running \<Rightarrow> handler_pc \<Rightarrow> ingest_state \<Rightarrow> 'c world \<Rightarrow> 'c running" where
  "at_message r pc st w = r\<lparr>rnWorld := w, rnIngest := st, rnHandler := pc\<rparr>"

lemma at_message_fields [simp]:
  "rnWorld (at_message r pc st w) = w" "rnIngest (at_message r pc st w) = st" "rnHandler (at_message r pc st w) = pc"
  "rnHandled (at_message r pc st w) = rnHandled r"
  by (simp_all add: at_message_def)

lemma at_message_updates [simp]:
  "(at_message r pc st w)\<lparr>rnWorld := w'\<rparr> = at_message r pc st w'"
  "(at_message r pc st w)\<lparr>rnIngest := st'\<rparr> = at_message r pc st' w"
  "(at_message r pc st w)\<lparr>rnHandler := pc'\<rparr> = at_message r pc' st w"
  "(at_message r pc st w)\<lparr>rnHandled := ms\<rparr> = at_message (r\<lparr>rnHandled := ms\<rparr>) pc st w"
  by (simp_all add: at_message_def)

lemma same_handled [simp]: "r\<lparr>rnHandled := rnHandled r\<rparr> = (r :: 'c running)"
  by simp

text \<open>After \<open>Handle\<close> returned \<open>e\<close> for \<open>m\<close>.\<close>

definition after_message :: "'c running \<Rightarrow> go_error option \<Rightarrow> from_radio \<Rightarrow> ingest_state \<Rightarrow> 'c world \<Rightarrow> 'c running" where
  "after_message r e m st w =
     (if e = None then at_message (r\<lparr>rnHandled := rnHandled r @ [m]\<rparr>) Idle st w else at_message r (Received m) st w)"

lemma handle_packet_alone:
  assumes "packet_of m = Some p" "handle_packet (dpLib dp) (service_of dp) p st w = (e, st', w')"
  shows "alone (handler_step dp) (at_message r (Received m) st w) (after_message r e m st' w')"
proof -
  let ?sv = "service_of dp" and ?at = "at_message r"
  obtain l st1 w1 where l: "learn_node (dpLib dp) ?sv p st w = (l, st1, w1)" by (metis surj_pair)
  obtain pk pos where d: "DecodeWithOptions (dpLib dp) p (svNow ?sv w1) (svDecodePositionApp ?sv) = (pk, pos)" by fastforce
  obtain q w2 where q: "resolve_callsign ?sv pos w1 = (q, w2)" by fastforce
  obtain a w3 where a: "svArchive ?sv pk (projr q) (svEnqueueCalTopo ?sv) w2 = (a, w3)" by fastforce
  obtain st2 w4 where n: "announce ?sv pk (projr q) (projr a) st1 w3 = (st2, w4)" by fastforce
  have s1: "handler_step dp (?at (Received m) st w) =
      Some (if l = None then ?at (Resolving m pk pos) st1 w1 else ?at (Received m) st1 w1)"
    using assms(1) l d by (simp add: handler_step_def Let_def split: option.split)
  have s2: "handler_step dp (?at (Resolving m pk pos) st1 w1) =
      Some (if isl q then ?at (Received m) st1 w2 else ?at (Storing m pk (projr q)) st1 w2)"
    using q by (cases q) (simp_all add: handler_step_def Let_def)
  have s3: "handler_step dp (?at (Storing m pk (projr q)) st1 w2) =
      Some (if isl a then ?at (Received m) st1 w3 else ?at (Announcing m pk (projr q) (projr a)) st1 w3)"
    using a by (cases a) (simp_all add: handler_step_def Let_def)
  have s4: "handler_step dp (?at (Announcing m pk (projr q) (projr a)) st1 w3) = Some (after_message r None m st2 w4)"
    using n by (simp add: handler_step_def after_message_def Let_def)
  note step = alone_step [of "handler_step dp"] and refl = rtranclp.rtrancl_refl
  have "(e, st', w') = (case l of Some err \<Rightarrow> (Some err, st1, w1) | None \<Rightarrow>
      (case q of Inl err \<Rightarrow> (Some err, st1, w2) | Inr pos' \<Rightarrow>
        (case a of Inl err \<Rightarrow> (Some err, st1, w3) | Inr ids \<Rightarrow> (None, st2, w4))))"
    using assms(2) l d q a n by (auto simp: handle_packet_def split: option.splits sum.splits prod.splits)
  then consider (learn) err where "l = Some err" "e = Some err" "st' = st1" "w' = w1"
    | (resolve) err where "l = None" "q = Inl err" "e = Some err" "st' = st1" "w' = w2"
    | (archive) pos' err where "l = None" "q = Inr pos'" "a = Inl err" "e = Some err" "st' = st1" "w' = w3"
    | (success) pos' ids where "l = None" "q = Inr pos'" "a = Inr ids" "e = None" "st' = st2" "w' = w4"
    by (cases l; cases q; cases a) simp_all
  then show ?thesis
  proof cases
    case learn
    show ?thesis using step [OF s1 refl] learn by (simp add: after_message_def)
  next
    case resolve
    note eqs = s1 [simplified resolve, simplified] s2 [simplified resolve, simplified]
    show ?thesis using step [OF eqs(1) step [OF eqs(2) refl]] resolve by (simp add: after_message_def)
  next
    case archive
    note eqs = s1 [simplified archive, simplified] s2 [simplified archive, simplified] s3 [simplified archive, simplified]
    show ?thesis using step [OF eqs(1) step [OF eqs(2) step [OF eqs(3) refl]]] archive by (simp add: after_message_def)
  next
    case success
    note eqs = s1 [simplified success, simplified] s2 [simplified success, simplified]
      s3 [simplified success, simplified] s4 [simplified success, simplified]
    show ?thesis using step [OF eqs(1) step [OF eqs(2) step [OF eqs(3) step [OF eqs(4) refl]]]] success by simp
  qed
qed

lemma Handle_alone:
  assumes "Handle (dpLib dp) (service_of dp) m st w = (e, st', w')"
  shows "alone (handler_step dp) (at_message r (Received m) st w) (after_message r e m st' w')"
proof (cases "packet_of m")
  case None
  with assms show ?thesis
    by (cases e) (auto intro!: r_into_rtranclp simp: handler_step_def after_message_def Let_def)
next
  case (Some p)
  show ?thesis by (rule handle_packet_alone [OF Some]) (use assms Some in \<open>simp add: Handle_packet\<close>)
qed

section \<open>A marked delivery is there to be marked\<close>

lemma update_pending_hits:
  assumes "db_wf d" "i \<in> pending_where (\<lambda>_. True) d"
  shows "fst (update_pending no_faults what i f d) = None"
proof -
  obtain r where "r \<in> set (deliveries d)" "drState r = Pending" "drId r = i"
    using assms(2) by (auto simp: pending_where_def)
  with matching_one [OF assms(1)] show ?thesis by (auto simp: update_pending_def requireChanged_def)
qed

lemma settle_hits:
  assumes "world_ok w" "dvID d \<in> outstanding w" "io_at (dpSchedule dp) w = no_faults"
    and "settle (env_of dp) d out f w = Some (e, f', w')"
  shows "e = None"
proof -
  have "fst (update_pending no_faults what (dvID d) g (wdDb w)) = None" for what g
    using update_pending_hits assms(1,2) by (simp add: world_ok_def outstanding_def)
  then have "fst (wMarkDelivered (env_of dp) (dvID d) w) = None"
      "fst (wMarkFailed (env_of dp) (dvID d) n t False err w) = None" for n t err
    using assms(3)
    by (simp_all add: env_of_def world_env_def on_db_def MarkDelivered_def MarkFailed_def case_prod_beta)
  with assms(4) show ?thesis
    by (cases out) (auto simp: settle_def Let_def case_prod_beta split: option.splits)
qed

section \<open>Examples\<close>

definition sample_deployment :: "unit deployment" where
  "sample_deployment = \<lparr>dpLib = sample_lib, dpSum = sample_hash, dpClient = sample_client,
     dpSchedule = standing (\<lambda>_. no_faults) (2 * second), dpGroup = ''mesh'', dpMapID = ''ABC'',
     dpDecodePositionApp = True, dpDistance = (\<lambda>_ _. 0), dpTimeout = 0\<rparr>"

abbreviation sample_start :: "unit world \<Rightarrow> unit running" where
  "sample_start w \<equiv> started w (Fin 25) (300 * second)"

text \<open>The worker's first token is taken.\<close>

lemma first_token:
  "bridge_reaches dp w movement heartbeat
     ((started w movement heartbeat)\<lparr>rnWorld := w\<lparr>wdWake := False\<rparr>, rnWorker := Querying\<rparr>)"
proof -
  let ?r = "started w movement heartbeat"
  let ?r1 = "?r\<lparr>rnWorld := Wake w, rnWorker := Waiting\<rparr>"
  have "bridge_step dp ?r ?r1" by (rule bridge_step.worker) (simp add: worker_step_def started_def)
  moreover have "bridge_step dp ?r1 (?r1\<lparr>rnWorld := (rnWorld ?r1)\<lparr>wdWake := False\<rparr>, rnWorker := Querying\<rparr>)"
    by (rule bridge_step.token) (simp_all add: Wake_def)
  ultimately show ?thesis
    unfolding bridge_reaches_def by (simp add: Wake_def started_def)
qed

lemma bridge_reaches_worker:
  "bridge_reaches dp w movement heartbeat r \<Longrightarrow> worker_step dp r = Some r' \<Longrightarrow> bridge_reaches dp w movement heartbeat r'"
  unfolding bridge_reaches_def by (erule rtranclp.rtrancl_into_rtrancl) (rule bridge_step.worker)

lemma empty_pending:
  "wPending (world_env c (standing (\<lambda>_. no_faults) T) grp mid) 50 (empty_world\<lparr>wdWake := b\<rparr>) =
     (Inr [], tick (empty_world\<lparr>wdWake := b\<rparr>))"
  by (simp add: world_env_def on_db_def empty_world_def empty_db_def PendingDeliveries_def pending_rows_def
      joined_def limit_rows_def io_at_def standing_def)

section \<open>Catching up\<close>

text \<open>
  From every reachable state in which the worker sleeps, the ticker and its own steps lead, while the
  clock stands, to its being asleep again; then either its round failed or nothing is due.
\<close>

lemma worker_catches_up:
  assumes "bridge_reaches dp w movement heartbeat r" "world_ok w" "clock_ok T"
    and "dpSchedule dp = standing fs T" "rnWorker r = Waiting"
  shows "\<exists>r'. bridge_reaches dp w movement heartbeat r' \<and> rnWorker r' = Waiting \<and> rnHandler r' = rnHandler r \<and>
    alone (worker_step dp) (r\<lparr>rnWorker := Querying\<rparr>) r' \<and>
    (rnLast r' = Failed \<or> (\<exists>rows t. rnLast r' = Emptied rows t) \<and> (\<forall>x. is_head (wdDb (rnWorld r')) x \<longrightarrow> \<not> due T x))"
proof -
  have ok: "world_ok (rnWorld r)" "filter_ok (rnFilter r)"
    using bridge_reaches_ok [OF assms(1,2)] by (simp_all add: running_ok_def)
  obtain e f' w' where l: "drain_loop (env_of dp) (dpDistance dp) (dpTimeout dp) (rnFilter r) (rnWorld r) = Some (e, f', w')"
      "e = None \<longrightarrow> (\<forall>x. is_head (wdDb w') x \<longrightarrow> \<not> due T x)"
    unfolding env_of_def assms(4) using drain_loop_returns [OF ok(1) assms(3) ok(2)] by blast
  have "bridge_step dp r (r\<lparr>rnWorker := Querying\<rparr>)" by (rule bridge_step.ticker [OF assms(5)])
  with assms(1) have q: "bridge_reaches dp w movement heartbeat (at_pc r Querying (rnFilter r) (rnWorld r))"
    unfolding bridge_reaches_def by (simp add: at_pc_def rtranclp.rtrancl_into_rtrancl)
  obtain l' outs where lr: "ended_with e l'" "alone (worker_step dp) (at_pc r Querying (rnFilter r) (rnWorld r))
      (at_pc (r\<lparr>rnOutcomes := rnOutcomes r @ outs, rnLast := l'\<rparr>) Waiting f' w')"
    using drain_loop_alone [OF l(1)] by blast
  have "at_pc r Querying (rnFilter r) (rnWorld r) = r\<lparr>rnWorker := Querying\<rparr>" by (simp add: at_pc_def)
  then show ?thesis
    using alone_reaches [OF lr(2) q] lr l(2)
    by (intro exI [of _ "at_pc (r\<lparr>rnOutcomes := rnOutcomes r @ outs, rnLast := l'\<rparr>) Waiting f' w'"]) (cases e; auto)
qed

text \<open>A run that has published a position and is about to mark its delivery.\<close>

lemma sample_settling:
  "\<exists>r d pos ds. bridge_reaches sample_deployment sample_world (Fin 25) (300 * second) r \<and>
     rnWorker r = Settling d (Published pos) ds \<and> rnOutcomes r = []"
proof -
  let ?dp = "sample_deployment" and ?env = "env_of sample_deployment"
  let ?w = "sample_world\<lparr>wdWake := False\<rparr>"
  let ?r = "(sample_start sample_world)\<lparr>rnWorld := ?w, rnWorker := Querying\<rparr>"
  have same: "?w = sample_world" by (simp add: sample_world_def)
  obtain d ds where "wPending ?env 50 ?w = (Inr (d # ds), tick ?w)"
    using sample_given unfolding same env_of_def sample_deployment_def by simp blast
  then have s1: "worker_step ?dp ?r = Some (at_pc ?r (Delivering (d # ds)) sample_filter (tick ?w))"
    by (simp add: worker_step_def at_pc_def started_def sample_filter_def)
  obtain f pos where p: "prepare (\<lambda>_ _. 0) sample_filter d = ((pos, True), f)"
    by (simp add: prepare_def Let_def decide_def node_state_def sample_filter_def newPositionFilter_def)
  have s2: "worker_step ?dp (at_pc ?r (Delivering (d # ds)) sample_filter (tick ?w)) =
      Some (at_pc ?r (Publishing d pos ds) f (tick ?w))"
    using p by (simp add: worker_step_def sample_deployment_def)
  have "fst (wPublish ?env t pos (tick ?w)) = None" for t
    by (simp add: tick_def sample_world_def sample_queue_def env_of_def sample_deployment_def world_defs sample_client_def
        Publish_def ensureOpen_def createAndSaveTrack_def reconcileOrCreate_def on_db_def on_client_def TrackID_def
        SaveTrack_def upsert_track_def update_track_def is_not_found_def io_at_def standing_def Let_def)
  then obtain w2 where w2: "wPublish ?env (request_timeout (dpTimeout ?dp)) pos (tick ?w) = (None, w2)"
    by (metis prod.collapse)
  have s3: "worker_step ?dp (at_pc ?r (Publishing d pos ds) f (tick ?w)) =
      Some (at_pc ?r (Settling d (Published pos) ds) f w2)"
    using w2 by (simp add: worker_step_def publish_outcome_def)
  have r: "bridge_reaches ?dp sample_world (Fin 25) (300 * second) (at_pc ?r (Settling d (Published pos) ds) f w2)"
    by (rule bridge_reaches_worker [OF bridge_reaches_worker [OF bridge_reaches_worker [OF first_token s1] s2] s3])
  then show ?thesis
    by (intro exI [of _ "at_pc ?r (Settling d (Published pos) ds) f w2"]) (auto simp: at_pc_def started_def)
qed

section \<open>Properties\<close>

text \<open>
  C5: No wake-up is lost, however the handler and the worker are interleaved, whatever the radio sends and
  whichever calls fail: when the worker sleeps, there is no token in its channel and the handler is
  not about to put one there, then the worker's last round failed and waits for the ticker, or the
  queue is still exactly as its last query saw it and no head of a node's queue was due then.
\<close>
theorem no_lost_wakeup:
  assumes "bridge_reaches dp w movement heartbeat r" "world_ok w"
    and "rnWorker r = Waiting" "\<not> wdWake (rnWorld r)" "\<not> about_to_wake (rnHandler r)"
  shows "case rnLast r of
      NeverRan \<Rightarrow> False
    | Failed \<Rightarrow> True
    | Emptied rows T \<Rightarrow> deliveries (wdDb (rnWorld r)) = rows \<and>
        (\<forall>x. is_head (wdDb (rnWorld r)) x \<longrightarrow> \<not> due T x)"
  using bridge_reaches_ok [OF assms(1,2)] assms(3-5)
  by (cases "rnLast r") (simp_all add: running_ok_def asleep_ok_def nothing_due_def)

theorem no_lost_wakeup_witness:
  "\<exists>r. bridge_reaches sample_deployment empty_world (Fin 25) (300 * second) r \<and> rnWorker r = Waiting \<and>
     rnLast r = Emptied [] (2 * second) \<and> deliveries (wdDb (rnWorld r)) = []"
proof -
  let ?r = "(sample_start empty_world)\<lparr>rnWorld := empty_world\<lparr>wdWake := False\<rparr>, rnWorker := Querying\<rparr>"
  let ?r' = "?r\<lparr>rnWorld := tick (empty_world\<lparr>wdWake := False\<rparr>), rnWorker := Waiting, rnLast := Emptied [] (2 * second)\<rparr>"
  have "worker_step sample_deployment ?r = Some ?r'"
    by (simp add: worker_step_def env_of_def sample_deployment_def empty_pending)
      (simp add: world_env_def empty_world_def empty_db_def)
  then have r: "bridge_reaches sample_deployment empty_world (Fin 25) (300 * second) ?r'"
    by (rule bridge_reaches_worker [OF first_token])
  have "world_ok empty_world" by (simp add: world_ok_def empty_world_def empty_db_def db_wf_empty [unfolded empty_db_def])
  from no_lost_wakeup [OF r this] r show ?thesis
    by (intro exI [of _ ?r']) (simp add: tick_def started_def)
qed

text \<open>
  C16: The worker never panics and is never stuck: in every interleaving it can make its next step unless it
  waits in its \<open>select\<close> or has returned, and the deliveries it holds are distinct and still
  outstanding.
\<close>
theorem worker_never_stuck:
  assumes "bridge_reaches dp w movement heartbeat r" "world_ok w"
  shows "(worker_step dp r \<noteq> None \<or> rnWorker r = Waiting \<or> rnWorker r = Stopped) \<and>
    distinct (map dvID (in_hand (rnWorker r))) \<and> dvID ` set (in_hand (rnWorker r)) \<subseteq> outstanding (rnWorld r)"
  using worker_step_total [OF bridge_reaches_ok [OF assms], of dp] bridge_reaches_ok [OF assms]
  by (auto simp: running_ok_def hand_ok_def)

theorem worker_never_stuck_witness:
  "worker_step sample_deployment ((sample_start sample_world)\<lparr>rnWorld := sample_world\<lparr>wdWake := False\<rparr>, rnWorker := Querying\<rparr>) \<noteq> None"
  using worker_never_stuck [OF first_token sample_world_ok, of sample_deployment "Fin 25" "300 * second"] by simp

text \<open>
  C25: A decision is always recorded: whatever ran in between, when the worker comes to mark a delivery as
  done or to note its failure, the row is there and still pending, so that only the database driver
  can make the mark report an error; the worker then goes on with the rest of its batch.
\<close>
theorem mark_never_misses:
  assumes "bridge_reaches dp w movement heartbeat r" "world_ok w"
    and "rnWorker r = Settling d out ds" "io_at (dpSchedule dp) (rnWorld r) = no_faults"
  shows "\<exists>f w'. worker_step dp r =
      Some (r\<lparr>rnWorld := w', rnFilter := f, rnWorker := Delivering ds, rnOutcomes := rnOutcomes r @ [(d, out)]\<rparr>) \<and>
    (out \<noteq> Suppressed \<and> (\<forall>pos. out \<noteq> Published pos) \<or> dvID d \<notin> outstanding w')"
proof -
  note ok = bridge_reaches_ok [OF assms(1,2)]
  have pre: "world_ok (rnWorld r)" "filter_ok (rnFilter r)" "decided out (pfPrepared (rnFilter r) (dvID d))"
      "0 \<le> dvAttempts d" "dvID d \<in> outstanding (rnWorld r)"
    using ok assms(3) by (simp_all add: running_ok_def hand_ok_def)
  obtain e f w' where s: "settle (env_of dp) d out (rnFilter r) (rnWorld r) = Some (e, f, w')"
    unfolding env_of_def using queue.settle_queue [OF pre(1-4)] by blast
  have e: "e = None" by (rule settle_hits [OF pre(1,5) assms(4) s])
  have "dvID d \<notin> outstanding w'" if "out = Suppressed \<or> (\<exists>pos. out = Published pos)"
  proof -
    from that s e have "wMarkDelivered (env_of dp) (dvID d) (rnWorld r) = (None, w')"
      by (auto simp: settle_def Let_def split: prod.splits option.splits)
    then show ?thesis using queue.delivered [OF pre(1)] unfolding env_of_def by blast
  qed
  with s e assms(3) show ?thesis by (auto simp: worker_step_def)
qed

theorem mark_never_misses_witness:
  "\<exists>r d pos ds f w'. rnWorker r = Settling d (Published pos) ds \<and>
     worker_step sample_deployment r =
       Some (r\<lparr>rnWorld := w', rnFilter := f, rnWorker := Delivering ds, rnOutcomes := rnOutcomes r @ [(d, Published pos)]\<rparr>) \<and>
     dvID d \<notin> outstanding w'"
proof -
  obtain r d pos ds where r: "bridge_reaches sample_deployment sample_world (Fin 25) (300 * second) r"
      "rnWorker r = Settling d (Published pos) ds"
    using sample_settling by blast
  have "io_at (dpSchedule sample_deployment) (rnWorld r) = no_faults"
    by (simp add: io_at_def sample_deployment_def standing_def)
  from mark_never_misses [OF r(1) sample_world_ok r(2) this] r(2) show ?thesis by blast
qed

text \<open>
  C21: The steps are the code's: run without interference, the worker's steps from its query on are
  \<open>drain_loop\<close>, with its result, its filter and its effects, and the handler's steps on a message are
  \<open>Handle\<close>; after an error the same message is at hand again.
\<close>
theorem steps_compose:
  assumes "drain_loop (env_of dp) (dpDistance dp) (dpTimeout dp) (rnFilter r) (rnWorld r) = Some (e, f', w')"
    and "Handle (dpLib dp) (service_of dp) m (rnIngest r) (rnWorld r) = (e2, st', w2)"
  shows "(rnWorker r = Querying \<longrightarrow> (\<exists>l outs. ended_with e l \<and> alone (worker_step dp) r
      (r\<lparr>rnOutcomes := rnOutcomes r @ outs, rnLast := l, rnWorld := w', rnFilter := f', rnWorker := Waiting\<rparr>))) \<and>
    (rnHandler r = Received m \<longrightarrow> alone (handler_step dp) r
      (if e2 = None then r\<lparr>rnHandled := rnHandled r @ [m], rnWorld := w2, rnIngest := st', rnHandler := Idle\<rparr>
       else r\<lparr>rnWorld := w2, rnIngest := st'\<rparr>))"
proof (intro conjI impI)
  assume "rnWorker r = Querying"
  then have eq: "at_pc r Querying (rnFilter r) (rnWorld r) = r" by (simp add: at_pc_def)
  show "\<exists>l outs. ended_with e l \<and> alone (worker_step dp) r
      (r\<lparr>rnOutcomes := rnOutcomes r @ outs, rnLast := l, rnWorld := w', rnFilter := f', rnWorker := Waiting\<rparr>)"
    using drain_loop_alone [OF assms(1), of r]
    unfolding eq by (simp add: at_pc_def)
next
  assume "rnHandler r = Received m"
  then have eq: "at_message r (Received m) (rnIngest r) (rnWorld r) = r"
    and "rnHandler r = Received m" by (simp_all add: at_message_def)
  then have "at_message r (Received m) st' w2 = r\<lparr>rnWorld := w2, rnIngest := st'\<rparr>" by (simp add: at_message_def)
  with Handle_alone [OF assms(2), of r]
  show "alone (handler_step dp) r
      (if e2 = None then r\<lparr>rnHandled := rnHandled r @ [m], rnWorld := w2, rnIngest := st', rnHandler := Idle\<rparr>
       else r\<lparr>rnWorld := w2, rnIngest := st'\<rparr>)"
    unfolding eq after_message_def by (cases e2) (simp_all add: at_message_def)
qed

theorem steps_compose_witness:
  "\<exists>l outs f' w'. ended_with None l \<and> alone (worker_step sample_deployment)
     ((sample_start empty_world)\<lparr>rnWorker := Querying\<rparr>)
     ((sample_start empty_world)\<lparr>rnOutcomes := outs, rnLast := l, rnWorld := w', rnFilter := f', rnWorker := Waiting\<rparr>)"
proof -
  let ?r = "(sample_start empty_world)\<lparr>rnWorker := Querying\<rparr>"
  have "wPending (env_of sample_deployment) 50 empty_world = (Inr [], tick empty_world)"
    using empty_pending [where b = False] by (simp add: env_of_def sample_deployment_def empty_world_def)
  then have d: "drain_loop (env_of sample_deployment) (dpDistance sample_deployment) (dpTimeout sample_deployment)
      (rnFilter ?r) (rnWorld ?r) = Some (None, rnFilter ?r, tick empty_world)"
    by (subst drain_loop.simps) (simp add: drain_def started_def)
  obtain st' w2 where "Handle (dpLib sample_deployment) (service_of sample_deployment) sample_message (rnIngest ?r) (rnWorld ?r)
      = (None, st', w2)"
    unfolding service_of_def
    using Handle_succeeds [of empty_world "dpSchedule sample_deployment" sample_message "dpLib sample_deployment"
        "dpSum sample_deployment" True "dpDecodePositionApp sample_deployment" "rnIngest ?r"]
    by (auto simp: working_from_def sample_deployment_def standing_def empty_world_def db_wf_empty
        sample_message_packet sample_packet_def started_def)
  from steps_compose [OF d this] show ?thesis by (auto simp: started_def)
qed

end
