(* ===== verification/Bridge.thy ===== *)
theory Bridge
  imports SerialLive Intake
begin

text \<open>
  The intake side of the bridge as one machine: the serial source of \<^verbatim>\<open>internal/meshtastic\<close>, its
  handler \<open>Handle\<close> of \<^verbatim>\<open>internal/ingest\<close>, the decoder and the store, wired as in
  \<^verbatim>\<open>cmd/bridge/main.go\<close>. The serial port, the timers, the random numbers and the context are a script
  that gives for each call what it returns. The two interfaces of the serial source are interpreted
  on the machine, and the properties follow the bytes from the port into the tables.
\<close>

section \<open>The machine\<close>

record port_script =
  ptOpen :: "nat \<Rightarrow> go_error option"
  ptSetReadTimeout :: "nat \<Rightarrow> go_error option"
  ptClose :: "nat \<Rightarrow> go_error option"
  ptRead :: "nat \<Rightarrow> byte list \<times> go_error option"
  ptWrite :: "nat \<Rightarrow> byte list \<Rightarrow> int \<times> go_error option"
  ptDone :: "nat \<Rightarrow> bool"
  ptSleep :: "nat \<Rightarrow> bool"
  ptUint32 :: "nat \<Rightarrow> u32"
  ptInt64N :: "nat \<Rightarrow> int \<Rightarrow> int"

record radio_lib =
  marshal_request :: "u32 \<Rightarrow> byte list result"
  unmarshal_from_radio :: "byte list \<Rightarrow> from_radio result"

text \<open>
  \<open>mcReads\<close> and \<open>mcCalls\<close> are the places in the script, \<open>mcPorts\<close> counts the open ports. Two are history
  variables: \<open>mcWritten\<close> the bytes the port has taken, \<open>mcSlept\<close> the delays asked of the timer.
\<close>

record 'c machine =
  mcWorld :: "'c world"
  mcIngest :: ingest_state
  mcReads :: nat
  mcCalls :: nat
  mcPorts :: nat
  mcWritten :: "byte list"
  mcSlept :: "duration list"

definition called :: "(nat \<Rightarrow> 'a) \<Rightarrow> 'c machine \<Rightarrow> 'a \<times> 'c machine" where
  "called f s = (f (mcCalls s), s\<lparr>mcCalls := Suc (mcCalls s)\<rparr>)"

text \<open>The opener of \<open>NewSerialSource\<close>: a port whose read timeout cannot be set is closed again.\<close>

definition close_port :: "port_script \<Rightarrow> 'c machine \<Rightarrow> go_error option \<times> 'c machine" where
  "close_port port s = (case called (ptClose port) s of (r, s1) \<Rightarrow> (r, s1\<lparr>mcPorts := mcPorts s1 - 1\<rparr>))"

definition open_port :: "port_script \<Rightarrow> 'c machine \<Rightarrow> go_error option \<times> 'c machine" where
  "open_port port s =
     (case called (ptOpen port) s of
        (Some e, s1) \<Rightarrow> (Some e, s1)
      | (None, s1) \<Rightarrow>
      (case called (ptSetReadTimeout port) (s1\<lparr>mcPorts := Suc (mcPorts s1)\<rparr>) of
        (Some e, s2) \<Rightarrow> (case close_port port s2 of (closeErr, s3) \<Rightarrow> (Some e, s3))
      | (None, s2) \<Rightarrow> (None, s2)))"

definition bridge_source ::
  "pb_lib \<Rightarrow> radio_lib \<Rightarrow> port_script \<Rightarrow> 'c world service \<Rightarrow> (from_radio, 'c machine) source" where
  "bridge_source lib radio port sv =
     \<lparr>srOpen = open_port port, srClose = close_port port,
      srRead = \<lambda>s. (ptRead port (mcReads s), s\<lparr>mcReads := Suc (mcReads s)\<rparr>),
      srWrite = \<lambda>bs s. (case ptWrite port (mcCalls s) bs of
          (n, e) \<Rightarrow> ((n, e), s\<lparr>mcCalls := Suc (mcCalls s), mcWritten := mcWritten s @ take (nat n) bs\<rparr>)),
      srHandler = \<lambda>m s. (case Handle lib sv m (mcIngest s) (mcWorld s) of
          (r, st', w') \<Rightarrow> (r, s\<lparr>mcIngest := st', mcWorld := w'\<rparr>)),
      srDone = called (ptDone port),
      srSleep = \<lambda>d s. (ptSleep port (mcCalls s), s\<lparr>mcCalls := Suc (mcCalls s), mcSlept := mcSlept s @ [d]\<rparr>),
      srUint32 = called (ptUint32 port), srInt64N = \<lambda>n. called (\<lambda>k. ptInt64N port k n),
      srMarshalRequest = marshal_request radio, srUnmarshal = unmarshal_from_radio radio\<rparr>"

lemma unmarshal_source [simp]: "srUnmarshal (bridge_source lib radio port sv) = unmarshal_from_radio radio"
  by (simp add: bridge_source_def)

lemma called_eq: "called f s = (r, s') \<longleftrightarrow> r = f (mcCalls s) \<and> s' = s\<lparr>mcCalls := Suc (mcCalls s)\<rparr>"
  by (auto simp: called_def)

section \<open>What goes in and what is stored\<close>

definition bytes_read :: "port_script \<Rightarrow> 'c machine \<Rightarrow> byte list" where
  "bytes_read port s = concat (map (\<lambda>i. fst (ptRead port i)) [0..<mcReads s])"

definition raw_packets :: "db \<Rightarrow> byte list list" where
  "raw_packets d = map prRawPacket (packets d)"

text \<open>The bytes a message is archived as; one that carries no packet is not archived.\<close>

definition raw_of :: "pb_lib \<Rightarrow> from_radio \<Rightarrow> byte list list" where
  "raw_of lib m =
     (case packet_of m of
        None \<Rightarrow> []
      | Some p \<Rightarrow> [case marshal_packet lib p of Inl e \<Rightarrow> [] | Inr raw \<Rightarrow> raw])"

lemma decoded_raw:
  "pkRawPacket (fst (DecodeWithOptions lib p t app)) = (case marshal_packet lib p of Inl e \<Rightarrow> [] | Inr raw \<Rightarrow> raw)"
  by (simp add: DecodeWithOptions_def base_record_def Let_def split: sum.split option.split prod.split)

lemma Handle_raw:
  assumes "Handle lib (world_service sum256 sched enabled app) m st w = (r, st', w')"
  shows "raw_packets (wdDb w') = raw_packets (wdDb w) @ (if r = None then raw_of lib m else [])"
proof -
  have view: "raw_packets (wdDb v) = map prRawPacket (archive_view v)" for v :: "'a world"
    by (simp add: raw_packets_def archive_view_def)
  from intake.Handle_archived [OF assms] show ?thesis
    unfolding view by (auto simp: raw_of_def decoded_raw packet_row_of_def split: option.splits)
qed

interpretation radio: message_sink "bridge_source lib radio port (world_service sum256 sched enabled app)"
  "bytes_read port" "\<lambda>s. raw_packets (wdDb (mcWorld s))" "raw_of lib"
  by unfold_locales
    (auto simp: bridge_source_def called_eq bytes_read_def Handle_raw split: prod.splits)


interpretation ports: port_holder "bridge_source lib radio port (world_service sum256 sched enabled app)"
  "bytes_read port" "\<lambda>s. raw_packets (wdDb (mcWorld s))" "raw_of lib" mcPorts
  by unfold_locales
    (auto simp: bridge_source_def open_port_def close_port_def called_eq split: prod.splits option.splits,
     metis option.simps(3))

interpretation requests: request_writer "bridge_source lib radio port (world_service sum256 sched enabled app)"
  "bytes_read port" mcWritten
  by unfold_locales (auto simp: bridge_source_def called_eq bytes_read_def split: prod.splits)

interpretation timer: sleep_log "bridge_source lib radio port (world_service sum256 sched enabled app)" mcSlept
  by unfold_locales
    (auto simp: bridge_source_def open_port_def close_port_def called_eq split: prod.splits option.splits)

section \<open>When the environment lets it finish\<close>

text \<open>
  Nobody cancels, the port takes what is written, and the K-th read is the first to report an error.
\<close>

definition calm :: "port_script \<Rightarrow> nat \<Rightarrow> bool" where
  "calm port k \<longleftrightarrow> (\<forall>n. \<not> ptDone port n) \<and> (\<forall>n. ptSleep port n) \<and>
     (\<forall>n bs. bs \<noteq> [] \<longrightarrow> snd (ptWrite port n bs) = None \<and> 0 < fst (ptWrite port n bs) \<and>
        fst (ptWrite port n bs) \<le> int (length bs)) \<and>
     (\<forall>i < k. snd (ptRead port i) = None) \<and> snd (ptRead port k) \<noteq> None"

definition request_ok :: "radio_lib \<Rightarrow> bool" where
  "request_ok radio \<longleftrightarrow> (\<forall>u. \<exists>payload. marshal_request radio u = Inr payload \<and> valid_payload payload)"

definition snr_ok :: "from_radio \<Rightarrow> bool" where
  "snr_ok m \<longleftrightarrow> (\<forall>p. packet_of m = Some p \<longrightarrow> mpRxSnr p \<noteq> NaN)"

definition bytes_ahead :: "port_script \<Rightarrow> nat \<Rightarrow> 'c machine \<Rightarrow> byte list" where
  "bytes_ahead port k s = concat (map (\<lambda>i. fst (ptRead port i)) [mcReads s..<Suc k])"

definition mc_inv :: "radio_lib \<Rightarrow> port_script \<Rightarrow> nat \<Rightarrow> schedule \<Rightarrow> nat \<Rightarrow> 'c machine \<Rightarrow> bool" where
  "mc_inv radio port k sched N s \<longleftrightarrow>
     db_wf (wdDb (mcWorld s)) \<and> working_from N sched \<and> calm port k \<and> request_ok radio"

lemma Handle_error_early:
  assumes "Handle lib (world_service sum256 sched enabled app) m st w = (Some e, st', w')"
    and "working_from N sched" "db_wf (wdDb w)" "snr_ok m"
  shows "wdTick w < N"
proof (rule ccontr)
  assume "\<not> wdTick w < N"
  then have "working_from (wdTick w) sched" using assms(2) by (simp add: working_from_def)
  from Handle_succeeds [OF this assms(3), of m lib sum256 enabled app st] assms(1,4) show False
    by (auto simp: snr_ok_def)
qed

lemma bytes_ahead_read:
  "mcReads s \<le> k \<Longrightarrow> bytes_ahead port k s =
     fst (ptRead port (mcReads s)) @ concat (map (\<lambda>i. fst (ptRead port i)) [Suc (mcReads s)..<Suc k])"
  unfolding bytes_ahead_def by (subst upt_conv_Cons) simp_all

interpretation calm_radio: patient_source "bridge_source lib radio port (world_service sum256 sched enabled app)"
  "bytes_read port" "\<lambda>s. raw_packets (wdDb (mcWorld s))" "raw_of lib"
  "mc_inv radio port k sched N" snr_ok "\<lambda>s. N - wdTick (mcWorld s)" "\<lambda>s. Suc k - mcReads s" "bytes_ahead port k"
proof (unfold_locales, goal_cases)
  case (1 s m h s')
  then obtain st' w' where h: "Handle lib (world_service sum256 sched enabled app) m (mcIngest s) (mcWorld s) = (h, st', w')"
      "s' = s\<lparr>mcIngest := st', mcWorld := w'\<rparr>"
    by (auto simp: bridge_source_def split: prod.splits)
  have "h \<noteq> None \<Longrightarrow> N - wdTick w' < N - wdTick (mcWorld s)"
    using Handle_advance [OF h(1)] Handle_error_early [of lib sum256 sched enabled app m _ _ _ st' w' N] h(1) 1(1,2)
    by (auto simp: mc_inv_def intro: diff_less_mono2)
  with 1(1) h(2) Handle_advance [OF h(1)] show ?case by (auto simp: mc_inv_def advance_def bytes_ahead_def)
next
  case (4 s bs e s')
  then have r: "(bs, e) = ptRead port (mcReads s)" "s' = s\<lparr>mcReads := Suc (mcReads s)\<rparr>" "mcReads s \<le> k"
    by (auto simp: bridge_source_def)
  have c: "\<forall>i < k. snd (ptRead port i) = None" "snd (ptRead port k) \<noteq> None"
    using 4(1) by (simp_all add: mc_inv_def calm_def)
  have e: "e = snd (ptRead port (mcReads s))" "bs = fst (ptRead port (mcReads s))" using r(1) by (metis fst_conv snd_conv)+
  show ?case
  proof (cases "mcReads s = k")
    case True
    with e c(2) r 4(1) show ?thesis by (auto simp: mc_inv_def bytes_ahead_read)
  next
    case False
    with r(3) have lt: "mcReads s < k" by simp
    with e c(1) have "e = None" by simp
    have "bytes_ahead port k s = bs @ bytes_ahead port k s'"
      unfolding bytes_ahead_read [OF r(3)] e(2) by (simp add: bytes_ahead_def r(2) del: upt_Suc)
    with lt r(2) \<open>e = None\<close> 4(1) show ?thesis by (auto simp: mc_inv_def)
  qed
next
  case (5 s bs n e s')
  then have "n = fst (ptWrite port (mcCalls s) bs)" "e = snd (ptWrite port (mcCalls s) bs)"
    "s' = s\<lparr>mcCalls := Suc (mcCalls s), mcWritten := mcWritten s @ take (nat n) bs\<rparr>"
    by (auto simp: bridge_source_def split: prod.splits)
  with 5(1,2) show ?case by (simp add: mc_inv_def calm_def bytes_ahead_def)
qed (auto simp: bridge_source_def called_eq mc_inv_def calm_def request_ok_def bytes_ahead_def)

section \<open>Properties\<close>

text \<open>
  C6: Every packet on the wire is archived exactly once and in order: whatever bytes the port returns in
  whatever pieces, whichever database calls fail and are retried, when \<open>consume\<close> returns, the rows
  added to \<open>mesh_packets\<close> are those of the packets in the frames of the bytes it read, one row each;
  of all of them if it ended with an error of the port, of the first ones if it was cancelled.
\<close>
theorem intake_exactly_once:
  assumes "consume (bridge_source lib radio port (world_service sum256 sched enabled app)) s = Some (r, s')"
  shows "\<exists>bs pre. let ms = messages_in (unmarshal_from_radio radio) (frames_of init_framer bs) in
    bytes_read port s' = bytes_read port s @ bs \<and> prefix pre ms \<and> (r \<noteq> None \<longrightarrow> pre = ms) \<and>
    raw_packets (wdDb (mcWorld s')) = raw_packets (wdDb (mcWorld s)) @ concat (map (raw_of lib) pre)"
  using radio.consume_handled [OF assms] unfolding radio.handled_def radio.stores_def Let_def unmarshal_source by blast

text \<open>
  C12: Intake comes through outages: if the database works again after some number of calls, the port takes
  the request, and nobody cancels, \<open>consume\<close> does return, with the port's error, and has archived the packets of all
  the bytes up to it; only a packet with a NaN signal-to-noise ratio could hold it up.
\<close>
theorem intake_completes:
  assumes "reachable sum256 (wdDb (mcWorld s))" "working_from N sched" "calm port k" "mcReads s \<le> k" "request_ok radio"
    and "\<forall>m \<in> set (messages_in (unmarshal_from_radio radio) (frames_of init_framer (bytes_ahead port k s))). snr_ok m"
  shows "\<exists>e s'. consume (bridge_source lib radio port (world_service sum256 sched enabled app)) s = Some (Some e, s') \<and>
    raw_packets (wdDb (mcWorld s')) = raw_packets (wdDb (mcWorld s)) @
      concat (map (raw_of lib) (messages_in (unmarshal_from_radio radio) (frames_of init_framer (bytes_ahead port k s))))"
proof -
  have "mc_inv radio port k sched N s"
    using reachable_db_wf [OF assms(1)] assms(2,3,5) by (simp add: mc_inv_def)
  from calm_radio.consume_returns [OF this] assms(4,6) show ?thesis
    unfolding radio.stores_def unmarshal_source by fastforce
qed

text \<open>
  C30: No port is leaked: however often \<open>Run\<close> reconnects, and also when a port opens but its read timeout
  cannot be set, when \<open>Run\<close> returns it has closed every port it opened.
\<close>
theorem ports_closed:
  assumes "Run True True (bridge_source lib radio port (world_service sum256 sched enabled app)) s = Some (r, s')"
  shows "r = None \<and> mcPorts s' = mcPorts s"
  using assms ports.connect_loop_held by (fastforce simp: Run_def)

text \<open>
  C13: The radio is asked for its configuration first, and completely: nothing is read from a connection
  before the whole request, framed and with an id that is never 0, was taken by the port, in however
  many short writes; \<open>consume\<close> never writes anything else, and if the request could not be written it
  returns an error without having read, and at most a part of one request was written.
\<close>
theorem request_precedes_reads:
  assumes "consume (bridge_source lib radio port (world_service sum256 sched enabled app)) s = Some (r, s')"
  shows "(\<exists>u payload. u \<noteq> 0 \<and> marshal_request radio u = Inr payload \<and> encode_frame payload = Inr (wire payload) \<and>
      mcWritten s' = mcWritten s @ wire payload) \<or>
    (r \<noteq> None \<and> bytes_read port s' = bytes_read port s \<and>
      (mcWritten s' = mcWritten s \<or> (\<exists>u payload k. u \<noteq> 0 \<and> marshal_request radio u = Inr payload \<and>
        mcWritten s' = mcWritten s @ take k (wire payload))))"
proof -
  have m: "srMarshalRequest (bridge_source lib radio port sv) = marshal_request radio" for sv :: "'a world service"
    by (simp add: bridge_source_def)
  have c: "config_id u \<noteq> 0" for u by (simp add: config_id_def)
  from assms show ?thesis
  proof (cases rule: requests.consume_written)
    case (requested u s1 payload)
    with c [of u] show ?thesis unfolding m by blast
  next
    case not_requested
    then show ?thesis using c unfolding m by blast
  qed
qed

text \<open>
  C39: The delays between connection attempts, as they are asked of the timer: after k refusals in a row the
  backoff is one second doubled k times and capped at thirty. When the port cannot be opened, or its read
  timeout not be set, the source sleeps once, at least half of the backoff and less than half as much again, so never under half a second
  and never 45 seconds, and goes on with the next backoff. When the port was open, the only sleeps of the
  connection are those between the handler's attempts, which are the backoffs without jitter; after it is
  lost the source sleeps between half a second and one and a half, and goes on as after one refusal. A
  round that finds the context cancelled sleeps not at all. (\<open>rand.Int64N\<close> returns a number from 0 to its
  argument.)
\<close>
theorem reconnect_schedule:
  assumes "\<And>n i. 0 < n \<Longrightarrow> 0 \<le> ptInt64N port i n \<and> ptInt64N port i n < n"
    and "connect_round (bridge_source lib radio port (world_service sum256 sched enabled app)) ((next_backoff ^^ k) second) s
      = Some (r, s')"
  shows "let b = second * min (2 ^ k) 30; opened = (fst (open_port port (s\<lparr>mcCalls := Suc (mcCalls s)\<rparr>)) = None) in
    if ptDone port (mcCalls s) then r = None \<and> mcSlept s' = mcSlept s
    else if \<not> opened then
      (\<exists>d. mcSlept s' = mcSlept s @ [d] \<and> b div 2 \<le> d \<and> d < b + b div 2 \<and> second div 2 \<le> d \<and> d < 45 * second \<and>
         (r = None \<or> r = Some (second * min (2 ^ Suc k) 30)))
    else
      (\<exists>ds w. mcSlept s' = mcSlept s @ ds @ w \<and> (\<forall>d \<in> set ds. \<exists>j. d = second * min (2 ^ j) 30) \<and>
         (r = None \<and> w = [] \<or>
          (\<exists>d. w = [d] \<and> second div 2 \<le> d \<and> d < second + second div 2 \<and> (r = None \<or> r = Some (2 * second)))))"
proof -
  define b where "b = second * min (2 ^ k) 30"
  have b: "(next_backoff ^^ k) second = b" unfolding b_def by (rule backoff_closed)
  have range: "second \<le> b" "b \<le> 30 * second" by (simp_all add: b_def second_def min_def)
  then have pos: "0 < b" by (simp add: second_def)
  have suc: "next_backoff b = second * min (2 ^ Suc k) 30" using backoff_closed [of "Suc k"] b by simp
  have one: "next_backoff second = 2 * second" by (simp add: next_backoff_def second_def)
  let ?src = "bridge_source lib radio port (world_service sum256 sched enabled app)"
  have jit: "\<forall>n t. 0 < n \<longrightarrow> 0 \<le> fst (srInt64N ?src n t) \<and> fst (srInt64N ?src n t) < n"
    using assms(1) by (simp add: bridge_source_def called_def)
  have io: "fst (srDone ?src s) = ptDone port (mcCalls s)" "srOpen ?src (snd (srDone ?src s)) = open_port port (s\<lparr>mcCalls := Suc (mcCalls s)\<rparr>)"
    by (simp_all add: bridge_source_def called_def)
  from assms(2) [unfolded b] pos jit show ?thesis
  proof (cases rule: timer.connect_round_slept)
    case cancelled
    then show ?thesis by (simp add: io)
  next
    case (refused d)
    moreover from refused(4) have "b div 2 \<le> d" "d < b + b div 2" by (simp_all add: jittered_def)
    with range have "second div 2 \<le> d" "d < 45 * second" by (simp_all add: second_def)
    ultimately show ?thesis unfolding io suc jittered_def b_def [symmetric] by (simp add: Let_def)
  next
    case (ended ds)
    then show ?thesis unfolding io retry_waits_def by (simp add: Let_def) (intro exI [of _ ds] exI [of _ "[]"]; simp)
  next
    case (lost ds d)
    then show ?thesis unfolding io retry_waits_def jittered_def one by (simp add: Let_def) (intro exI [of _ ds] exI [of _ "[d]"]; simp)
  qed
qed

section \<open>One packet, cut in two by the reads, and a failing database\<close>

definition sample_radio :: radio_lib where
  "sample_radio = \<lparr>marshal_request = \<lambda>u. Inr [0x18, 1], unmarshal_from_radio = \<lambda>bs. Inr sample_message\<rparr>"

definition sample_port :: port_script where
  "sample_port =
     \<lparr>ptOpen = \<lambda>_. None, ptSetReadTimeout = \<lambda>_. None, ptClose = \<lambda>_. None,
      ptRead = \<lambda>n. if n = 0 then ([0x94, 0xc3, 0], None) else if n = 1 then ([1, 9], None) else ([], Some EOF),
      ptWrite = \<lambda>n bs. (int (length bs), None), ptDone = \<lambda>_. False, ptSleep = \<lambda>_. True,
      ptUint32 = \<lambda>_. 7, ptInt64N = \<lambda>_ k. k div 2\<rparr>"

definition outage :: schedule where
  "outage n = (if n < 2 then (\<lambda>_. Some (NewError ''disk I/O error'')) else no_faults, int n * second)"

definition empty_machine :: "unit machine" where
  "empty_machine = \<lparr>mcWorld = empty_world, mcIngest = new_ingest, mcReads = 0, mcCalls = 0, mcPorts = 0, mcWritten = [],
     mcSlept = []\<rparr>"

lemma sample_calm: "calm sample_port 2"
  by (auto simp: calm_def sample_port_def)

lemma sample_frames: "frames_of init_framer (bytes_ahead sample_port 2 empty_machine) = [[9]]"
proof -
  have "bytes_ahead sample_port 2 empty_machine = [frameStart1, frameStart2] @ put_uint16 1 @ [9]"
    by (simp add: bytes_ahead_def sample_port_def empty_machine_def upt_rec frameStart1_def frameStart2_def put_uint16_def)
  then show ?thesis
    using push_loop_stream [of "[([], [9])]" "[]" "[]" "[]"]
    by (simp add: frames_of_def push_def init_framer_def valid_payload_def maxFrame_def)
qed

lemma sample_raw: "raw_of sample_lib sample_message = [[1]]"
  by (simp add: raw_of_def sample_message_packet)

theorem intake_completes_witness:
  "\<exists>e s'. consume (bridge_source sample_lib sample_radio sample_port (world_service sample_hash outage True True)) empty_machine
     = Some (Some e, s') \<and> raw_packets (wdDb (mcWorld s')) = [[1]]"
proof -
  have "reachable sample_hash (wdDb (mcWorld empty_machine))" "mcReads empty_machine \<le> 2"
    "raw_packets (wdDb (mcWorld empty_machine)) = []"
    by (simp_all add: empty_machine_def empty_world_def reachable_def raw_packets_def empty_db_def)
  moreover have "working_from 2 outage" by (simp add: working_from_def outage_def)
  moreover have "request_ok sample_radio"
    by (simp add: request_ok_def sample_radio_def valid_payload_def maxFrame_def)
  moreover have "messages_in (unmarshal_from_radio sample_radio) [[9]] = [sample_message]" "snr_ok sample_message"
    by (simp_all add: sample_radio_def snr_ok_def sample_message_packet sample_packet_def)
  ultimately show ?thesis
    using intake_completes [of sample_hash empty_machine 2 outage sample_port 2 sample_radio sample_lib True True]
      sample_calm sample_frames sample_raw
    by simp
qed

text \<open>A port that takes one byte at a time and then reports an error: the request is written in six pieces.\<close>
theorem request_precedes_reads_witness:
  "\<exists>e s'. consume (bridge_source sample_lib sample_radio (sample_port\<lparr>ptWrite := \<lambda>n bs. (1, None)\<rparr>)
     (world_service sample_hash outage True True)) empty_machine = Some (Some e, s') \<and>
     mcWritten s' = [0x94, 0xc3, 0, 2, 0x18, 1]"
proof -
  let ?port = "sample_port\<lparr>ptWrite := \<lambda>n bs. (1, None)\<rparr>"
  let ?src = "bridge_source sample_lib sample_radio ?port (world_service sample_hash outage True True) :: (from_radio, unit machine) source"
  have "calm ?port 2" by (auto simp: calm_def sample_port_def Suc_le_eq)
  moreover have "bytes_ahead ?port 2 empty_machine = bytes_ahead sample_port 2 empty_machine"
    by (simp add: bytes_ahead_def sample_port_def)
  moreover have "request_ok sample_radio" "snr_ok sample_message"
    by (simp_all add: request_ok_def sample_radio_def valid_payload_def maxFrame_def snr_ok_def sample_message_packet sample_packet_def)
  ultimately obtain e s' where c: "consume ?src empty_machine = Some (Some e, s')"
      "bytes_read ?port s' = bytes_read ?port empty_machine @ bytes_ahead sample_port 2 empty_machine"
    using calm_radio.consume_returns [of sample_radio ?port 2 outage 2 empty_machine sample_lib sample_hash True True] sample_frames
    by (fastforce simp: mc_inv_def empty_machine_def empty_world_def db_wf_empty working_from_def outage_def sample_radio_def)
  have "bytes_ahead sample_port 2 empty_machine \<noteq> []"
    by (simp add: bytes_ahead_def sample_port_def empty_machine_def upt_rec)
  with c(2) have "bytes_read ?port s' \<noteq> bytes_read ?port empty_machine" by simp
  with request_precedes_reads [OF c(1)] have "\<exists>u payload. marshal_request sample_radio u = Inr payload \<and>
      mcWritten s' = mcWritten empty_machine @ wire payload"
    by blast
  then have "mcWritten s' = [0x94, 0xc3, 0, 2, 0x18, 1]"
    by (auto simp: sample_radio_def empty_machine_def frameStart1_def frameStart2_def put_uint16_def)
  with c(1) show ?thesis by blast
qed

text \<open>The port is refused for the sixth time in a row: the source asks for 30 seconds, with 15 more by chance.\<close>
theorem reconnect_schedule_witness:
  "\<exists>s' d. connect_round (bridge_source sample_lib sample_radio (sample_port\<lparr>ptOpen := \<lambda>_. Some (NewError ''busy'')\<rparr>)
       (world_service sample_hash outage True True)) ((next_backoff ^^ 5) second) empty_machine = Some (Some (30 * second), s') \<and>
     mcSlept s' = [d] \<and> 15 * second \<le> d \<and> d < 45 * second"
proof -
  let ?port = "sample_port\<lparr>ptOpen := \<lambda>_. Some (NewError ''busy'')\<rparr>"
  let ?src = "bridge_source sample_lib sample_radio ?port (world_service sample_hash outage True True) :: (from_radio, unit machine) source"
  have b: "(next_backoff ^^ 5) second = 30 * second" by (subst backoff_closed) (simp add: second_def)
  obtain s' where c: "connect_round ?src ((next_backoff ^^ 5) second) empty_machine = Some (Some (30 * second), s')"
    unfolding b by (simp add: connect_round_def wait_jittered_def jitter_def bridge_source_def open_port_def called_def
        sample_port_def next_backoff_def second_def)
  have j: "0 \<le> ptInt64N ?port i n \<and> ptInt64N ?port i n < n" if "0 < n" for n i
    using that by (simp add: sample_port_def)
  have io: "fst (open_port ?port t) \<noteq> None" "\<not> ptDone ?port i" for t :: "unit machine" and i
    by (simp_all add: open_port_def called_def sample_port_def)
  from reconnect_schedule [OF j c] io obtain d where "mcSlept s' = mcSlept empty_machine @ [d]"
      "second * min (2 ^ 5) 30 div 2 \<le> d" "d < 45 * second"
    by (auto simp: Let_def)
  with c show ?thesis by (intro exI [of _ s'] exI [of _ d]) (simp add: empty_machine_def second_def)
qed

theorem intake_exactly_once_witness:
  "\<exists>r s'. consume (bridge_source sample_lib sample_radio (sample_port\<lparr>ptDone := \<lambda>_. True\<rparr>)
     (world_service sample_hash outage True True)) empty_machine = Some (r, s') \<and>
     (\<exists>xs. raw_packets (wdDb (mcWorld s')) = raw_packets (wdDb (mcWorld empty_machine)) @ xs)"
proof -
  let ?src = "bridge_source sample_lib sample_radio (sample_port\<lparr>ptDone := \<lambda>_. True\<rparr>)
     (world_service sample_hash outage True True) :: (from_radio, unit machine) source"
  have "\<exists>s2. writeAll ?src data s1 = Some (None, s2)" for data and s1 :: "unit machine"
    by (subst writeAll.simps; subst writeAll.simps) (auto simp: bridge_source_def sample_port_def called_def)
  then obtain s2 where s2: "writeAll ?src (wire [0x18, 1]) (empty_machine\<lparr>mcCalls := 1\<rparr>) = Some (None, s2)" by blast
  have e: "encode_frame [0x18, 1] = Inr (wire [0x18, 1])"
    by (rule encode_frame_valid) (simp add: valid_payload_def maxFrame_def)
  have "read_loop ?src init_framer s2 = Some (None, s2\<lparr>mcCalls := Suc (mcCalls s2)\<rparr>)"
    by (subst read_loop.simps) (simp add: read_round_def bridge_source_def called_def sample_port_def)
  then have c: "consume ?src empty_machine = Some (None, s2\<lparr>mcCalls := Suc (mcCalls s2)\<rparr>)"
    using s2 e
    by (simp add: consume_def bridge_source_def called_def sample_radio_def sample_port_def empty_machine_def)
  from intake_exactly_once [OF c] c show ?thesis by (auto simp: Let_def)
qed

text \<open>The port opens, refuses the timeout, and the context is cancelled during the wait.\<close>
theorem ports_closed_witness:
  "\<exists>s'. Run True True (bridge_source sample_lib sample_radio
       (sample_port\<lparr>ptSetReadTimeout := \<lambda>_. Some (NewError ''ioctl''), ptSleep := \<lambda>_. False\<rparr>)
       (world_service sample_hash outage True True)) empty_machine = Some (None, s') \<and> mcPorts s' = 0"
proof -
  let ?src = "bridge_source sample_lib sample_radio
       (sample_port\<lparr>ptSetReadTimeout := \<lambda>_. Some (NewError ''ioctl''), ptSleep := \<lambda>_. False\<rparr>)
       (world_service sample_hash outage True True) :: (from_radio, unit machine) source"
  have "\<exists>s'. connect_loop ?src second empty_machine = Some s'"
    by (subst connect_loop.simps)
      (simp add: connect_round_def wait_jittered_def jitter_def bridge_source_def open_port_def close_port_def called_def sample_port_def)
  then obtain s' where run: "Run True True ?src empty_machine = Some (None, s')" by (auto simp: Run_def)
  from ports_closed [OF run] run show ?thesis by (auto simp: empty_machine_def)
qed

end
