(* ===== verification/System.thy ===== *)
theory System
  imports Interleaving Bridge Web
begin

text \<open>
  The running bridge as a whole: what the decoder lets into the tables can always be read back and
  expressed in JSON, so in every reachable state of \<open>Interleaving\<close> the map of \<^verbatim>\<open>internal/web/server.go\<close> is
  answered, and a worker whose database works never gives up a round. The archive is in every such state
  exactly what was handled, and a delivery leaves the queue only by a decision of the worker.
\<close>

section \<open>Presentable positions\<close>

definition finite_or_none :: "f64 option \<Rightarrow> bool" where
  "finite_or_none x \<longleftrightarrow> (case x of None \<Rightarrow> True | Some (Fin v) \<Rightarrow> True | _ \<Rightarrow> False)"

definition position_ok :: "position \<Rightarrow> bool" where
  "position_ok q \<longleftrightarrow> four_digit_year (poSourceTime q) \<and> four_digit_year (poReceivedAt q) \<and>
     finite_or_none (poAltitude q) \<and> finite_or_none (poSpeed q) \<and> finite_or_none (poCourse q)"

definition presentable :: "db \<Rightarrow> bool" where
  "presentable d \<longleftrightarrow> times_ok d \<and> numbers_ok d"

definition clock_sane :: "schedule \<Rightarrow> bool" where
  "clock_sane sched \<longleftrightarrow> (\<forall>n. four_digit_year (snd (sched n)))"

lemma now_sane: "clock_sane sched \<Longrightarrow> four_digit_year (now_at sched w)"
  by (simp add: clock_sane_def now_at_def)

lemma unix_time_year: "four_digit_year (unix_time v)"
proof (rule four_digit_yearI)
  have "uint v < 2 ^ 32" using uint_lt2p [of v] by simp
  then show "unix_time v < 253402300800 * second" by (simp add: unix_time_def second_def)
qed (simp add: unix_time_def second_def)

lemma newPosition_ok:
  assumes "newPosition p la lo = Inr q" "four_digit_year (pkReceivedAt p)" "\<And>t. pkRadioRxTime p = Some t \<Longrightarrow> four_digit_year t"
  shows "position_ok q"
  using assms by (auto simp: newPosition_Inr position_ok_def finite_or_none_def timeFromPacket_def split: option.splits)

lemma decoded_ok:
  assumes "snd (DecodeWithOptions lib m t app) = Some q" "four_digit_year t"
  shows "position_ok q"
  using assms(1)
proof (cases rule: decode_Some_cases)
  case (app raw d)
  from app(5) show ?thesis
  proof (cases rule: decodePositionApp_Inr)
    case (fix_ msg base)
    have "position_ok base"
      by (rule newPosition_ok [OF fix_(4)]) (use assms(2) unix_time_year in auto)
    with fix_(5) show ?thesis
      by (auto simp: position_ok_def finite_or_none_def unix_time_year f64_of_int_def split: option.split)
  qed simp
next
  case (legacy raw d u)
  from legacy(4) show ?thesis
  proof (cases rule: decodeLegacy_Inr)
    case (1 tp pli base cs ds)
    have "position_ok base"
      by (rule newPosition_ok [OF 1(3)]) (use assms(2) unix_time_year in auto)
    with 1(5) show ?thesis by (simp add: position_ok_def finite_or_none_def f64_of_int_def)
  qed
qed

definition row_ok :: "position_row \<Rightarrow> bool" where
  "row_ok r \<longleftrightarrow> time_text (trSourceTime r) \<and> time_text (trReceivedAt r) \<and>
     finite_or_none (trAltitude r) \<and> finite_or_none (trSpeed r) \<and> finite_or_none (trCourse r)"

lemma presentable_iff: "presentable d \<longleftrightarrow> (\<forall>r \<in> set (positions d). row_ok r)"
proof -
  have "finite_or_none x \<longleftrightarrow> x \<noteq> Some PosInf \<and> x \<noteq> Some NegInf \<and> x \<noteq> Some NaN" for x
    by (auto simp: finite_or_none_def split: option.split f64.split)
  then show ?thesis by (auto simp: presentable_def times_ok_def numbers_ok_def row_ok_def)
qed

lemma row_ok_callsign [simp]: "row_ok (r\<lparr>trCallsign := cs\<rparr>) = row_ok r"
  by (simp add: row_ok_def)

lemma row_of_ok: "position_ok q \<Longrightarrow> row_ok (position_row_of i j key port q)"
  by (auto simp: position_ok_def row_ok_def position_row_of_def stored_float_def finite_or_none_def)

lemma Archive_presentable:
  assumes "Archive sum256 io now p pos enqueue d = (r, d')" "presentable d" "\<And>q. pos = Some q \<Longrightarrow> position_ok q"
  shows "presentable d'"
  using assms(1)
proof (cases rule: Archive_cases)
  case (stored q d1 d2)
  then show ?thesis
    using assms(2,3) row_of_ok
    by (auto simp: presentable_iff insert_packet_Inr insert_position_Inr insert_delivery_Inr split: if_splits)
qed (use assms(2) in \<open>auto simp: presentable_iff insert_packet_Inr\<close>)

lemma UpsertNode_presentable:
  assumes "UpsertNode io now node short long d = (r, d')" "presentable d"
  shows "presentable d'"
  using assms(1)
proof (cases rule: UpsertNode_cases)
  case stored
  have "positions (upsert_node_row n s l t d) = positions d" for n s l t
    by (simp add: upsert_node_row_def Let_def)
  with stored(2) assms(2) show ?thesis by (auto simp: presentable_iff rename_positions_def)
qed (use assms(2) in simp)

section \<open>The handler keeps the tables presentable\<close>

lemma remember_presentable:
  "rememberNode (world_service sum256 sched en app) n u w = (r, w') \<Longrightarrow> presentable (wdDb w) \<Longrightarrow> presentable (wdDb w')"
  by (auto simp: rememberNode_def service_defs on_db_eq dest: UpsertNode_presentable split: option.splits)

lemma learn_presentable:
  "learn_node lib (world_service sum256 sched en app) m st w = (r, st', w') \<Longrightarrow> presentable (wdDb w) \<Longrightarrow> presentable (wdDb w')"
  by (auto simp: learn_node_def dest: remember_presentable split: option.splits sum.splits if_splits prod.splits)

lemma Handle_presentable:
  "Handle lib (world_service sum256 sched en app) m st w = (r, st', w') \<Longrightarrow> packet_of m = None \<Longrightarrow>
    presentable (wdDb w) \<Longrightarrow> presentable (wdDb w')"
  by (auto simp: packet_of_def Handle_def dest: remember_presentable split: option.splits if_splits prod.splits)

lemma resolve_presentable:
  assumes "resolve_callsign (world_service sum256 sched en app) pos w = (out, w')"
  shows "wdDb w' = wdDb w \<and> (\<forall>pos' q'. out = Inr pos' \<longrightarrow> pos' = Some q' \<longrightarrow>
    (\<exists>q. pos = Some q \<and> (position_ok q \<longrightarrow> position_ok q')))"
  using assms
  by (auto simp: resolve_callsign_def service_defs on_db_eq position_ok_def split: option.splits sum.splits if_splits prod.splits)

lemma announce_presentable:
  "announce (world_service sum256 sched en app) p pos ids st w = (st', w') \<Longrightarrow> wdDb w' = wdDb w"
  by (auto simp: announce_def Let_def Wake_def split: option.splits if_splits prod.splits)

fun pc_position :: "handler_pc \<Rightarrow> position option" where
  "pc_position (Resolving m pk pos) = pos"
| "pc_position (Storing m pk pos) = pos"
| "pc_position pc = None"

definition tables_ok :: "'c running \<Rightarrow> bool" where
  "tables_ok r \<longleftrightarrow> presentable (wdDb (rnWorld r)) \<and> (\<forall>q. pc_position (rnHandler r) = Some q \<longrightarrow> position_ok q)"

lemma handler_tables:
  assumes "handler_step dp r = Some r'" "tables_ok r" "clock_sane (dpSchedule dp)"
  shows "tables_ok r'"
proof (cases "rnHandler r")
  case Idle
  with assms(1) show ?thesis by (simp add: handler_step_def)
next
  case (Received m)
  have "position_ok q" if "DecodeWithOptions (dpLib dp) p (now_at (dpSchedule dp) w) app = (pk, Some q)" for p app pk q
      and w :: "'a world"
    using decoded_ok [of "dpLib dp" p "now_at (dpSchedule dp) w" app q] that now_sane [OF assms(3), of w] by simp
  with Received assms(1,2) show ?thesis
    unfolding handler_step_def service_of_def Let_def
    by (auto simp: tables_ok_def dest: learn_presentable Handle_presentable split: option.splits sum.splits prod.splits if_splits)
next
  case (Resolving m pk pos)
  with assms(1,2) show ?thesis
    unfolding handler_step_def service_of_def Let_def
    by (auto simp: tables_ok_def dest!: resolve_presentable split: option.splits sum.splits prod.splits)
next
  case (Storing m pk pos)
  with assms(1,2) show ?thesis
    unfolding handler_step_def service_of_def Let_def
    by (auto simp: tables_ok_def world_service_def on_db_eq dest!: Archive_presentable split: option.splits sum.splits prod.splits)
next
  case (Announcing pk pos ids)
  with assms(1,2) show ?thesis
    unfolding handler_step_def service_of_def Let_def
    by (auto simp: tables_ok_def dest: announce_presentable split: option.splits sum.splits prod.splits)
qed

section \<open>The worker leaves packets and positions alone\<close>

definition same_archive :: "db \<Rightarrow> db \<Rightarrow> bool" where
  "same_archive d d' \<longleftrightarrow> positions d' = positions d \<and> packets d' = packets d"

lemma mark_archive:
  "wMarkDelivered (env_of dp) i w = (e, w') \<Longrightarrow> same_archive (wdDb w) (wdDb w')"
  "wMarkFailed (env_of dp) i n t terminal err w = (e, w') \<Longrightarrow> same_archive (wdDb w) (wdDb w')"
  by (auto simp: same_archive_def env_of_def world_env_def on_db_eq MarkDelivered_def MarkFailed_def Let_def
      update_deliveries_def dest!: update_pending_None)

lemma settle_archive:
  "settle (env_of dp) d out f w = Some (e, f', w') \<Longrightarrow> same_archive (wdDb w) (wdDb w')"
  by (cases out) (auto simp: settle_def Let_def dest: mark_archive split: prod.splits option.splits)

lemma query_same: "wPending (env_of dp) n w = (out, w') \<Longrightarrow> wdDb w' = wdDb w"
  by (auto simp: env_of_def world_env_def on_db_eq)

lemma publish_only: "wPublish (env_of dp) t pos w = (e, w') \<Longrightarrow> tracks_only (wdDb w) (wdDb w')"
  by (auto simp: env_of_def world_env_def dest!: Publish_only)

lemma same_archive_refl [simp]: "same_archive d d"
  by (simp add: same_archive_def)

lemma worker_archive:
  assumes "worker_step dp r = Some r'"
  shows "same_archive (wdDb (rnWorld r)) (wdDb (rnWorld r')) \<and> rnHandler r' = rnHandler r \<and> rnHandled r' = rnHandled r"
proof (cases "rnWorker r")
  case (Delivering ds)
  with assms show ?thesis by (cases ds) (auto simp: worker_step_def split: prod.splits)
next
  case Querying
  with assms show ?thesis
    by (auto simp: worker_step_def dest: query_same split: sum.splits prod.splits list.splits)
next
  case (Publishing d pos ds)
  with assms show ?thesis
    by (auto simp: worker_step_def same_archive_def tracks_only_def dest!: publish_only split: prod.splits)
next
  case (Settling d out ds)
  with assms show ?thesis by (auto simp: worker_step_def dest: settle_archive split: option.splits prod.splits)
qed (use assms in \<open>auto simp: worker_step_def Wake_def\<close>)

lemma bridge_step_tables:
  assumes "bridge_step dp r r'" "tables_ok r" "clock_sane (dpSchedule dp)"
  shows "tables_ok r'"
  using assms(1)
proof cases
  case worker
  with assms(2) worker_archive [OF worker] show ?thesis by (simp add: tables_ok_def presentable_iff same_archive_def)
next
  case handler
  then show ?thesis by (rule handler_tables [OF _ assms(2,3)])
qed (use assms(2) in \<open>auto simp: tables_ok_def\<close>)

lemma bridge_reaches_tables:
  assumes "bridge_reaches dp w movement heartbeat r" "presentable (wdDb w)" "clock_sane (dpSchedule dp)"
  shows "tables_ok r"
  using assms(1) unfolding bridge_reaches_def
proof (induction rule: rtranclp_induct)
  case base
  then show ?case using assms(2) by (simp add: tables_ok_def started_def)
next
  case (step r r')
  then show ?case using bridge_step_tables assms(3) by blast
qed

section \<open>A round fails only with the database\<close>

lemma worker_no_failure:
  assumes "worker_step dp r = Some r'" "running_ok r" "tables_ok r" "\<And>n. fst (dpSchedule dp n) = no_faults"
    and "rnLast r \<noteq> Failed"
  shows "rnLast r' \<noteq> Failed"
proof -
  have io: "io_at (dpSchedule dp) w = no_faults" for w :: "'a world" using assms(4) by (simp add: io_at_def)
  show ?thesis
  proof (cases "rnWorker r")
    case Querying
    have "times_ok (wdDb (rnWorld r))" using assms(3) by (simp add: tables_ok_def presentable_def)
    then obtain ds where "PendingDeliveries no_faults (now_at (dpSchedule dp) (rnWorld r)) 50 (wdDb (rnWorld r)) = Inr ds"
      using PendingDeliveries_ok by blast
    then have "\<exists>w. wPending (env_of dp) 50 (rnWorld r) = (Inr ds, w)"
      by (simp add: env_of_def world_env_def on_db_def io)
    with Querying assms(1,5) show ?thesis by (cases ds) (auto simp: worker_step_def)
  next
    case (Settling d out ds)
    obtain e f w where s: "settle (env_of dp) d out (rnFilter r) (rnWorld r) = Some (e, f, w)"
      using assms(1) Settling by (auto simp: worker_step_def split: option.splits)
    have "world_ok (rnWorld r)" "dvID d \<in> outstanding (rnWorld r)"
      using assms(2) Settling by (simp_all add: running_ok_def hand_ok_def)
    then have "e = None" by (rule settle_hits [OF _ _ io s])
    with assms(1,5) Settling s show ?thesis by (auto simp: worker_step_def)
  next
    case (Delivering ds)
    with assms(1,5) show ?thesis by (cases ds) (auto simp: worker_step_def split: prod.splits)
  qed (use assms(1,5) in \<open>auto simp: worker_step_def split: prod.splits\<close>)
qed

lemma bridge_never_fails:
  assumes "bridge_reaches dp w movement heartbeat r" "world_ok w" "presentable (wdDb w)" "clock_sane (dpSchedule dp)"
    and "\<And>n. fst (dpSchedule dp n) = no_faults"
  shows "rnLast r \<noteq> Failed"
  using assms(1) unfolding bridge_reaches_def
proof (induction rule: rtranclp_induct)
  case base
  then show ?case by (simp add: started_def)
next
  case (step r r')
  then have reach: "bridge_reaches dp w movement heartbeat r" by (simp add: bridge_reaches_def)
  note ok = bridge_reaches_ok [OF reach assms(2)] bridge_reaches_tables [OF reach assms(3,4)]
  from step(2) show ?case
  proof cases
    case worker
    then show ?thesis by (rule worker_no_failure [OF _ ok assms(5) step.IH])
  next
    case handler
    with handler_step_frame [OF this] step.IH show ?thesis by simp
  qed (use step.IH in simp_all)
qed

section \<open>What was handled is archived\<close>

definition archived_raw :: "'c deployment \<Rightarrow> 'c running \<Rightarrow> byte list list" where
  "archived_raw dp r = concat (map (raw_of (dpLib dp)) (rnHandled r)) @
     (case rnHandler r of Announcing m pk pos ids \<Rightarrow> raw_of (dpLib dp) m | _ \<Rightarrow> [])"

fun pc_packet :: "pb_lib \<Rightarrow> handler_pc \<Rightarrow> bool" where
  "pc_packet lib (Resolving m pk pos) = (raw_of lib m = [pkRawPacket pk])"
| "pc_packet lib (Storing m pk pos) = (raw_of lib m = [pkRawPacket pk])"
| "pc_packet lib pc = True"

definition archive_ok :: "'c deployment \<Rightarrow> 'c world \<Rightarrow> 'c running \<Rightarrow> bool" where
  "archive_ok dp w r \<longleftrightarrow> raw_packets (wdDb (rnWorld r)) = raw_packets (wdDb w) @ archived_raw dp r \<and>
     pc_packet (dpLib dp) (rnHandler r)"

lemma raw_view: "raw_packets (wdDb v) = map prRawPacket (archive_view v)"
  by (simp add: raw_packets_def archive_view_def)

lemma quiet_raw:
  "learn_node lib (world_service sum256 sched en app) p st w = (r, st', w') \<Longrightarrow> raw_packets (wdDb w') = raw_packets (wdDb w)"
  "resolve_callsign (world_service sum256 sched en app) pos w = (out, w') \<Longrightarrow> raw_packets (wdDb w') = raw_packets (wdDb w)"
  unfolding raw_view by (auto dest: intake.learn_node_archived intake.resolve_callsign_archived)

lemma archive_raw:
  assumes "svArchive (world_service sum256 sched en app) pk pos en w = (out, w')"
  shows "raw_packets (wdDb w') = raw_packets (wdDb w) @ (case out of Inl e \<Rightarrow> [] | Inr ids \<Rightarrow> [pkRawPacket pk])"
  using assms
  by (auto simp: world_service_def on_db_eq raw_packets_def packet_row_of_def split: sum.splits
      dest!: Archive_packets Archive_failed)

lemma decoded_raw_of:
  "packet_of m = Some p \<Longrightarrow> DecodeWithOptions lib p t app = (pk, pos) \<Longrightarrow> raw_of lib m = [pkRawPacket pk]"
  using decoded_raw [of lib p t app] by (simp add: raw_of_def)

lemma handler_archive:
  assumes "handler_step dp r = Some r'" "archive_ok dp w r"
  shows "archive_ok dp w r'"
proof (cases "rnHandler r")
  case Idle
  with assms show ?thesis by (simp add: handler_step_def)
next
  case (Received m)
  with assms show ?thesis
    unfolding handler_step_def service_of_def Let_def
    by (auto simp: archive_ok_def archived_raw_def quiet_raw Handle_raw decoded_raw_of
        split: option.splits sum.splits prod.splits if_splits)
next
  case (Resolving m pk pos)
  with assms show ?thesis
    unfolding handler_step_def service_of_def Let_def
    by (auto simp: archive_ok_def archived_raw_def quiet_raw split: option.splits sum.splits prod.splits)
next
  case (Storing m pk pos)
  with assms show ?thesis
    unfolding handler_step_def service_of_def Let_def
    by (auto simp: archive_ok_def archived_raw_def dest!: archive_raw split: option.splits sum.splits prod.splits)
next
  case (Announcing m pk pos ids)
  with assms show ?thesis
    unfolding handler_step_def service_of_def Let_def
    by (auto simp: archive_ok_def archived_raw_def announce_presentable split: option.splits sum.splits prod.splits)
qed

lemma bridge_reaches_archive:
  assumes "bridge_reaches dp w movement heartbeat r"
  shows "archive_ok dp w r"
  using assms unfolding bridge_reaches_def
proof (induction rule: rtranclp_induct)
  case base
  then show ?case by (simp add: archive_ok_def archived_raw_def started_def)
next
  case (step r r')
  from step(2) show ?case
  proof cases
    case worker
    with step.IH worker_archive [OF worker] show ?thesis
      by (simp add: archive_ok_def archived_raw_def raw_packets_def same_archive_def)
  next
    case handler
    then show ?thesis by (rule handler_archive [OF _ step.IH])
  qed (use step.IH in \<open>auto simp: archive_ok_def archived_raw_def\<close>)
qed

section \<open>How a delivery leaves the queue\<close>

definition delivery_links :: "db \<Rightarrow> (int \<times> int) list" where
  "delivery_links d = map (\<lambda>r. (drId r, drPositionId r)) (deliveries d)"

definition delivery_ids :: "db \<Rightarrow> int set" where
  "delivery_ids d = set (map drId (deliveries d))"

lemma links_ids: "delivery_ids d = fst ` set (delivery_links d)"
  by (simp add: delivery_ids_def delivery_links_def image_image)

definition left_queue :: "'c world \<Rightarrow> int set" where
  "left_queue w = delivery_ids (wdDb w) - outstanding w"

lemma left_queue_same: "deliveries (wdDb w') = deliveries (wdDb w) \<Longrightarrow> left_queue w' = left_queue w"
  by (simp add: left_queue_def delivery_ids_def outstanding_def pending_where_def)

lemma archive_left:
  assumes "svArchive (world_service sum256 sched en app) p pos en w = (out, w')"
  shows "left_queue w' \<subseteq> left_queue w"
proof -
  obtain d' where a: "Archive sum256 (io_at sched w) (now_at sched w) p pos en (wdDb w) = (out, d')"
    and w': "w' = tick (w\<lparr>wdDb := d'\<rparr>)"
    using assms by (auto simp: world_service_def on_db_eq)
  have "\<exists>rows. deliveries d' = deliveries (wdDb w) @ rows \<and> (\<forall>x \<in> set rows. drState x = Pending)"
    using a
    by (cases rule: Archive_cases)
      (auto simp: insert_packet_Inr insert_position_Inr insert_delivery_Inr delivery_row_of_def split: if_splits)
  then show ?thesis by (auto simp: left_queue_def delivery_ids_def outstanding_def pending_where_def w')
qed

lemma quiet_left: "leaves_queue w w' \<Longrightarrow> left_queue w' \<subseteq> left_queue w"
  using left_queue_same [of w' w] by (simp add: leaves_queue_def)

lemma announce_left:
  "announce (world_service sum256 sched en app) p pos ids st w = (st', w') \<Longrightarrow> left_queue w' \<subseteq> left_queue w"
  using announce_presentable [of sum256 sched en app p pos ids st w st' w'] left_queue_same [of w' w] by simp

lemma handler_left:
  assumes "handler_step dp r = Some r'"
  shows "left_queue (rnWorld r') \<subseteq> left_queue (rnWorld r) \<and> rnOutcomes r' = rnOutcomes r"
proof -
  note frame = handler_step_frame [OF assms]
  show ?thesis
  proof (cases "rnHandler r")
    case (Received m)
    with assms frame show ?thesis
      unfolding handler_step_def service_of_def Let_def
      by (auto dest!: quiet_feeds quiet_left split: option.splits sum.splits prod.splits)
  next
    case (Resolving m pk pos)
    with assms frame show ?thesis
      unfolding handler_step_def service_of_def Let_def
      by (auto dest!: quiet_feeds quiet_left split: option.splits sum.splits prod.splits)
  next
    case (Storing m pk pos)
    with assms frame show ?thesis
      unfolding handler_step_def service_of_def Let_def
      by (auto dest!: archive_left split: option.splits sum.splits prod.splits)
  next
    case (Announcing m pk pos ids)
    with assms frame show ?thesis
      unfolding handler_step_def service_of_def Let_def
      by (auto dest!: announce_left split: option.splits sum.splits prod.splits)
  qed (use assms in \<open>simp add: handler_step_def\<close>)
qed

lemma update_pending_links:
  assumes "\<And>r. drId (f r) = drId r" "\<And>r. drPositionId (f r) = drPositionId r"
  shows "delivery_links (snd (update_pending io what i f d)) = delivery_links d"
proof -
  have "delivery_links (update_deliveries i f d) = delivery_links d"
    using assms by (simp add: delivery_links_def update_deliveries_def)
  then show ?thesis using update_pending_cases [of io what i f d] by metis
qed

lemma mark_delivered_links:
  assumes "wMarkDelivered (env_of dp) i w = (e, w')"
  shows "delivery_links (wdDb w') = delivery_links (wdDb w)"
proof -
  obtain d' where m: "MarkDelivered (io_at (dpSchedule dp) w) (now_at (dpSchedule dp) w) i (wdDb w) = (e, d')"
    and w': "w' = tick (w\<lparr>wdDb := d'\<rparr>)"
    using assms by (auto simp: env_of_def world_env_def on_db_eq)
  have "d' = snd (MarkDelivered (io_at (dpSchedule dp) w) (now_at (dpSchedule dp) w) i (wdDb w))" using m by simp
  then show ?thesis by (simp add: w' MarkDelivered_def update_pending_links)
qed

lemma mark_failed_links:
  assumes "wMarkFailed (env_of dp) i n t terminal err w = (e, w')"
  shows "delivery_links (wdDb w') = delivery_links (wdDb w)"
proof -
  obtain d' where m: "MarkFailed (io_at (dpSchedule dp) w) i n t terminal err (wdDb w) = (e, d')"
    and w': "w' = tick (w\<lparr>wdDb := d'\<rparr>)"
    using assms by (auto simp: env_of_def world_env_def on_db_eq)
  have "d' = snd (MarkFailed (io_at (dpSchedule dp) w) i n t terminal err (wdDb w))" using m by simp
  then show ?thesis by (simp add: w' MarkFailed_def Let_def update_pending_links)
qed

lemma settle_links:
  "settle (env_of dp) d out f w = Some (e, f', w') \<Longrightarrow> delivery_links (wdDb w') = delivery_links (wdDb w)"
  by (cases out) (auto simp: settle_def Let_def dest: mark_delivered_links mark_failed_links split: prod.splits option.splits)

lemma worker_links:
  assumes "worker_step dp r = Some r'"
  shows "delivery_links (wdDb (rnWorld r')) = delivery_links (wdDb (rnWorld r))"
proof (cases "rnWorker r")
  case (Delivering ds)
  with assms show ?thesis by (cases ds) (auto simp: worker_step_def split: prod.splits)
next
  case Querying
  with assms show ?thesis
    by (auto simp: worker_step_def dest: query_same split: sum.splits prod.splits list.splits)
next
  case (Publishing d pos ds)
  with assms show ?thesis
    by (auto simp: worker_step_def tracks_only_def delivery_links_def dest!: publish_only split: prod.splits)
next
  case (Settling d out ds)
  with assms show ?thesis by (auto simp: worker_step_def dest: settle_links split: option.splits prod.splits)
qed (use assms in \<open>auto simp: worker_step_def Wake_def\<close>)

lemma settle_left:
  assumes "settle (env_of dp) d out f w = Some (e, f', w')" "world_ok w" "filter_ok f"
    and "decided out (pfPrepared f (dvID d))" "0 \<le> dvAttempts d"
  shows "left_queue w' \<subseteq> left_queue w \<union> settled_ids [(d, out)]"
proof -
  have "outstanding w - {dvID d} \<subseteq> outstanding w' \<and> (\<not> settled_outcome out \<longrightarrow> outstanding w' = outstanding w)"
  proof -
    obtain e1 f1 w1 where q: "settle (env_of dp) d out f w = Some (e1, f1, w1)"
        "outstanding w - {dvID d} \<subseteq> outstanding w1" "\<not> settled_outcome out \<longrightarrow> outstanding w1 = outstanding w"
      using queue.settle_queue [OF assms(2-5)] unfolding env_of_def by blast
    from q(1) assms(1) have "w1 = w'" by simp
    with q(2,3) show ?thesis by simp
  qed
  moreover have "settled_outcome out \<Longrightarrow> dvID d \<in> settled_ids [(d, out)]" by (simp add: settled_ids_def)
  ultimately show ?thesis using settle_links [OF assms(1)] unfolding left_queue_def links_ids by auto
qed

lemma settled_ids_append [simp]: "settled_ids (xs @ ys) = settled_ids xs \<union> settled_ids ys"
  by (simp add: settled_ids_def image_Un)

lemma worker_left:
  assumes "worker_step dp r = Some r'" "running_ok r"
  shows "\<exists>outs. rnOutcomes r' = rnOutcomes r @ outs \<and>
    left_queue (rnWorld r') \<subseteq> left_queue (rnWorld r) \<union> settled_ids outs"
proof -
  have quiet: ?thesis if "left_queue (rnWorld r') = left_queue (rnWorld r)" "rnOutcomes r' = rnOutcomes r"
    using that by (intro exI [of _ "[]"]) simp
  show ?thesis
  proof (cases "rnWorker r")
    case (Delivering ds)
    with assms(1) show ?thesis by (intro quiet) (cases ds; auto simp: worker_step_def split: prod.splits)+
  next
    case Querying
    obtain out w where q: "wPending (env_of dp) 50 (rnWorld r) = (out, w)" by fastforce
    then have "left_queue w = left_queue (rnWorld r)" using query_same left_queue_same by metis
    moreover have "rnWorld r' = w" "rnOutcomes r' = rnOutcomes r"
      using assms(1) Querying q by (auto simp: worker_step_def split: sum.splits list.splits)
    ultimately show ?thesis by (intro quiet) simp_all
  next
    case (Publishing d pos ds)
    obtain e w where q: "wPublish (env_of dp) (request_timeout (dpTimeout dp)) pos (rnWorld r) = (e, w)" by fastforce
    then have "left_queue w = left_queue (rnWorld r)"
      using publish_only [OF q] by (intro left_queue_same) (simp add: tracks_only_def)
    moreover have "rnWorld r' = w" "rnOutcomes r' = rnOutcomes r"
      using assms(1) Publishing q by (auto simp: worker_step_def)
    ultimately show ?thesis by (intro quiet) simp_all
  next
    case (Settling d out ds)
    obtain e f w where s: "settle (env_of dp) d out (rnFilter r) (rnWorld r) = Some (e, f, w)"
      using assms(1) Settling by (auto simp: worker_step_def split: option.splits)
    have "left_queue w \<subseteq> left_queue (rnWorld r) \<union> settled_ids [(d, out)]"
      by (rule settle_left [OF s]) (use assms(2) Settling in \<open>simp_all add: running_ok_def hand_ok_def\<close>)
    moreover have "rnWorld r' = w" "rnOutcomes r' = rnOutcomes r @ [(d, out)]"
      using assms(1) Settling s by (auto simp: worker_step_def split: option.splits)
    ultimately show ?thesis by (intro exI [of _ "[(d, out)]"]) simp
  next
    case Starting
    then have "rnWorld r' = Wake (rnWorld r)" "rnOutcomes r' = rnOutcomes r"
      using assms(1) by (auto simp: worker_step_def)
    moreover have "left_queue (Wake (rnWorld r)) = left_queue (rnWorld r)"
      by (rule left_queue_same) (simp add: Wake_def)
    ultimately show ?thesis by (intro quiet) simp_all
  qed (use assms(1) in \<open>simp_all add: worker_step_def\<close>)
qed

lemma none_left: "L - B \<subseteq> (C - D) \<union> E \<Longrightarrow> E = {} \<Longrightarrow> C \<subseteq> D \<Longrightarrow> L \<subseteq> B" for L :: "int set"
  by blast

lemma bridge_reaches_left:
  assumes "bridge_reaches dp w movement heartbeat r" "world_ok w"
  shows "left_queue (rnWorld r) \<subseteq> left_queue w \<union> settled_ids (rnOutcomes r)"
  using assms(1) unfolding bridge_reaches_def
proof (induction rule: rtranclp_induct)
  case base
  then show ?case by (simp add: started_def)
next
  case (step r r')
  then have ok: "running_ok r" using bridge_reaches_ok [OF _ assms(2)] by (simp add: bridge_reaches_def)
  from step(2) show ?case
  proof cases
    case worker
    then obtain outs where "rnOutcomes r' = rnOutcomes r @ outs"
        "left_queue (rnWorld r') \<subseteq> left_queue (rnWorld r) \<union> settled_ids outs"
      using worker_left [OF _ ok] by blast
    with step.IH show ?thesis unfolding settled_ids_append by auto
  next
    case handler
    have "left_queue (rnWorld r') \<subseteq> left_queue (rnWorld r)" "rnOutcomes r' = rnOutcomes r"
      using handler_left [OF handler] by simp_all
    with step.IH show ?thesis by (simp add: order_trans [of "left_queue (rnWorld r')" "left_queue (rnWorld r)"])
  next
    case token
    have "left_queue ((rnWorld r)\<lparr>wdWake := False\<rparr>) = left_queue (rnWorld r)" by (rule left_queue_same) simp
    with token step.IH show ?thesis by simp
  qed (use step.IH in simp_all)
qed

text \<open>A run in which the radio has delivered one position and its handling is over.\<close>

lemma sample_handled_run:
  "\<exists>r. bridge_reaches sample_deployment empty_world (Fin 25) (300 * second) r \<and> rnHandled r = [sample_message] \<and>
     rnHandler r = Idle \<and> rnOutcomes r = []"
proof -
  let ?dp = sample_deployment and ?s = "sample_start empty_world"
  let ?r = "?s\<lparr>rnHandler := Received sample_message\<rparr>"
  have "bridge_step ?dp ?s ?r" by (rule bridge_step.receive) (simp add: started_def)
  then have r: "bridge_reaches ?dp empty_world (Fin 25) (300 * second) ?r" unfolding bridge_reaches_def by blast
  obtain st' w2 where h: "Handle (dpLib ?dp) (service_of ?dp) sample_message (rnIngest ?r) (rnWorld ?r) = (None, st', w2)"
    unfolding service_of_def
    using Handle_succeeds [of empty_world "dpSchedule ?dp" sample_message "dpLib ?dp" "dpSum ?dp" True
        "dpDecodePositionApp ?dp" "rnIngest ?r"]
    by (auto simp: working_from_def sample_deployment_def standing_def empty_world_def db_wf_empty
        sample_message_packet sample_packet_def started_def)
  have "at_message ?r (Received sample_message) (rnIngest ?r) (rnWorld ?r) = ?r" by (simp add: at_message_def)
  with Handle_alone [OF h, of ?r]
  have r': "bridge_reaches ?dp empty_world (Fin 25) (300 * second) (after_message ?r None sample_message st' w2)"
    using alone_reaches_handler [OF _ r] by metis
  then show ?thesis
    by (intro exI [of _ "after_message ?r None sample_message st' w2"])
      (simp add: after_message_def at_message_def started_def)
qed

section \<open>Properties\<close>

text \<open>
  The map is always there: in every state the running bridge can reach, from a database whose rows can
  be read back, whatever was received, delivered or failed so far, a request for the positions is
  answered with status 200 and a JSON array of exactly one object per node that has a stored position,
  made from the row with the node's greatest source time; a failing query gives status 500.
\<close>
theorem map_always_answers:
  assumes "bridge_reaches dp w movement heartbeat r" "world_ok w" "presentable (wdDb w)" "clock_sane (dpSchedule dp)"
  shows "let d = wdDb (rnWorld r) in \<exists>ps. serve no_faults d None ''GET'' ''/api/positions'' =
      (\<lparr>rsStatus = 200, rsHeaders = [(''Content-Type'', ''application/json''), (''Cache-Control'', ''no-store''),
        (''X-Content-Type-Options'', ''nosniff'')], rsBody = Json (JArray (map (\<lambda>p. json_of (response_of p)) ps))\<rparr>, []) \<and>
    distinct (map SourceID ps) \<and> SourceID ` set ps = (\<lambda>r. NodeID (trSourceNode r)) ` set (positions d) \<and>
    (\<forall>p \<in> set ps. \<exists>r. is_latest d r \<and> scan_position r = Inr p) \<and>
    (\<forall>io e. io Query = Some e \<longrightarrow> rsStatus (fst (serve io d None ''GET'' ''/api/positions'')) = 500)"
proof -
  have "world_ok (rnWorld r)" using bridge_reaches_ok [OF assms(1,2)] by (simp add: running_ok_def)
  moreover have "presentable (wdDb (rnWorld r))"
    using bridge_reaches_tables [OF assms(1,3,4)] by (simp add: tables_ok_def)
  ultimately show ?thesis unfolding Let_def by (intro api_answer) (simp_all add: world_ok_def presentable_def)
qed

lemma sample_presentable: "presentable (wdDb sample_world)"
  using sample_queue_times [of 0 second]
  by (simp add: presentable_def sample_world_def second_def)
    (simp add: numbers_ok_def sample_queue_def position_row_of_def sample_fix_def stored_float_def)

lemma standing_sane: "clock_ok T \<Longrightarrow> clock_sane (standing fs T)"
  by (auto intro!: four_digit_yearI simp: clock_sane_def standing_def clock_ok_def second_def)

lemma sample_clock: "clock_ok (2 * second)"
  by (simp add: clock_ok_def second_def)

text \<open>Two positions of node 42 are on the map as one object.\<close>
theorem map_always_answers_witness:
  "\<exists>p. rsBody (fst (serve no_faults (wdDb sample_world) None ''GET'' ''/api/positions'')) =
     Json (JArray [json_of (response_of p)]) \<and> SourceID p = NodeID 42"
proof -
  have reach: "bridge_reaches sample_deployment sample_world (Fin 25) (300 * second) (sample_start sample_world)"
    by (simp add: bridge_reaches_def)
  have "clock_sane (dpSchedule sample_deployment)"
    using standing_sane [OF sample_clock] by (simp add: sample_deployment_def)
  from map_always_answers [OF reach sample_world_ok sample_presentable this] obtain ps where ps:
      "rsBody (fst (serve no_faults (wdDb sample_world) None ''GET'' ''/api/positions'')) =
        Json (JArray (map (\<lambda>p. json_of (response_of p)) ps))"
      "distinct (map SourceID ps)" "SourceID ` set ps = {NodeID 42}"
    by (auto simp: Let_def started_def sample_world_def sample_queue_def position_row_of_def sample_fix_def)
  then obtain p where "ps = [p]"
    by (cases ps; cases "tl ps") auto
  with ps show ?thesis by auto
qed

lemma worker_alone_archive:
  "alone (worker_step dp) r r' \<Longrightarrow> same_archive (wdDb (rnWorld r)) (wdDb (rnWorld r'))"
proof (induction rule: rtranclp_induct)
  case (step r1 r2)
  from step(3) worker_archive [OF step(2)] show ?case by (simp add: same_archive_def)
qed simp

text \<open>
  C8: The queue is worked off: while the database works, from every state \<open>r\<close> of the running bridge in which
  the worker sleeps, one tick of its ticker and then steps of the worker alone lead, while the clock stands
  between 1970 and 9999, to a state \<open>r'\<close> in which it sleeps again and no head of a node's queue is due,
  whatever CalTopo answers; the handler is where it was and the archive is the same. At the start the
  database satisfies the schema's constraints, has no negative count of attempts and its rows can be read
  back.
\<close>
theorem queue_worked_off:
  assumes "bridge_reaches dp w movement heartbeat r" "world_ok w" "presentable (wdDb w)" "clock_ok T"
    and "dpSchedule dp = standing (\<lambda>_. no_faults) T" "rnWorker r = Waiting"
  shows "\<exists>r'. bridge_step dp r (r\<lparr>rnWorker := Querying\<rparr>) \<and>
    (\<lambda>a b. worker_step dp a = Some b)\<^sup>*\<^sup>* (r\<lparr>rnWorker := Querying\<rparr>) r' \<and>
    rnWorker r' = Waiting \<and> rnHandler r' = rnHandler r \<and> same_archive (wdDb (rnWorld r)) (wdDb (rnWorld r')) \<and>
    (\<forall>x. is_head (wdDb (rnWorld r')) x \<longrightarrow> \<not> due T x)"
proof -
  obtain r' where r': "bridge_reaches dp w movement heartbeat r'" "rnWorker r' = Waiting" "rnHandler r' = rnHandler r"
      "alone (worker_step dp) (r\<lparr>rnWorker := Querying\<rparr>) r'"
      "rnLast r' = Failed \<or> (\<forall>x. is_head (wdDb (rnWorld r')) x \<longrightarrow> \<not> due T x)"
    using worker_catches_up [OF assms(1,2,4-6)] by blast
  have "rnLast r' \<noteq> Failed"
    by (rule bridge_never_fails [OF r'(1) assms(2,3)]) (use standing_sane [OF assms(4)] assms(5) in \<open>simp_all add: standing_def\<close>)
  moreover have "same_archive (wdDb (rnWorld r)) (wdDb (rnWorld r'))" using worker_alone_archive [OF r'(4)] by (simp add: same_archive_def)
  ultimately show ?thesis using r'(2-5) bridge_step.ticker [OF assms(6)] by blast
qed

text \<open>CalTopo times out on every update: the deliveries are put off, and nothing is due any more.\<close>
theorem queue_worked_off_witness:
  "\<exists>r'. (\<lambda>a b. worker_step (sample_deployment\<lparr>dpClient := broken_client\<rparr>) a = Some b)\<^sup>*\<^sup>*
      ((sample_start sample_world)\<lparr>rnWorld := Wake sample_world, rnWorker := Querying\<rparr>) r' \<and>
     rnWorker r' = Waiting \<and> (\<forall>x. is_head (wdDb (rnWorld r')) x \<longrightarrow> \<not> due (2 * second) x)"
proof -
  let ?dp = "sample_deployment\<lparr>dpClient := broken_client\<rparr>"
  let ?r1 = "(sample_start sample_world)\<lparr>rnWorld := Wake sample_world, rnWorker := Waiting\<rparr>"
  have "bridge_step ?dp (sample_start sample_world) ?r1"
    by (rule bridge_step.worker) (simp add: worker_step_def started_def)
  then have r: "bridge_reaches ?dp sample_world (Fin 25) (300 * second) ?r1"
    unfolding bridge_reaches_def by blast
  have s: "dpSchedule ?dp = standing (\<lambda>_. no_faults) (2 * second)" by (simp add: sample_deployment_def)
  from queue_worked_off [OF r sample_world_ok sample_presentable sample_clock s] show ?thesis by fastforce
qed

text \<open>
  Exactly once under every interleaving: in every state the running bridge can reach, the archive
  holds what it held at the start and then the raw bytes of the packet of every message handled so far,
  each once and in the order of reception, plus the one whose handling is past its transaction; a
  message whose handling failed on the way leaves nothing, however often it is handled again and
  whatever the worker does meanwhile.
\<close>
theorem interleaved_exactly_once:
  assumes "bridge_reaches dp w movement heartbeat r"
  shows "raw_packets (wdDb (rnWorld r)) = raw_packets (wdDb w) @ concat (map (raw_of (dpLib dp)) (rnHandled r)) @
    (case rnHandler r of Announcing m pk pos ids \<Rightarrow> raw_of (dpLib dp) m | _ \<Rightarrow> [])"
  using bridge_reaches_archive [OF assms] by (simp add: archive_ok_def archived_raw_def)

text \<open>The radio delivers one position; when its handling is over, one packet is archived.\<close>
theorem interleaved_exactly_once_witness:
  "\<exists>r. bridge_reaches sample_deployment empty_world (Fin 25) (300 * second) r \<and> rnHandled r = [sample_message] \<and>
     raw_packets (wdDb (rnWorld r)) = [[1]]"
proof -
  obtain r where r: "bridge_reaches sample_deployment empty_world (Fin 25) (300 * second) r"
      "rnHandled r = [sample_message]" "rnHandler r = Idle"
    using sample_handled_run by blast
  with interleaved_exactly_once [OF r(1)] show ?thesis
    by (intro exI [of _ r]) (simp add: sample_deployment_def sample_raw raw_packets_def empty_world_def empty_db_def)
qed

text \<open>
  No delivery is lost under any interleaving: in every state the running bridge can reach, every
  delivery of the database, queued before the start or since, is still outstanding, unless it was not
  at the start or the worker has decided it: published it to CalTopo, or left it out because the
  position had not moved.
\<close>
theorem settled_before_leaving:
  assumes "bridge_reaches dp w movement heartbeat r" "world_ok w"
  shows "drId ` set (deliveries (wdDb (rnWorld r))) - outstanding (rnWorld r) \<subseteq>
    (drId ` set (deliveries (wdDb w)) - outstanding w) \<union>
    {dvID d | d out. (d, out) \<in> set (rnOutcomes r) \<and> (out = Suppressed \<or> (\<exists>pos. out = Published pos))}"
proof -
  have "settled_ids (rnOutcomes r) \<subseteq>
      {dvID d | d out. (d, out) \<in> set (rnOutcomes r) \<and> (out = Suppressed \<or> (\<exists>pos. out = Published pos))}"
  proof
    fix i assume "i \<in> settled_ids (rnOutcomes r)"
    then obtain d out where "(d, out) \<in> set (rnOutcomes r)" "settled_outcome out" "i = dvID d"
      by (auto simp: settled_ids_def)
    then show "i \<in> {dvID d | d out. (d, out) \<in> set (rnOutcomes r) \<and> (out = Suppressed \<or> (\<exists>pos. out = Published pos))}"
      by (cases out) auto
  qed
  with bridge_reaches_left [OF assms] show ?thesis
    unfolding left_queue_def delivery_ids_def set_map by blast
qed

text \<open>Published but not yet marked: the deliveries are all still outstanding, so a crash here repeats one.\<close>
theorem settled_before_leaving_witness:
  "\<exists>(r :: unit running) d pos ds. rnWorker r = Settling d (Published pos) ds \<and>
     drId ` set (deliveries (wdDb (rnWorld r))) \<subseteq> outstanding (rnWorld r)"
proof -
  obtain r d pos ds where r: "bridge_reaches sample_deployment sample_world (Fin 25) (300 * second) r"
      "rnWorker r = Settling d (Published pos) ds" "rnOutcomes r = []"
    using sample_settling by blast
  have s: "drId ` set (deliveries (wdDb sample_world)) \<subseteq> outstanding sample_world"
    by (simp add: sample_world_def sample_queue_def outstanding_def pending_where_def delivery_row_of_def)
      (simp add: image_iff conj_disj_distribR ex_disj_distrib)
  have "drId ` set (deliveries (wdDb (rnWorld r))) \<subseteq> outstanding (rnWorld r)"
    by (rule none_left [OF settled_before_leaving [OF r(1) sample_world_ok] _ s]) (simp add: r(3))
  with r(2) show ?thesis by blast
qed

end
