(* ===== verification/Recovery.thy ===== *)
theory Recovery
  imports System
begin

text \<open>
  Crashes and restarts. The process may end at any step of \<open>Interleaving\<close>; what remains is the database, since a
  step is one statement or one transaction of \<^verbatim>\<open>internal/store/store.go\<close>. The next process starts with an
  empty filter, a new channel and a new CalTopo client (\<^verbatim>\<open>cmd/bridge/main.go\<close>).
\<close>

definition booted :: "db \<Rightarrow> 'c \<Rightarrow> nat \<Rightarrow> 'c world" where
  "booted d c n = \<lparr>wdDb = d, wdClient = c, wdTick = n, wdWake = False\<rparr>"

text \<open>The messages whose transaction is over.\<close>

definition archived_messages :: "'c running \<Rightarrow> from_radio list" where
  "archived_messages r = rnHandled r @ (case rnHandler r of Announcing m pk pos ids \<Rightarrow> [m] | _ \<Rightarrow> [])"

text \<open>
  Any number of processes in succession on the database \<open>d0\<close>, each with its own configuration, schedule of
  failures and point of death: the messages archived and the decisions taken by all of them, and the
  database they leave.
\<close>

inductive lives :: "pb_lib \<Rightarrow> 'c gotopo \<Rightarrow> db \<Rightarrow> from_radio list \<Rightarrow> (delivery \<times> outcome) list \<Rightarrow> db \<Rightarrow> bool"
  for lib client d0 where
  never: "lives lib client d0 [] [] d0"
| again: "lives lib client d0 ms outs d \<Longrightarrow> dpLib dp = lib \<Longrightarrow> dpClient dp = client \<Longrightarrow>
    bridge_reaches dp (booted d c n) movement heartbeat r \<Longrightarrow>
    lives lib client d0 (ms @ archived_messages r) (outs @ rnOutcomes r) (wdDb (rnWorld r))"

lemma booted_ok:
  "world_ok (booted d c n) \<longleftrightarrow> db_wf d \<and> (\<forall>r \<in> set (deliveries d). 0 \<le> drAttempts r)"
  by (simp add: world_ok_def booted_def)

lemma left_booted: "left_queue (booted d c n) = delivery_ids d - pending_where (\<lambda>_. True) d"
  by (simp add: left_queue_def outstanding_def booted_def)

lemma life_archive:
  assumes "bridge_reaches dp (booted d c n) movement heartbeat r"
  shows "raw_packets (wdDb (rnWorld r)) = raw_packets d @ concat (map (raw_of (dpLib dp)) (archived_messages r))"
  using bridge_reaches_archive [OF assms]
  by (cases "rnHandler r") (simp_all add: archive_ok_def archived_raw_def archived_messages_def booted_def)

section \<open>Every position is queued\<close>

text \<open>Every position has a delivery, but for those in \<open>U\<close>.\<close>

definition queued_but :: "int set \<Rightarrow> db \<Rightarrow> bool" where
  "queued_but U d \<longleftrightarrow> trId ` set (positions d) \<subseteq> snd ` set (delivery_links d) \<union> U"

lemma fact_ids: "map fact_of (positions d') = map fact_of (positions d) \<Longrightarrow> trId ` set (positions d') = trId ` set (positions d)"
proof -
  assume "map fact_of (positions d') = map fact_of (positions d)"
  then have "map fst (map fact_of (positions d')) = map fst (map fact_of (positions d))" by (rule arg_cong)
  then have "map trId (positions d') = map trId (positions d)" by (simp add: o_def fact_of_def)
  then show ?thesis by (metis set_map)
qed

lemma quiet_queued: "leaves_queue w w' \<Longrightarrow> queued_but U (wdDb w') = queued_but U (wdDb w)"
  using fact_ids [of "wdDb w'" "wdDb w"] by (simp add: leaves_queue_def queued_but_def delivery_links_def)

lemma archive_queued:
  assumes "svArchive (world_service sum256 sched True app) p pos True w = (out, w')" "queued_but U (wdDb w)"
  shows "queued_but U (wdDb w')"
proof -
  obtain d' where a: "Archive sum256 (io_at sched w) (now_at sched w) p pos True (wdDb w) = (out, d')"
    and w': "w' = tick (w\<lparr>wdDb := d'\<rparr>)"
    using assms(1) by (auto simp: world_service_def on_db_eq)
  have "queued_but U d'"
    using a assms(2)
    by (cases rule: Archive_cases)
      (auto simp: queued_but_def delivery_links_def insert_packet_Inr insert_position_Inr insert_delivery_Inr
        row_of_defs split: if_splits)
  then show ?thesis by (simp add: w')
qed

lemma handler_queued:
  assumes "handler_step dp r = Some r'" "queued_but U (wdDb (rnWorld r))"
  shows "queued_but U (wdDb (rnWorld r'))"
proof (cases "rnHandler r")
  case (Received m)
  with assms show ?thesis
    unfolding handler_step_def service_of_def Let_def
    by (auto dest!: quiet_feeds quiet_queued split: option.splits sum.splits prod.splits)
next
  case (Resolving m pk pos)
  with assms show ?thesis
    unfolding handler_step_def service_of_def Let_def
    by (auto dest!: quiet_feeds quiet_queued split: option.splits sum.splits prod.splits)
next
  case (Storing m pk pos)
  moreover have "svEnqueueCalTopo (service_of dp)" by (simp add: service_of_def world_service_def)
  ultimately show ?thesis
    using assms unfolding handler_step_def service_of_def Let_def
    by (auto dest!: archive_queued split: option.splits sum.splits prod.splits)
next
  case (Announcing m pk pos ids)
  with assms show ?thesis
    unfolding handler_step_def service_of_def Let_def
    by (auto dest!: announce_presentable split: option.splits sum.splits prod.splits)
qed (use assms in \<open>simp add: handler_step_def\<close>)

lemma bridge_reaches_queued:
  assumes "bridge_reaches dp w movement heartbeat r" "queued_but U (wdDb w)"
  shows "queued_but U (wdDb (rnWorld r))"
  using assms(1) unfolding bridge_reaches_def
proof (induction rule: rtranclp_induct)
  case base
  then show ?case using assms(2) by (simp add: started_def)
next
  case (step r r')
  from step(2) show ?case
  proof cases
    case worker
    with step.IH worker_links [OF worker] worker_archive [OF worker] show ?thesis
      by (simp add: queued_but_def same_archive_def)
  next
    case handler
    then show ?thesis by (rule handler_queued [OF _ step.IH])
  qed (use step.IH in simp_all)
qed

section \<open>Any number of lives\<close>

lemma lives_left:
  assumes "lives lib client d0 ms outs d" "db_wf d0" "\<forall>r \<in> set (deliveries d0). 0 \<le> drAttempts r"
  shows "db_wf d \<and> (\<forall>r \<in> set (deliveries d). 0 \<le> drAttempts r) \<and>
    raw_packets d = raw_packets d0 @ concat (map (raw_of lib) ms) \<and>
    delivery_ids d - pending_where (\<lambda>_. True) d \<subseteq>
      (delivery_ids d0 - pending_where (\<lambda>_. True) d0) \<union> settled_ids outs"
  using assms(1)
proof induction
  case never
  show ?case using assms(2,3) by simp
next
  case (again ms outs d dp c n movement heartbeat r)
  then have ok: "world_ok (booted d c n)" by (simp add: booted_ok)
  have "world_ok (rnWorld r)" using bridge_reaches_ok [OF again.hyps(4) ok] by (simp add: running_ok_def)
  moreover have "left_queue (rnWorld r) \<subseteq> left_queue (booted d c n) \<union> settled_ids (rnOutcomes r)"
    by (rule bridge_reaches_left [OF again.hyps(4) ok])
  then have "delivery_ids (wdDb (rnWorld r)) - pending_where (\<lambda>_. True) (wdDb (rnWorld r)) \<subseteq>
      (delivery_ids d - pending_where (\<lambda>_. True) d) \<union> settled_ids (rnOutcomes r)"
    unfolding left_booted by (simp add: left_queue_def outstanding_def)
  ultimately show ?case
    using again life_archive [OF again.hyps(4)] by (auto simp: world_ok_def)
qed

lemma lives_queued: "lives lib client d0 ms outs d \<Longrightarrow> queued_but U d0 \<Longrightarrow> queued_but U d"
proof (induction rule: lives.induct)
  case (again ms outs d dp c n movement heartbeat r)
  then show ?case using bridge_reaches_queued [OF again.hyps(4)] by (simp add: booted_def)
qed

text \<open>A position without a delivery had none at the start.\<close>

lemma lives_unqueued:
  assumes "lives lib client d0 ms outs d" "p \<in> set (positions d)" "\<forall>x \<in> set (deliveries d). drPositionId x \<noteq> trId p"
  shows "(\<exists>p0 \<in> set (positions d0). trId p0 = trId p) \<and> (\<forall>x \<in> set (deliveries d0). drPositionId x \<noteq> trId p)"
proof -
  let ?U = "trId ` set (positions d0) - snd ` set (delivery_links d0)"
  have "queued_but ?U d" by (rule lives_queued [OF assms(1)]) (auto simp: queued_but_def)
  moreover have "trId p \<notin> snd ` set (delivery_links d)" using assms(3) by (auto simp: delivery_links_def)
  ultimately have "trId p \<in> ?U" using assms(2) by (auto simp: queued_but_def)
  then show ?thesis by (force simp: delivery_links_def)
qed

lemma lives_account:
  assumes "lives lib client d0 ms outs d" "db_wf d0" "\<forall>r \<in> set (deliveries d0). 0 \<le> drAttempts r"
  shows "raw_packets d = raw_packets d0 @ concat (map (raw_of lib) ms) \<and>
    (\<forall>p \<in> set (positions d).
      (\<exists>x \<in> set (deliveries d). drPositionId x = trId p \<and> (drState x = Pending \<or>
        (\<exists>x0 \<in> set (deliveries d0). drId x0 = drId x \<and> drState x0 \<noteq> Pending) \<or>
        (\<exists>(v, out) \<in> set outs. dvID v = drId x \<and> (out = Suppressed \<or> (\<exists>pos. out = Published pos))))) \<or>
      ((\<exists>p0 \<in> set (positions d0). trId p0 = trId p) \<and> (\<forall>x \<in> set (deliveries d0). drPositionId x \<noteq> trId p)))"
proof -
  note l = lives_left [OF assms(1-3)]
  then have inj: "inj_on drId (set (deliveries d))" by (simp add: db_wf_def ids_ok_def distinct_map)
  have "(\<exists>x0 \<in> set (deliveries d0). drId x0 = drId x \<and> drState x0 \<noteq> Pending) \<or>
      (\<exists>(v, out) \<in> set outs. dvID v = drId x \<and> (out = Suppressed \<or> (\<exists>pos. out = Published pos)))"
    if x: "x \<in> set (deliveries d)" "drState x \<noteq> Pending" for x
  proof -
    have "drId x \<in> delivery_ids d" using x(1) by (simp add: delivery_ids_def)
    moreover have "drId x \<notin> pending_where (\<lambda>_. True) d"
      using x inj by (auto simp: pending_where_def dest: inj_onD)
    ultimately consider "drId x \<in> delivery_ids d0" "drId x \<notin> pending_where (\<lambda>_. True) d0" | "drId x \<in> settled_ids outs"
      using l by blast
    then show ?thesis
    proof cases
      case 1
      then show ?thesis by (auto simp: delivery_ids_def pending_where_def)
    next
      case 2
      then obtain v out where "(v, out) \<in> set outs" "settled_outcome out" "dvID v = drId x"
        by (auto simp: settled_ids_def)
      then show ?thesis by (cases out) auto
    qed
  qed
  note gone = this
  show ?thesis
  proof (intro conjI ballI)
    show "raw_packets d = raw_packets d0 @ concat (map (raw_of lib) ms)" using l by simp
    fix p assume p: "p \<in> set (positions d)"
    consider "\<forall>x \<in> set (deliveries d). drPositionId x \<noteq> trId p"
      | x where "x \<in> set (deliveries d)" "drPositionId x = trId p"
      by blast
    then show "(\<exists>x \<in> set (deliveries d). drPositionId x = trId p \<and> (drState x = Pending \<or>
        (\<exists>x0 \<in> set (deliveries d0). drId x0 = drId x \<and> drState x0 \<noteq> Pending) \<or>
        (\<exists>(v, out) \<in> set outs. dvID v = drId x \<and> (out = Suppressed \<or> (\<exists>pos. out = Published pos))))) \<or>
      ((\<exists>p0 \<in> set (positions d0). trId p0 = trId p) \<and> (\<forall>x \<in> set (deliveries d0). drPositionId x \<noteq> trId p))"
    proof cases
      case 1
      with lives_unqueued [OF assms(1) p] show ?thesis by blast
    next
      case 2
      with gone [OF 2(1)] show ?thesis by (intro disjI1 bexI [of _ x]) blast+
    qed
  qed
qed

section \<open>Property\<close>

text \<open>
  C2: No crash loses anything: take a database that satisfies the schema's constraints (with no negative
  count of attempts), whatever process has left it, and any number of processes with CalTopo enabled, each
  killed at any step and started again on what the one before it left. The archive is then what it was at
  first and after it every message whose transaction was over, once and in order. Every position stored
  has its delivery, which is still pending unless some process published it or left it out as unmoved, or it
  was settled from the start; the one exception is a position that was already there at the start and
  had no delivery then, as a process without CalTopo stores it (C19).
\<close>
theorem crashes_lose_nothing:
  assumes "lives lib client d0 ms outs d" "db_wf d0" "\<forall>r \<in> set (deliveries d0). 0 \<le> drAttempts r"
  shows "raw_packets d = raw_packets d0 @ concat (map (raw_of lib) ms) \<and>
    (\<forall>p \<in> set (positions d).
      (\<exists>x \<in> set (deliveries d). drPositionId x = trId p \<and> (drState x = Pending \<or>
        (\<exists>x0 \<in> set (deliveries d0). drId x0 = drId x \<and> drState x0 \<noteq> Pending) \<or>
        (\<exists>(v, out) \<in> set outs. dvID v = drId x \<and> (out = Suppressed \<or> (\<exists>pos. out = Published pos))))) \<or>
      ((\<exists>p0 \<in> set (positions d0). trId p0 = trId p) \<and> (\<forall>x \<in> set (deliveries d0). drPositionId x \<noteq> trId p)))"
  by (rule lives_account [OF assms])

text \<open>One process archives a packet and is killed; the next is killed before it does anything.\<close>
theorem crashes_lose_nothing_witness:
  "\<exists>d. lives sample_lib sample_client empty_db [sample_message] [] d \<and> raw_packets d = [[1]]"
proof -
  have b: "booted empty_db () 0 = empty_world" by (simp add: booted_def empty_world_def)
  obtain r where r: "bridge_reaches sample_deployment (booted empty_db () 0) (Fin 25) (300 * second) r"
      "rnHandled r = [sample_message]" "rnHandler r = Idle" "rnOutcomes r = []"
    using sample_handled_run unfolding b by blast
  have s: "dpLib sample_deployment = sample_lib" "dpClient sample_deployment = sample_client"
    by (simp_all add: sample_deployment_def)
  have once: "lives sample_lib sample_client empty_db [sample_message] [] (wdDb (rnWorld r))"
    using lives.again [OF lives.never s r(1)] r(2-4) by (simp add: archived_messages_def)
  have "bridge_reaches sample_deployment (booted d () 0) (Fin 25) (300 * second) (started (booted d () 0) (Fin 25) (300 * second))"
    for d by (simp add: bridge_reaches_def)
  from lives.again [OF once s this] have "lives sample_lib sample_client empty_db [sample_message] [] (wdDb (rnWorld r))"
    by (simp add: archived_messages_def started_def booted_def)
  moreover have "db_wf empty_db" by (rule db_wf_empty)
  ultimately show ?thesis
    using crashes_lose_nothing [of sample_lib sample_client empty_db "[sample_message]" "[]"]
    by (intro exI [of _ "wdDb (rnWorld r)"]) (simp add: sample_raw raw_packets_def empty_db_def)
qed

end
