(* ===== verification/Live.thy ===== *)
theory Live
  imports System
begin

text \<open>
  The whole intake beside the worker: the goroutine of \<^verbatim>\<open>internal/meshtastic/serial.go\<close> step by step, in front
  of the handler's and the worker's steps of \<open>Interleaving\<close>. A step of the source is one check of the
  context, one read, or one frame handed on; between any two of them the worker may run. The bytes are
  whatever the port returns.
\<close>

section \<open>The source's steps\<close>

text \<open>
  \<open>Connecting\<close> is the top of the loop of \<open>Run\<close>, \<open>Looping\<close> that of \<open>consume\<close>. \<open>Handling\<close> holds the frames still
  to be handled and the error of the read they came from, \<open>Pausing\<close> is the \<open>sleep\<close> after a failed
  attempt, \<open>Lost\<close> follows an error of \<open>consume\<close>.
\<close>

datatype source_pc =
    Connecting
  | Looping framer
  | Reading framer
  | Handling framer "byte list list" "go_error option"
  | Pausing framer "byte list list" "go_error option"
  | Lost
  | Finished

text \<open>
  History variables: \<open>lvRead\<close> is what was read on the present connection, \<open>lvSessions\<close> on those before.
\<close>

record 'c live =
  lvRunning :: "'c running"
  lvSource :: source_pc
  lvRead :: "byte list"
  lvSessions :: "byte list list"

text \<open>The handler's last step of an attempt that failed leaves the message at hand.\<close>

definition attempt_failed :: "'c running \<Rightarrow> bool" where
  "attempt_failed r \<longleftrightarrow> (case rnHandler r of Received m \<Rightarrow> True | _ \<Rightarrow> False)"

text \<open>The steps of the other goroutines, and the cancellation of the context.\<close>

inductive worker_side :: "'c deployment \<Rightarrow> 'c running \<Rightarrow> 'c running \<Rightarrow> bool" for dp where
  worker: "worker_step dp r = Some r' \<Longrightarrow> worker_side dp r r'"
| ticker: "rnWorker r = Waiting \<Longrightarrow> worker_side dp r (r\<lparr>rnWorker := Querying\<rparr>)"
| token: "rnWorker r = Waiting \<Longrightarrow> wdWake (rnWorld r) \<Longrightarrow>
    worker_side dp r (r\<lparr>rnWorld := (rnWorld r)\<lparr>wdWake := False\<rparr>, rnWorker := Querying\<rparr>)"
| cancel: "worker_side dp r (r\<lparr>rnCancelled := True\<rparr>)"
| stop: "rnWorker r = Waiting \<Longrightarrow> rnCancelled r \<Longrightarrow> worker_side dp r (r\<lparr>rnWorker := Stopped\<rparr>)"

text \<open>
  \<open>finish\<close> are the checks of the context before a connection, after one, and before a read. An attempt to
  open the port that fails leaves the state as it is; \<open>connect\<close> is one that opens it and writes the
  request, \<open>request_failed\<close> one whose request could not be marshalled or written. A read returns at most
  the buffer's 1024 bytes, with or without an error, which counts after the frames.
\<close>

inductive live_step :: "'c deployment \<Rightarrow> radio_lib \<Rightarrow> 'c live \<Rightarrow> 'c live \<Rightarrow> bool" for dp radio where
  others: "worker_side dp (lvRunning v) r' \<Longrightarrow> live_step dp radio v (v\<lparr>lvRunning := r'\<rparr>)"
| finish: "lvSource v = Connecting \<or> lvSource v = Lost \<or> (\<exists>fr. lvSource v = Looping fr) \<Longrightarrow> rnCancelled (lvRunning v) \<Longrightarrow>
    live_step dp radio v (v\<lparr>lvSource := Finished\<rparr>)"
| connect: "lvSource v = Connecting \<Longrightarrow> live_step dp radio v (v\<lparr>lvSource := Looping init_framer\<rparr>)"
| request_failed: "lvSource v = Connecting \<Longrightarrow> live_step dp radio v (v\<lparr>lvSource := Lost\<rparr>)"
| look: "lvSource v = Looping fr \<Longrightarrow> \<not> rnCancelled (lvRunning v) \<Longrightarrow> live_step dp radio v (v\<lparr>lvSource := Reading fr\<rparr>)"
| read: "lvSource v = Reading fr \<Longrightarrow> length bs \<le> 1024 \<Longrightarrow>
    (if bs = [] then (fr, [], []) else push fr bs) = (fr', frames, errs) \<Longrightarrow>
    live_step dp radio v (v\<lparr>lvSource := Handling fr' frames e, lvRead := lvRead v @ bs\<rparr>)"
| discard: "lvSource v = Handling fr (f # fs) e \<Longrightarrow> rnHandler (lvRunning v) = Idle \<Longrightarrow>
    unmarshal_from_radio radio f = Inl err \<Longrightarrow> live_step dp radio v (v\<lparr>lvSource := Handling fr fs e\<rparr>)"
| message: "lvSource v = Handling fr (f # fs) e \<Longrightarrow> rnHandler (lvRunning v) = Idle \<Longrightarrow>
    unmarshal_from_radio radio f = Inr m \<Longrightarrow>
    live_step dp radio v (v\<lparr>lvRunning := (lvRunning v)\<lparr>rnHandler := Received m\<rparr>, lvSource := Handling fr fs e\<rparr>)"
| handle: "lvSource v = Handling fr fs e \<Longrightarrow> handler_step dp (lvRunning v) = Some r' \<Longrightarrow>
    live_step dp radio v (v\<lparr>lvRunning := r',
      lvSource := (if attempt_failed r' then Pausing fr fs e else Handling fr fs e)\<rparr>)"
| resume: "lvSource v = Pausing fr fs e \<Longrightarrow> live_step dp radio v (v\<lparr>lvSource := Handling fr fs e\<rparr>)"
| abandon: "lvSource v = Pausing fr fs e \<Longrightarrow> rnCancelled (lvRunning v) \<Longrightarrow>
    live_step dp radio v (v\<lparr>lvSource := Finished\<rparr>)"
| again: "lvSource v = Handling fr [] None \<Longrightarrow> rnHandler (lvRunning v) = Idle \<Longrightarrow>
    live_step dp radio v (v\<lparr>lvSource := Looping fr\<rparr>)"
| lost: "lvSource v = Handling fr [] (Some err) \<Longrightarrow> rnHandler (lvRunning v) = Idle \<Longrightarrow>
    live_step dp radio v (v\<lparr>lvSource := Lost\<rparr>)"
| reconnect: "lvSource v = Lost \<Longrightarrow>
    live_step dp radio v (v\<lparr>lvSource := Connecting, lvRead := [], lvSessions := lvSessions v @ [lvRead v]\<rparr>)"

definition live_started :: "'c world \<Rightarrow> f64 \<Rightarrow> duration \<Rightarrow> 'c live" where
  "live_started w movement heartbeat =
     \<lparr>lvRunning = started w movement heartbeat, lvSource = Connecting, lvRead = [], lvSessions = []\<rparr>"

definition live_reaches :: "'c deployment \<Rightarrow> radio_lib \<Rightarrow> 'c world \<Rightarrow> f64 \<Rightarrow> duration \<Rightarrow> 'c live \<Rightarrow> bool" where
  "live_reaches dp radio w movement heartbeat v \<longleftrightarrow>
     (live_step dp radio)\<^sup>*\<^sup>* (live_started w movement heartbeat) v"

section \<open>The rest of the bridge does not see the difference\<close>

lemma worker_side_step: "worker_side dp r r' \<Longrightarrow> bridge_step dp r r'"
  by (induction rule: worker_side.induct) (auto intro: bridge_step.intros)

lemma live_step_bridge: "live_step dp radio v v' \<Longrightarrow> (bridge_step dp)\<^sup>*\<^sup>* (lvRunning v) (lvRunning v')"
  by (induction rule: live_step.induct)
    (auto intro: worker_side_step bridge_step.receive bridge_step.handler)

lemma live_reaches_bridge:
  assumes "live_reaches dp radio w movement heartbeat v"
  shows "bridge_reaches dp w movement heartbeat (lvRunning v)"
  using assms unfolding live_reaches_def bridge_reaches_def
proof (induction rule: rtranclp_induct)
  case base
  then show ?case by (simp add: live_started_def)
next
  case (step v v')
  from step.IH live_step_bridge [OF step(2)] show ?case by (rule rtranclp_trans)
qed

section \<open>Where every message is\<close>

definition messages_of :: "radio_lib \<Rightarrow> byte list \<Rightarrow> from_radio list" where
  "messages_of radio bs = messages_in (unmarshal_from_radio radio) (frames_of init_framer bs)"

definition received :: "radio_lib \<Rightarrow> 'c live \<Rightarrow> from_radio list" where
  "received radio v = concat (map (messages_of radio) (lvSessions v @ [lvRead v]))"

definition under_way :: "handler_pc \<Rightarrow> from_radio list" where
  "under_way pc = (case pc of Idle \<Rightarrow> [] | Received m \<Rightarrow> [m] | Resolving m pk pos \<Rightarrow> [m] | Storing m pk pos \<Rightarrow> [m]
     | Announcing m pk pos ids \<Rightarrow> [m])"

definition queued_frames :: "source_pc \<Rightarrow> byte list list" where
  "queued_frames pc = (case pc of Handling fr fs e \<Rightarrow> fs | Pausing fr fs e \<Rightarrow> fs | _ \<Rightarrow> [])"

definition source_framer :: "source_pc \<Rightarrow> framer option" where
  "source_framer pc = (case pc of Looping fr \<Rightarrow> Some fr | Reading fr \<Rightarrow> Some fr | Handling fr fs e \<Rightarrow> Some fr
     | Pausing fr fs e \<Rightarrow> Some fr | _ \<Rightarrow> None)"

definition busy :: "source_pc \<Rightarrow> bool" where
  "busy pc \<longleftrightarrow> (case pc of Handling fr fs e \<Rightarrow> True | Pausing fr fs e \<Rightarrow> True | Finished \<Rightarrow> True | _ \<Rightarrow> False)"

text \<open>
  What was received is handled, at hand, or in the frames of the last read, in this order; only a
  cancelled source has given some of it up.
\<close>

definition live_ok :: "radio_lib \<Rightarrow> 'c live \<Rightarrow> bool" where
  "live_ok radio v \<longleftrightarrow>
     (\<exists>dropped. received radio v = rnHandled (lvRunning v) @ under_way (rnHandler (lvRunning v)) @
        messages_in (unmarshal_from_radio radio) (queued_frames (lvSource v)) @ dropped \<and>
        (dropped \<noteq> [] \<longrightarrow> lvSource v = Finished)) \<and>
     (lvSource v = Finished \<longrightarrow> rnCancelled (lvRunning v)) \<and>
     (\<not> busy (lvSource v) \<longrightarrow> rnHandler (lvRunning v) = Idle) \<and>
     (lvSource v = Connecting \<longrightarrow> lvRead v = []) \<and>
     (\<forall>fr. source_framer (lvSource v) = Some fr \<longrightarrow> (\<exists>frames errs. push init_framer (lvRead v) = (fr, frames, errs)))"

lemma worker_side_keeps:
  "worker_side dp r r' \<Longrightarrow> rnHandler r' = rnHandler r \<and> rnHandled r' = rnHandled r \<and> (rnCancelled r \<longrightarrow> rnCancelled r')"
proof (induction rule: worker_side.induct)
  case (worker r r')
  moreover have "rnCancelled r' = rnCancelled r"
    using worker by (auto simp: worker_step_def split: worker_pc.splits list.splits prod.splits sum.splits option.splits)
  ultimately show ?case using worker_archive by blast
qed simp_all

lemma handler_step_keeps:
  assumes "handler_step dp r = Some r'"
  shows "rnHandled r' @ under_way (rnHandler r') = rnHandled r @ under_way (rnHandler r) \<and> rnCancelled r' = rnCancelled r"
  using assms
  by (cases "rnHandler r")
    (auto simp: handler_step_def Let_def under_way_def split: option.splits sum.splits prod.splits if_splits)

lemma push_more:
  assumes "push init_framer bs0 = (fr, frames0, errs0)" "(if bs = [] then (fr, [], []) else push fr bs) = (fr', frames, errs)"
  shows "messages_of radio (bs0 @ bs) = messages_of radio bs0 @ messages_in (unmarshal_from_radio radio) frames"
    and "\<exists>frames' errs'. push init_framer (bs0 @ bs) = (fr', frames', errs')"
proof -
  note feed = round_feed [OF settled_push [OF assms(1)] assms(2)]
  have "frames_of init_framer bs0 = frames0" using assms(1) by (simp add: frames_of_def)
  then show "messages_of radio (bs0 @ bs) = messages_of radio bs0 @ messages_in (unmarshal_from_radio radio) frames"
    by (simp add: messages_of_def frames_of_append [OF assms(1)] feed(3))
  show "\<exists>frames' errs'. push init_framer (bs0 @ bs) = (fr', frames', errs')"
    using push_append [of init_framer bs0 bs] assms(1) feed(1) by simp
qed

lemma messages_of_Nil [simp]: "messages_of radio [] = []"
  by (simp add: messages_of_def frames_of_Nil [OF settled_init])

lemmas live_ok_defs = live_ok_def received_def queued_frames_def source_framer_def busy_def under_way_def

lemma live_step_ok:
  assumes "live_step dp radio v v'" "live_ok radio v"
  shows "live_ok radio v'"
  using assms
proof (induction rule: live_step.induct)
  case (others v r')
  then show ?case using worker_side_keeps [OF others(1)] by (simp add: live_ok_def received_def)
next
  case (finish v)
  then show ?case by (auto simp: live_ok_defs)
next
  case (connect v)
  have "\<exists>frames errs. push init_framer [] = (init_framer, frames, errs)" by simp
  with connect show ?case by (auto simp: live_ok_defs)
next
  case (read v fr bs fr' frames errs e)
  then obtain frames0 errs0 where p: "push init_framer (lvRead v) = (fr, frames0, errs0)"
    by (auto simp: live_ok_def source_framer_def)
  from read push_more [OF p read(3)] show ?case by (simp add: live_ok_defs)
next
  case (handle v fr fs e r')
  with handler_step_keeps [OF handle(2)] show ?case
    by (auto simp: live_ok_def received_def queued_frames_def source_framer_def busy_def)
next
  case (abandon v fr fs e)
  then have "received radio v = rnHandled (lvRunning v) @ under_way (rnHandler (lvRunning v)) @
      messages_in (unmarshal_from_radio radio) fs"
    by (auto simp: live_ok_def queued_frames_def)
  with abandon show ?case
    by (auto simp: live_ok_def received_def queued_frames_def source_framer_def busy_def)
next
  case (reconnect v)
  then show ?case by (simp add: live_ok_defs)
qed (auto simp: live_ok_defs)

lemma live_reaches_ok:
  assumes "live_reaches dp radio w movement heartbeat v"
  shows "live_ok radio v"
  using assms unfolding live_reaches_def
proof (induction rule: rtranclp_induct)
  case base
  then show ?case by (simp add: live_ok_defs live_started_def started_def)
qed (rule live_step_ok)

section \<open>Alone, the source is its sequential definition\<close>

text \<open>The machine of \<open>Bridge\<close> and the interleaved one hold the same world.\<close>

definition in_step :: "'c live \<Rightarrow> 'c machine \<Rightarrow> bool" where
  "in_step v s \<longleftrightarrow> rnWorld (lvRunning v) = mcWorld s \<and> rnIngest (lvRunning v) = mcIngest s"

definition standing_at :: "source_pc \<Rightarrow> handler_pc \<Rightarrow> 'c live \<Rightarrow> 'c machine \<Rightarrow> bool" where
  "standing_at pc h v s \<longleftrightarrow> lvSource v = pc \<and> rnHandler (lvRunning v) = h \<and> \<not> rnCancelled (lvRunning v) \<and> in_step v s"

abbreviation goes :: "'c deployment \<Rightarrow> radio_lib \<Rightarrow> 'c live \<Rightarrow> 'c live \<Rightarrow> bool" where
  "goes dp radio \<equiv> (live_step dp radio)\<^sup>*\<^sup>*"

abbreviation live_source :: "'c deployment \<Rightarrow> radio_lib \<Rightarrow> port_script \<Rightarrow> (from_radio, 'c machine) source" where
  "live_source dp radio port \<equiv> bridge_source (dpLib dp) radio port (service_of dp)"

lemma goes_step: "live_step dp radio v v1 \<Longrightarrow> goes dp radio v1 v2 \<Longrightarrow> goes dp radio v v2"
  by (rule converse_rtranclp_into_rtranclp)

lemma goes_cancelled:
  assumes "lvSource v = Connecting \<or> lvSource v = Lost \<or> (\<exists>fr. lvSource v = Looping fr) \<or> (\<exists>fr fs e. lvSource v = Pausing fr fs e)"
    and "in_step v s" "mcWorld s' = mcWorld s" "mcIngest s' = mcIngest s"
  shows "\<exists>v'. goes dp radio v v' \<and> lvSource v' = Finished \<and> in_step v' s'"
proof -
  let ?v = "v\<lparr>lvRunning := (lvRunning v)\<lparr>rnCancelled := True\<rparr>\<rparr>"
  have c: "live_step dp radio v ?v" by (rule live_step.others) (rule worker_side.cancel)
  have "live_step dp radio ?v (?v\<lparr>lvSource := Finished\<rparr>)"
    using assms(1) by (auto intro: live_step.finish live_step.abandon)
  with c have "goes dp radio v (?v\<lparr>lvSource := Finished\<rparr>)" by (auto intro: goes_step)
  with assms(2-4) show ?thesis by (intro exI [of _ "?v\<lparr>lvSource := Finished\<rparr>"]) (simp add: in_step_def)
qed

lemma goes_handling:
  assumes "alone (handler_step dp) r r'" "lvRunning v = r" "lvSource v = Handling fr fs e"
  shows "\<exists>v'. goes dp radio v v' \<and> lvRunning v' = r' \<and> lvRead v' = lvRead v \<and> lvSessions v' = lvSessions v \<and>
    lvSource v' = (if r' \<noteq> r \<and> attempt_failed r' then Pausing fr fs e else lvSource v') \<and>
    (lvSource v' = Handling fr fs e \<or> lvSource v' = Pausing fr fs e \<and> attempt_failed r')"
  using assms(1)
proof (induction rule: rtranclp_induct)
  case base
  then show ?case using assms(2,3) by (intro exI [of _ v]) simp
next
  case (step r1 r2)
  then obtain v1 where v1: "goes dp radio v v1" "lvRunning v1 = r1" "lvRead v1 = lvRead v" "lvSessions v1 = lvSessions v"
      "lvSource v1 = Handling fr fs e \<or> lvSource v1 = Pausing fr fs e"
    by blast
  let ?v1 = "v1\<lparr>lvSource := Handling fr fs e\<rparr>"
  have "goes dp radio v1 ?v1"
    using v1(5)
  proof
    assume "lvSource v1 = Handling fr fs e"
    then have "?v1 = v1" by simp
    then show ?thesis by simp
  qed (blast intro: live_step.resume)
  moreover have "live_step dp radio ?v1 (?v1\<lparr>lvRunning := r2,
      lvSource := (if attempt_failed r2 then Pausing fr fs e else Handling fr fs e)\<rparr>)"
    by (rule live_step.handle) (use step(2) v1(2) in simp_all)
  ultimately have "goes dp radio v (?v1\<lparr>lvRunning := r2,
      lvSource := (if attempt_failed r2 then Pausing fr fs e else Handling fr fs e)\<rparr>)"
    using v1(1) by (meson rtranclp.rtrancl_into_rtrancl rtranclp_trans)
  then show ?case using v1(3,4) by (intro exI conjI) (assumption, simp_all)
qed

lemma goes_attempt:
  assumes "srHandler (live_source dp radio port) m s = (h, s')" "standing_at (Handling fr fs e) (Received m) v s"
  shows "\<exists>v'. goes dp radio v v' \<and>
    (if h = None then standing_at (Handling fr fs e) Idle v' s' else standing_at (Pausing fr fs e) (Received m) v' s')"
proof -
  let ?r = "lvRunning v"
  obtain st' w' where h: "Handle (dpLib dp) (service_of dp) m (mcIngest s) (mcWorld s) = (h, st', w')"
      "s' = s\<lparr>mcIngest := st', mcWorld := w'\<rparr>"
    using assms(1) by (auto simp: bridge_source_def split: prod.splits)
  let ?r' = "after_message ?r h m st' w'"
  have "at_message ?r (Received m) (mcIngest s) (mcWorld s) = ?r"
    using assms(2) by (auto simp: at_message_def standing_at_def in_step_def)
  with Handle_alone [OF h(1), of ?r] have "alone (handler_step dp) ?r ?r'" by simp
  from goes_handling [OF this refl, of fr fs e radio] obtain v' where v': "goes dp radio v v'" "lvRunning v' = ?r'"
      "?r' \<noteq> ?r \<and> attempt_failed ?r' \<longrightarrow> lvSource v' = Pausing fr fs e"
      "lvSource v' = Handling fr fs e \<or> lvSource v' = Pausing fr fs e \<and> attempt_failed ?r'"
    using assms(2) unfolding standing_at_def by metis
  have fields: "rnWorld ?r' = w'" "rnIngest ?r' = st'" "rnHandler ?r' = (if h = None then Idle else Received m)"
      "rnCancelled ?r' = rnCancelled ?r"
    by (simp_all add: after_message_def at_message_def)
  have "?r' \<noteq> ?r" if "h \<noteq> None"
  proof -
    have "wdTick (mcWorld s) < wdTick w'" using Handle_advance [OF h(1) [unfolded service_of_def]] that by simp
    then show ?thesis using assms(2) fields(1) by (auto simp: standing_at_def in_step_def)
  qed
  with v' fields assms(2) h(2) show ?thesis
    by (intro exI [of _ v']) (auto simp: standing_at_def in_step_def attempt_failed_def)
qed

text \<open>What the other calls of the source return is in the script; they leave the world alone.\<close>

lemma script_calls:
  "srDone (bridge_source lib radio port sv) s = (c, s') \<Longrightarrow> mcWorld s' = mcWorld s \<and> mcIngest s' = mcIngest s"
  "srSleep (bridge_source lib radio port sv) d s = (el, s') \<Longrightarrow> mcWorld s' = mcWorld s \<and> mcIngest s' = mcIngest s"
  "srUint32 (bridge_source lib radio port sv) s = (u, s') \<Longrightarrow> mcWorld s' = mcWorld s \<and> mcIngest s' = mcIngest s"
  "srInt64N (bridge_source lib radio port sv) k s = (n, s') \<Longrightarrow> mcWorld s' = mcWorld s \<and> mcIngest s' = mcIngest s"
  "srWrite (bridge_source lib radio port sv) bs s = (x, s') \<Longrightarrow> mcWorld s' = mcWorld s \<and> mcIngest s' = mcIngest s"
  "srRead (bridge_source lib radio port sv) s = (y, s') \<Longrightarrow> mcWorld s' = mcWorld s \<and> mcIngest s' = mcIngest s"
  "srOpen (bridge_source lib radio port sv) s = (e, s') \<Longrightarrow> mcWorld s' = mcWorld s \<and> mcIngest s' = mcIngest s"
  "srClose (bridge_source lib radio port sv) s = (e, s') \<Longrightarrow> mcWorld s' = mcWorld s \<and> mcIngest s' = mcIngest s"
  by (auto simp: bridge_source_def called_def open_port_def close_port_def split: prod.splits option.splits)

lemma standing_calls:
  "standing_at pc h v s \<Longrightarrow> mcWorld s' = mcWorld s \<and> mcIngest s' = mcIngest s \<Longrightarrow> standing_at pc h v s'"
  by (simp add: standing_at_def in_step_def)

lemma goes_message:
  assumes "handle_message src m backoff s = Some y" "src = live_source dp radio port"
    and "standing_at (Handling fr fs e) (Received m) v s"
  shows "\<exists>v'. goes dp radio v v' \<and>
    (if fst y then standing_at (Handling fr fs e) Idle v' (snd y) else lvSource v' = Finished \<and> in_step v' (snd y))"
  using assms
proof (induction arbitrary: v rule: handle_message.raw_induct [rotated 1, consumes 1, case_names 1])
  case (1 hm src m backoff s y)
  obtain h s1 where h: "srHandler src m s = (h, s1)" by fastforce
  obtain v1 where v1: "goes dp radio v v1"
      "if h = None then standing_at (Handling fr fs e) Idle v1 s1 else standing_at (Pausing fr fs e) (Received m) v1 s1"
    using goes_attempt 1(3,4) h by blast
  show ?case
  proof (cases h)
    case None
    with 1(2) h v1 show ?thesis by (intro exI [of _ v1]) auto
  next
    case (Some err)
    obtain c s2 where c: "srDone src s1 = (c, s2)" by fastforce
    obtain el s3 where el: "srSleep src backoff s2 = (el, s3)" by fastforce
    have p: "standing_at (Pausing fr fs e) (Received m) v1 s2" "standing_at (Pausing fr fs e) (Received m) v1 s3"
      using v1(2) Some script_calls(1) [OF c [unfolded 1(3)]] script_calls(2) [OF el [unfolded 1(3)]]
      by (auto intro: standing_calls)
    show ?thesis
    proof (cases "c \<or> \<not> el")
      case True
      then have y: "y = (False, if c then s2 else s3)" using 1(2) h Some c el by (cases c) auto
      have "\<exists>v'. goes dp radio v1 v' \<and> lvSource v' = Finished \<and> in_step v' (snd y)"
        using p goes_cancelled [of v1 s3] goes_cancelled [of v1 s2] by (auto simp: standing_at_def y)
      with v1(1) y show ?thesis by (auto intro: rtranclp_trans)
    next
      case False
      then have r: "hm src m (next_backoff backoff) s3 = Some y" using 1(2) h Some c el by simp
      have "live_step dp radio v1 (v1\<lparr>lvSource := Handling fr fs e\<rparr>)"
        using p(2) by (auto simp: standing_at_def intro: live_step.resume)
      with v1(1) have g: "goes dp radio v (v1\<lparr>lvSource := Handling fr fs e\<rparr>)" by simp
      have "standing_at (Handling fr fs e) (Received m) (v1\<lparr>lvSource := Handling fr fs e\<rparr>) s3"
        using p(2) by (simp add: standing_at_def in_step_def)
      from 1(1) [OF r 1(3) this] g show ?thesis by (meson rtranclp_trans)
    qed
  qed
qed

lemma goes_frames:
  assumes "handle_frames (live_source dp radio port) fs s = Some (b, s')" "standing_at (Handling fr fs e) Idle v s"
  shows "\<exists>v'. goes dp radio v v' \<and>
    (if b then standing_at (Handling fr [] e) Idle v' s' else lvSource v' = Finished \<and> in_step v' s')"
  using assms
proof (induction fs arbitrary: v s)
  case Nil
  then show ?case by (intro exI [of _ v]) auto
next
  case (Cons f fs)
  let ?src = "live_source dp radio port"
  show ?case
  proof (cases "unmarshal_from_radio radio f")
    case (Inl err)
    let ?v = "v\<lparr>lvSource := Handling fr fs e\<rparr>"
    have "live_step dp radio v ?v"
      using Cons.prems(2) Inl by (auto simp: standing_at_def intro: live_step.discard)
    moreover have "standing_at (Handling fr fs e) Idle ?v s" "handle_frames ?src fs s = Some (b, s')"
      using Cons.prems Inl by (simp_all add: standing_at_def in_step_def)
    ultimately show ?thesis using Cons.IH goes_step by meson
  next
    case (Inr m)
    then obtain b1 s1 where h: "handle_message ?src m second s = Some (b1, s1)"
        "if b1 then handle_frames ?src fs s1 = Some (b, s') else b = False \<and> s' = s1"
      using Cons.prems(1) by (auto split: option.splits bool.splits)
    let ?v = "v\<lparr>lvRunning := (lvRunning v)\<lparr>rnHandler := Received m\<rparr>, lvSource := Handling fr fs e\<rparr>"
    have step: "live_step dp radio v ?v"
      using Cons.prems(2) Inr by (auto simp: standing_at_def intro: live_step.message)
    have "standing_at (Handling fr fs e) (Received m) ?v s"
      using Cons.prems(2) by (simp add: standing_at_def in_step_def)
    from goes_message [OF h(1) refl this] obtain v1 where v1: "goes dp radio ?v v1"
        "if b1 then standing_at (Handling fr fs e) Idle v1 s1 else lvSource v1 = Finished \<and> in_step v1 s1"
      unfolding fst_conv snd_conv by blast
    note go = goes_step [OF step v1(1)]
    show ?thesis
    proof (cases b1)
      case True
      with h(2) v1(2) Cons.IH [of s1 v1] obtain v2 where "goes dp radio v1 v2"
          "if b then standing_at (Handling fr [] e) Idle v2 s' else lvSource v2 = Finished \<and> in_step v2 s'"
        by auto
      with go show ?thesis by (meson rtranclp_trans)
    next
      case False
      with h(2) v1(2) go show ?thesis by auto
    qed
  qed
qed

definition small_reads :: "port_script \<Rightarrow> bool" where
  "small_reads port \<longleftrightarrow> (\<forall>i. length (fst (ptRead port i)) \<le> 1024)"

text \<open>One round of \<open>consume\<close>'s loop.\<close>

lemma goes_round:
  assumes "read_round (live_source dp radio port) fr s = Some (rd, s')" "standing_at (Looping fr) Idle v s" "small_reads port"
  shows "\<exists>v'. goes dp radio v v' \<and>
    (case rd of
       Again fr' \<Rightarrow> standing_at (Looping fr') Idle v' s'
     | Return (Some err) \<Rightarrow> standing_at Lost Idle v' s'
     | Return None \<Rightarrow> lvSource v' = Finished \<and> in_step v' s')"
proof -
  let ?src = "live_source dp radio port"
  obtain c s1 where c: "srDone ?src s = (c, s1)" by fastforce
  show ?thesis
  proof (cases c)
    case True
    with assms(1) c have "rd = Return None" "s' = s1" by (simp_all add: read_round_def)
    with goes_cancelled [of v s s1 dp radio] assms(2) script_calls(1) [OF c] show ?thesis
      by (simp add: standing_at_def)
  next
    case False
    obtain bs e s2 where r: "srRead ?src s1 = ((bs, e), s2)" by (metis surj_pair)
    obtain fr' frames errs where fd: "(if bs = [] then (fr, [], []) else push fr bs) = (fr', frames, errs)"
      by (metis surj_pair)
    obtain b s3 where h: "handle_frames ?src frames s2 = Some (b, s3)"
        "rd = (if b then (case e of Some e \<Rightarrow> Return (Some (read_error e)) | None \<Rightarrow> Again fr') else Return None)" "s' = s3"
      using assms(1) False c r fd by (auto simp: read_round_def Let_def split: option.splits bool.splits)
    let ?v1 = "v\<lparr>lvSource := Reading fr\<rparr>"
    let ?v2 = "?v1\<lparr>lvSource := Handling fr' frames e, lvRead := lvRead ?v1 @ bs\<rparr>"
    have len: "length bs \<le> 1024" using r assms(3) by (auto simp: bridge_source_def small_reads_def dest: spec [of _ "mcReads s1"])
    have "live_step dp radio v ?v1" using assms(2) by (auto simp: standing_at_def intro: live_step.look)
    moreover have "live_step dp radio ?v1 ?v2" by (rule live_step.read [OF _ len fd]) simp
    ultimately have g: "goes dp radio v ?v2" by (meson goes_step r_into_rtranclp)
    have "standing_at (Handling fr' frames e) Idle ?v2 s2"
      using assms(2) script_calls(1) [OF c] script_calls(6) [OF r] by (simp add: standing_at_def in_step_def)
    from goes_frames [OF h(1) this] obtain v3 where v3: "goes dp radio ?v2 v3"
        "if b then standing_at (Handling fr' [] e) Idle v3 s3 else lvSource v3 = Finished \<and> in_step v3 s3"
      by blast
    note go = rtranclp_trans [OF g v3(1)]
    show ?thesis
    proof (cases b)
      case False
      with h(2,3) v3(2) go show ?thesis by auto
    next
      case True
      let ?pc = "case e of Some err \<Rightarrow> Lost | None \<Rightarrow> Looping fr'"
      have "live_step dp radio v3 (v3\<lparr>lvSource := ?pc\<rparr>)"
        using v3(2) True by (cases e) (auto simp: standing_at_def intro: live_step.again live_step.lost)
      with go have g4: "goes dp radio v (v3\<lparr>lvSource := ?pc\<rparr>)" by simp
      moreover have "standing_at ?pc Idle (v3\<lparr>lvSource := ?pc\<rparr>) s3"
        using v3(2) True by (simp add: standing_at_def in_step_def)
      ultimately show ?thesis using h(2,3) True by (intro exI [of _ "v3\<lparr>lvSource := ?pc\<rparr>"]) (cases e; simp)
    qed
  qed
qed

lemma goes_loop:
  assumes "read_loop src fr s = Some y" "src = live_source dp radio port" "standing_at (Looping fr) Idle v s" "small_reads port"
  shows "\<exists>v'. goes dp radio v v' \<and>
    (if fst y = None then lvSource v' = Finished \<and> in_step v' (snd y) else standing_at Lost Idle v' (snd y))"
  using assms
proof (induction arbitrary: v rule: read_loop.raw_induct [rotated 1, consumes 1, case_names 1])
  case (1 rl src fr s y)
  then obtain rd s1 where r: "read_round src fr s = Some (rd, s1)" by (auto split: option.splits)
  from goes_round [OF r [unfolded 1(3)] 1(4,5)] obtain v1 where v1: "goes dp radio v v1"
      "case rd of Again fr' \<Rightarrow> standing_at (Looping fr') Idle v1 s1
     | Return (Some err) \<Rightarrow> standing_at Lost Idle v1 s1
     | Return None \<Rightarrow> lvSource v1 = Finished \<and> in_step v1 s1"
    by blast
  show ?case
  proof (cases rd)
    case (Return out)
    then have "y = (out, s1)" using 1(2) r by simp
    with v1 Return show ?thesis by (intro exI [of _ v1]) (cases out; simp)
  next
    case (Again fr')
    then have "rl src fr' s1 = Some y" using 1(2) r by simp
    from 1(1) [OF this 1(3) _ 1(5)] v1 Again obtain v2 where "goes dp radio v1 v2"
        "if fst y = None then lvSource v2 = Finished \<and> in_step v2 (snd y) else standing_at Lost Idle v2 (snd y)"
      by force
    with v1(1) show ?thesis by (meson rtranclp_trans)
  qed
qed

lemma goes_consume:
  assumes "consume (live_source dp radio port) s = Some (out, s')" "standing_at Connecting Idle v s" "small_reads port"
  shows "\<exists>v'. goes dp radio v v' \<and>
    (if out = None then lvSource v' = Finished \<and> in_step v' s' else standing_at Lost Idle v' s')"
proof -
  let ?src = "live_source dp radio port"
  obtain u s1 where u: "srUint32 ?src s = (u, s1)" by fastforce
  note k1 = script_calls(3) [OF u]
  have fails: ?thesis if "out \<noteq> None" "mcWorld s' = mcWorld s \<and> mcIngest s' = mcIngest s"
  proof -
    have "live_step dp radio v (v\<lparr>lvSource := Lost\<rparr>)"
      using assms(2) by (auto simp: standing_at_def intro: live_step.request_failed)
    with that assms(2) show ?thesis
      by (intro exI [of _ "v\<lparr>lvSource := Lost\<rparr>"]) (auto simp: standing_at_def in_step_def)
  qed
  show ?thesis
  proof (cases "\<exists>payload frame s2. srMarshalRequest ?src (config_id u) = Inr payload \<and> encode_frame payload = Inr frame \<and>
      writeAll ?src frame s1 = Some (None, s2)")
    case False
    have written: "mcWorld s2 = mcWorld s \<and> mcIngest s2 = mcIngest s" if "writeAll ?src frame s1 = Some (x, s2)" for frame x s2
      by (rule writeAll_preserves [where P = "\<lambda>t. mcWorld t = mcWorld s \<and> mcIngest t = mcIngest s", OF _ that k1])
        (use script_calls(5) in metis)
    have "out \<noteq> None \<and> mcWorld s' = mcWorld s \<and> mcIngest s' = mcIngest s"
    proof (cases "\<exists>payload frame. srMarshalRequest ?src (config_id u) = Inr payload \<and> encode_frame payload = Inr frame")
      case True
      with False obtain frame e s2 where "writeAll ?src frame s1 = Some (Some e, s2)" "out \<noteq> None" "s' = s2"
        using assms(1) u by (auto simp: consume_def split: option.splits prod.splits)
      with written show ?thesis by simp
    next
      case False
      with assms(1) u k1 show ?thesis by (auto simp: consume_def split: sum.splits)
    qed
    with fails show ?thesis by blast
  next
    case True
    then obtain payload frame s2 where w: "srMarshalRequest ?src (config_id u) = Inr payload" "encode_frame payload = Inr frame"
        "writeAll ?src frame s1 = Some (None, s2)"
      by blast
    then have l: "read_loop ?src init_framer s2 = Some (out, s')" using assms(1) u by (simp add: consume_def)
    have "mcWorld s2 = mcWorld s \<and> mcIngest s2 = mcIngest s"
      by (rule writeAll_preserves [where P = "\<lambda>t. mcWorld t = mcWorld s \<and> mcIngest t = mcIngest s", OF _ w(3) k1])
        (use script_calls(5) in metis)
    then have "standing_at (Looping init_framer) Idle (v\<lparr>lvSource := Looping init_framer\<rparr>) s2"
      using assms(2) by (simp add: standing_at_def in_step_def)
    from goes_loop [OF l refl this assms(3)] obtain v' where
      "goes dp radio (v\<lparr>lvSource := Looping init_framer\<rparr>) v'"
      "if out = None then lvSource v' = Finished \<and> in_step v' s' else standing_at Lost Idle v' s'"
      unfolding fst_conv snd_conv by blast
    moreover have "live_step dp radio v (v\<lparr>lvSource := Looping init_framer\<rparr>)"
      using assms(2) by (auto simp: standing_at_def intro: live_step.connect)
    ultimately show ?thesis by (meson goes_step)
  qed
qed

text \<open>A context that is done stays done, and \<open>sleep\<close> returns early only when it is.\<close>

definition context_kept :: "port_script \<Rightarrow> bool" where
  "context_kept port \<longleftrightarrow> (\<forall>n k. n < k \<and> (ptDone port n \<or> \<not> ptSleep port n) \<longrightarrow> ptDone port k)"

lemma cancelled_script:
  assumes "cancelled_at (bridge_source lib radio port sv) s" "context_kept port" "mcCalls s \<le> mcCalls s1"
  shows "srDone (bridge_source lib radio port sv) s1 = (True, s1\<lparr>mcCalls := Suc (mcCalls s1)\<rparr>)"
proof -
  obtain n where "n < mcCalls s" "ptDone port n \<or> \<not> ptSleep port n"
    using assms(1) lessI by (fastforce simp: cancelled_at_def bridge_source_def called_eq)
  with assms(2,3) have "ptDone port (mcCalls s1)" unfolding context_kept_def by (metis less_le_trans)
  then show ?thesis by (simp add: bridge_source_def called_def)
qed

lemma goes_wait:
  assumes "wait_jittered (live_source dp radio port) b s = (r, s')" "standing_at pc Idle v s" "pc = Connecting \<or> pc = Lost"
  shows "\<exists>v'. goes dp radio v v' \<and> (if r = None then lvSource v' = Finished \<and> in_step v' s' else standing_at pc Idle v' s')"
proof -
  let ?src = "live_source dp radio port"
  obtain n s1 where n: "srInt64N ?src b s = (n, s1)" by fastforce
  obtain el s2 where el: "srSleep ?src (b div 2 + n) s1 = (el, s2)" by fastforce
  have w: "r = (if el then Some (next_backoff b) else None)" "s' = s2"
    using assms(1) n el by (auto simp: wait_jittered_def jitter_def split: bool.splits)
  note k = script_calls(4) [OF n] script_calls(2) [OF el]
  show ?thesis
  proof (cases el)
    case True
    with w k standing_calls [OF assms(2), of s2] show ?thesis by (intro exI [of _ v]) simp
  next
    case False
    with w k goes_cancelled [of v s s2 dp radio] assms(2,3) show ?thesis by (auto simp: standing_at_def)
  qed
qed

lemma goes_connection:
  assumes "connect_round (live_source dp radio port) b s = Some (r, s')" "standing_at Connecting Idle v s"
    and "small_reads port" "context_kept port"
  shows "\<exists>v'. goes dp radio v v' \<and>
    (if r = None then lvSource v' = Finished \<and> in_step v' s' else standing_at Connecting Idle v' s')"
proof -
  let ?src = "live_source dp radio port"
  obtain c s1 where c: "srDone ?src s = (c, s1)" by fastforce
  note k1 = script_calls(1) [OF c]
  obtain op s2 where op: "srOpen ?src s1 = (op, s2)" by fastforce
  have v2: "standing_at Connecting Idle v s2"
    using standing_calls [OF assms(2)] k1 script_calls(7) [OF op] by simp
  consider (over) c | (refused) e where "\<not> c" "op = Some e" | (opened) "\<not> c" "op = None" by (cases op) auto
  then show ?thesis
  proof cases
    case over
    with assms(1) c have "r = None" "s' = s1" by (simp_all add: connect_round_def)
    with goes_cancelled [of v s s1 dp radio] assms(2) k1 show ?thesis by (simp add: standing_at_def)
  next
    case refused
    with assms(1) c op have "wait_jittered ?src b s2 = (r, s')" by (simp add: connect_round_def)
    from goes_wait [OF this v2] show ?thesis by blast
  next
    case opened
    obtain out s3 where co: "consume ?src s2 = Some (out, s3)"
      using assms(1) c op opened by (auto simp: connect_round_def split: option.splits)
    obtain cl s4 where cl: "srClose ?src s3 = (cl, s4)" by fastforce
    obtain c5 s5 where c5: "srDone ?src s4 = (c5, s5)" by fastforce
    have rest: "(if c5 then r = None \<and> s' = s5 else wait_jittered ?src second s5 = (r, s'))"
      using assms(1) c op opened co cl c5 by (cases c5) (simp_all add: connect_round_def)
    note k = script_calls(8) [OF cl] script_calls(1) [OF c5]
    obtain v3 where v3: "goes dp radio v v3"
        "if out = None then lvSource v3 = Finished \<and> in_step v3 s3 else standing_at Lost Idle v3 s3"
      using goes_consume [OF co v2 assms(3)] by blast
    show ?thesis
    proof (cases out)
      case None
      have "mcCalls s3 \<le> mcCalls s4" using cl by (auto simp: bridge_source_def close_port_def called_def)
      then have c5 using cancelled_script [OF consume_cancelled [OF co [unfolded None]] assms(4)] c5 by simp
      with rest v3 None k show ?thesis by (intro exI [of _ v3]) (auto simp: in_step_def)
    next
      case (Some e)
      then have l: "standing_at Lost Idle v3 s5" "standing_at Lost Idle v3 s3"
        using v3(2) k standing_calls [of Lost Idle v3 s3 s5] by simp_all
      show ?thesis
      proof (cases c5)
        case True
        with rest goes_cancelled [of v3 s5 s5 dp radio] l(1) v3(1) show ?thesis
          by (auto simp: standing_at_def intro: rtranclp_trans)
      next
        case False
        with rest goes_wait [of dp radio port second s5 r s' Lost v3] l(1) obtain v4 where v4: "goes dp radio v3 v4"
            "if r = None then lvSource v4 = Finished \<and> in_step v4 s' else standing_at Lost Idle v4 s'"
          by auto
        let ?v5 = "v4\<lparr>lvSource := Connecting, lvRead := [], lvSessions := lvSessions v4 @ [lvRead v4]\<rparr>"
        have "standing_at Connecting Idle ?v5 s'" "live_step dp radio v4 ?v5" if "r \<noteq> None"
          using v4(2) that by (auto simp: standing_at_def in_step_def intro: live_step.reconnect)
        with v4 v3(1) show ?thesis by (cases r) (auto intro: rtranclp_trans rtranclp.rtrancl_into_rtrancl)
      qed
    qed
  qed
qed

lemma goes_run:
  assumes "connect_loop src b s = Some s'" "src = live_source dp radio port" "standing_at Connecting Idle v s"
    and "small_reads port" "context_kept port"
  shows "\<exists>v'. goes dp radio v v' \<and> lvSource v' = Finished \<and> in_step v' s'"
  using assms
proof (induction arbitrary: v rule: connect_loop.raw_induct [rotated 1, consumes 1, case_names 1])
  case (1 loop src b s s')
  then obtain r s1 where r: "connect_round src b s = Some (r, s1)" by (auto split: option.splits)
  from goes_connection [OF r [unfolded 1(3)] 1(4-6)] obtain v1 where v1: "goes dp radio v v1"
      "if r = None then lvSource v1 = Finished \<and> in_step v1 s1 else standing_at Connecting Idle v1 s1"
    by blast
  show ?case
  proof (cases r)
    case None
    with 1(2) r v1 show ?thesis by auto
  next
    case (Some b')
    then have "loop src b' s1 = Some s'" using 1(2) r by simp
    from 1(1) [OF this 1(3) _ 1(5,6)] v1 Some show ?thesis by (auto intro: rtranclp_trans)
  qed
qed

lemma messages_in_length: "length (messages_in unmarshal fs) \<le> length fs"
  by (induction fs) (auto split: sum.split)

lemma live_archive:
  assumes "live_reaches dp radio w movement heartbeat v"
  shows "\<exists>ms rest. received radio v = ms @ rest \<and>
    raw_packets (wdDb (rnWorld (lvRunning v))) = raw_packets (wdDb w) @ concat (map (raw_of (dpLib dp)) ms) \<and>
    (rest \<noteq> [] \<longrightarrow>
      (case lvSource v of
         Handling fr fs e \<Rightarrow> length rest \<le> Suc (length fs)
       | Pausing fr fs e \<Rightarrow> length rest \<le> Suc (length fs)
       | Finished \<Rightarrow> rnCancelled (lvRunning v)
       | _ \<Rightarrow> False))"
proof -
  let ?r = "lvRunning v"
  let ?past = "case rnHandler ?r of Announcing m pk pos ids \<Rightarrow> [m] | _ \<Rightarrow> []"
  let ?hand = "case rnHandler ?r of Announcing m pk pos ids \<Rightarrow> [] | h \<Rightarrow> under_way h"
  let ?queued = "messages_in (unmarshal_from_radio radio) (queued_frames (lvSource v))"
  note ok = live_reaches_ok [OF assms]
  have split: "under_way (rnHandler ?r) = ?past @ ?hand" 
    by (simp add: under_way_def split: handler_pc.split)
  obtain dropped where d: "received radio v = (rnHandled ?r @ ?past) @ ?hand @ ?queued @ dropped"
      "dropped \<noteq> [] \<Longrightarrow> lvSource v = Finished"
    using ok unfolding live_ok_def split by auto
  then have dr: "lvSource v \<noteq> Finished \<Longrightarrow> dropped = []" by blast
  have "raw_packets (wdDb (rnWorld ?r)) = raw_packets (wdDb w) @ concat (map (raw_of (dpLib dp)) (rnHandled ?r @ ?past))"
    using bridge_reaches_archive [OF live_reaches_bridge [OF assms]]
    by (cases "rnHandler ?r") (simp_all add: archive_ok_def archived_raw_def)
  moreover have "?hand @ ?queued @ dropped \<noteq> [] \<longrightarrow>
      (case lvSource v of
         Handling fr fs e \<Rightarrow> length (?hand @ ?queued @ dropped) \<le> Suc (length fs)
       | Pausing fr fs e \<Rightarrow> length (?hand @ ?queued @ dropped) \<le> Suc (length fs)
       | Finished \<Rightarrow> rnCancelled ?r
       | _ \<Rightarrow> False)"
    using ok dr messages_in_length [of "unmarshal_from_radio radio" "queued_frames (lvSource v)"]
    by (cases "lvSource v"; cases "rnHandler ?r") (simp_all add: live_ok_def queued_frames_def busy_def under_way_def)
  ultimately show ?thesis using d(1) by blast
qed

section \<open>One packet on the wire\<close>

lemma sample_consumed:
  "\<exists>e s'. consume (live_source sample_deployment sample_radio sample_port) empty_machine = Some (Some e, s') \<and>
     raw_packets (wdDb (mcWorld s')) = [[1]]"
proof -
  have m: "unmarshal_from_radio sample_radio [9] = Inr sample_message" by (simp add: sample_radio_def)
  have "mc_inv sample_radio sample_port 2 (dpSchedule sample_deployment) 0 empty_machine"
    using sample_calm
    by (simp add: mc_inv_def empty_machine_def empty_world_def db_wf_empty working_from_def sample_deployment_def
        standing_def request_ok_def sample_radio_def valid_payload_def maxFrame_def)
  moreover have "snr_ok sample_message" by (simp add: snr_ok_def sample_message_packet sample_packet_def)
  moreover have "raw_packets (wdDb (mcWorld empty_machine)) = []" "mcReads empty_machine = 0"
    by (simp_all add: empty_machine_def empty_world_def raw_packets_def empty_db_def)
  ultimately show ?thesis
    using calm_radio.consume_returns [of sample_radio sample_port 2 "dpSchedule sample_deployment" 0 empty_machine
        "dpLib sample_deployment" "dpSum sample_deployment" True "dpDecodePositionApp sample_deployment"] sample_frames m sample_raw
    unfolding radio.stores_def unmarshal_source service_of_def by (fastforce simp: sample_deployment_def)
qed

lemma sample_live_run:
  "\<exists>v s'. live_reaches sample_deployment sample_radio empty_world (Fin 25) (300 * second) v \<and> lvSource v = Lost \<and>
     rnWorld (lvRunning v) = mcWorld (s' :: unit machine) \<and> raw_packets (wdDb (mcWorld s')) = [[1]]"
proof -
  obtain e s' where c: "consume (live_source sample_deployment sample_radio sample_port) empty_machine = Some (Some e, s')"
      "raw_packets (wdDb (mcWorld s')) = [[1]]"
    using sample_consumed by blast
  have "small_reads sample_port" by (simp add: small_reads_def sample_port_def)
  moreover have "standing_at Connecting Idle (live_started empty_world (Fin 25) (300 * second)) empty_machine"
    by (simp add: standing_at_def live_started_def started_def in_step_def empty_machine_def)
  ultimately obtain v where "goes sample_deployment sample_radio (live_started empty_world (Fin 25) (300 * second)) v"
      "standing_at Lost Idle v s'"
    using goes_consume [OF c(1)] by force
  with c(2) show ?thesis unfolding live_reaches_def standing_at_def in_step_def by blast
qed

section \<open>Properties\<close>

text \<open>
  C1: From the wire into the archive, at every moment and under every interleaving: in every state the
  running bridge can reach, the archive holds what it held at the start and then, in order and once
  each, the packets of the messages in the bytes read so far, over all connections; what is missing is
  only the message at hand and those in the frames of the last read that are still to be handled, and
  nothing at all while the source waits for the port or has lost it. Only a cancelled source has given
  some of them up.
\<close>
theorem wire_to_archive:
  assumes "live_reaches dp radio w movement heartbeat v"
  shows "\<exists>ms rest. received radio v = ms @ rest \<and>
    raw_packets (wdDb (rnWorld (lvRunning v))) = raw_packets (wdDb w) @ concat (map (raw_of (dpLib dp)) ms) \<and>
    (rest \<noteq> [] \<longrightarrow>
      (case lvSource v of
         Handling fr fs e \<Rightarrow> length rest \<le> Suc (length fs)
       | Pausing fr fs e \<Rightarrow> length rest \<le> Suc (length fs)
       | Finished \<Rightarrow> rnCancelled (lvRunning v)
       | _ \<Rightarrow> False))"
  by (rule live_archive [OF assms])

text \<open>The port has returned one frame in two pieces and then an error; its packet is archived.\<close>
theorem wire_to_archive_witness:
  "\<exists>v. live_reaches sample_deployment sample_radio empty_world (Fin 25) (300 * second) v \<and> lvSource v = Lost \<and>
     concat (map (raw_of sample_lib) (received sample_radio v)) = [[1]]"
proof -
  obtain v s' where v: "live_reaches sample_deployment sample_radio empty_world (Fin 25) (300 * second) v" "lvSource v = Lost"
      "rnWorld (lvRunning v) = mcWorld (s' :: unit machine)" "raw_packets (wdDb (mcWorld s')) = [[1]]"
    using sample_live_run by blast
  have "raw_packets (wdDb empty_world) = []" "dpLib sample_deployment = sample_lib"
    by (simp_all add: empty_world_def raw_packets_def empty_db_def sample_deployment_def)
  with wire_to_archive [OF v(1)] v show ?thesis by (intro exI [of _ v]) auto
qed

text \<open>
  C22: The source's steps are the code's: a run of \<open>consume\<close> with the handler of the bridge, and a whole run of
  \<open>Run\<close> with all its connections, whatever the port returns and whichever attempts fail, is a run of
  the interleaved machine in which the worker does not move, from the same world to the same world; it
  ends with the connection lost when \<open>consume\<close> returns an error, and with the source finished when the
  context was cancelled.
\<close>
theorem source_steps_compose:
  assumes "lvSource v = Connecting" "rnHandler (lvRunning v) = Idle" "\<not> rnCancelled (lvRunning v)"
    and "rnWorld (lvRunning v) = mcWorld s" "rnIngest (lvRunning v) = mcIngest s"
    and "\<forall>i. length (fst (ptRead port i)) \<le> 1024"
    and "\<forall>n k. n < k \<and> (ptDone port n \<or> \<not> ptSleep port n) \<longrightarrow> ptDone port k"
  shows "(consume (bridge_source (dpLib dp) radio port (service_of dp)) s = Some (out, s') \<longrightarrow>
      (\<exists>v'. (live_step dp radio)\<^sup>*\<^sup>* v v' \<and> rnWorld (lvRunning v') = mcWorld s' \<and> rnIngest (lvRunning v') = mcIngest s' \<and>
        lvSource v' = (if out = None then Finished else Lost))) \<and>
    (Run True True (bridge_source (dpLib dp) radio port (service_of dp)) s = Some (out, s') \<longrightarrow>
      (\<exists>v'. (live_step dp radio)\<^sup>*\<^sup>* v v' \<and> rnWorld (lvRunning v') = mcWorld s' \<and> rnIngest (lvRunning v') = mcIngest s' \<and>
        lvSource v' = Finished))"
proof -
  have v: "standing_at Connecting Idle v s" using assms(1-5) by (simp add: standing_at_def in_step_def)
  have p: "small_reads port" "context_kept port" using assms(6,7) by (simp_all add: small_reads_def context_kept_def)
  show ?thesis
  proof (intro conjI impI)
    assume "consume (bridge_source (dpLib dp) radio port (service_of dp)) s = Some (out, s')"
    from goes_consume [OF this v p(1)]
    show "\<exists>v'. (live_step dp radio)\<^sup>*\<^sup>* v v' \<and> rnWorld (lvRunning v') = mcWorld s' \<and> rnIngest (lvRunning v') = mcIngest s' \<and>
        lvSource v' = (if out = None then Finished else Lost)"
      by (cases out) (auto simp: standing_at_def in_step_def)
  next
    assume "Run True True (bridge_source (dpLib dp) radio port (service_of dp)) s = Some (out, s')"
    then have "connect_loop (bridge_source (dpLib dp) radio port (service_of dp)) second s = Some s'" by (auto simp: Run_def)
    from goes_run [OF this refl v p]
    show "\<exists>v'. (live_step dp radio)\<^sup>*\<^sup>* v v' \<and> rnWorld (lvRunning v') = mcWorld s' \<and> rnIngest (lvRunning v') = mcIngest s' \<and>
        lvSource v' = Finished"
      unfolding in_step_def by blast
  qed
qed

theorem source_steps_compose_witness:
  "\<exists>v s'. (live_step sample_deployment sample_radio)\<^sup>*\<^sup>* (live_started empty_world (Fin 25) (300 * second)) v \<and>
     rnWorld (lvRunning v) = mcWorld (s' :: unit machine) \<and> raw_packets (wdDb (mcWorld s')) = [[1]] \<and> lvSource v = Lost"
proof -
  obtain e s' where c: "consume (live_source sample_deployment sample_radio sample_port) empty_machine = Some (Some e, s')"
      "raw_packets (wdDb (mcWorld s')) = [[1]]"
    using sample_consumed by blast
  have "\<forall>i. length (fst (ptRead sample_port i)) \<le> 1024"
    "\<forall>n k. n < k \<and> (ptDone sample_port n \<or> \<not> ptSleep sample_port n) \<longrightarrow> ptDone sample_port k"
    by (simp_all add: sample_port_def)
  with source_steps_compose [of "live_started empty_world (Fin 25) (300 * second)" empty_machine sample_port
      sample_deployment sample_radio "Some e" s'] c
  show ?thesis by (auto simp: live_started_def started_def empty_machine_def)
qed

end
