(* ===== verification/Startup.thy ===== *)
theory Startup
  imports Process Recovery Live
begin

text \<open>
  From the arguments of the process to the running bridge: what \<open>run\<close> of \<^verbatim>\<open>cmd/bridge/main.go\<close> wires is the
  deployment that \<open>Interleaving\<close> and \<open>Live\<close> run, so their theorems speak of the process that was started.
  Without CalTopo there is no worker, and the intake is the machine of \<open>Bridge\<close>.
\<close>

section \<open>What is deployed\<close>

definition deployed :: "pb_lib \<Rightarrow> (string \<Rightarrow> byte list) \<Rightarrow> schedule \<Rightarrow> distance \<Rightarrow> 'c gotopo \<Rightarrow> config \<Rightarrow> 'c deployment" where
  "deployed lib sum256 sched dst client cfg =
     \<lparr>dpLib = lib, dpSum = sum256, dpClient = client, dpSchedule = sched, dpGroup = ccGroup (cfCalTopo cfg),
      dpMapID = ccMapID (cfCalTopo cfg), dpDecodePositionApp = cfDecodePositionApp cfg, dpDistance = dst,
      dpTimeout = ccTimeout (cfCalTopo cfg)\<rparr>"

text \<open>The first state of the goroutines of a wiring with the worker \<open>wk\<close>, on a store and a client.\<close>

definition launched_bridge :: "'c world worker \<Rightarrow> 'c world \<Rightarrow> 'c running" where
  "launched_bridge wk w =
     \<lparr>rnWorld = w\<lparr>wdWake := wkWake wk\<rparr>, rnFilter = wkFilter wk, rnWorker = Starting, rnLast = NeverRan,
      rnOutcomes = [], rnHandler = Idle, rnHandled = [], rnIngest = new_ingest, rnCancelled = False\<rparr>"

lemma launched_deployment:
  assumes "start os sum256 sched c = (Running wr, c', evs)" "wrWorker wr = Some wk"
  obtains client where
    "osNewClient os (client_options_of (cfCalTopo (wrConfig wr))) = Inr client"
    "service_of (deployed lib sum256 sched dst client (wrConfig wr)) = wrService wr"
    "wPublish (env_of (deployed lib sum256 sched dst client (wrConfig wr))) t = Publish (wkPublisher wk)"
    "dpTimeout (deployed lib sum256 sched dst client (wrConfig wr)) = wkTimeout wk"
    "launched_bridge wk (booted d cl n) = started (booted d cl n)
       (ccMovement (cfCalTopo (wrConfig wr))) (ccHeartbeat (cfCalTopo (wrConfig wr)))"
  using assms(1)
proof (cases rule: start_cases)
  case (running cfg database worker)
  have wr: "wr = wire_up sum256 sched cfg database worker" using running(7) by simp
  then have wk: "worker = Some wk" "wrConfig wr = cfg" using assms(2) by (simp_all add: wire_up_def)
  then have en: "ccEnabled (cfCalTopo cfg)" using start_worker_Inr [OF running(6)] by simp
  obtain client where cl: "osNewClient os (client_options_of (cfCalTopo cfg)) = Inr client"
      "wk = NewWorker (world_adapter client sched (ccGroup (cfCalTopo cfg)) (ccMapID (cfCalTopo cfg)))
         (ccTimeout (cfCalTopo cfg)) \<lparr>fcMovementMeters = ccMovement (cfCalTopo cfg), fcHeartbeat = ccHeartbeat (cfCalTopo cfg)\<rparr>"
    using running(6) wk(1) en by (auto simp: start_worker_def New_def world_adapter_def split: sum.splits)
  show ?thesis
    by (rule that [of client])
      (simp_all add: wr wk en cl wire_up_def deployed_def service_of_def world_service_def env_of_def world_env_def
        NewWorker_def launched_bridge_def started_def booted_def)
qed simp

section \<open>Without CalTopo\<close>

lemma Handle_no_queue:
  assumes "Handle lib (world_service sum256 sched False app) m st w = (r, st', w')"
  shows "deliveries (wdDb w') = deliveries (wdDb w)"
proof (cases "packet_of m")
  case None
  with Handle_quiet [OF assms] show ?thesis by (simp add: leaves_queue_def)
next
  case (Some p)
  have a: "deliveries (wdDb w2) = deliveries (wdDb w1)"
    if "svArchive (world_service sum256 sched False app) pk pos False w1 = (out, w2)" for pk pos w1 w2 out
  proof -
    obtain d' where "Archive sum256 (io_at sched w1) (now_at sched w1) pk pos False (wdDb w1) = (out, d')"
        "w2 = tick (w1\<lparr>wdDb := d'\<rparr>)"
      using \<open>svArchive _ _ _ _ _ = _\<close> by (auto simp: world_service_def on_db_eq)
    then show ?thesis by (cases rule: Archive_cases) (auto simp: insert_packet_Inr insert_position_Inr)
  qed
  have n: "w2 = w1" if "announce (world_service sum256 sched False app) pk pos ids st1 w1 = (st2, w2)" for pk pos ids st1 st2 w1 w2
    using that by (cases ids) (auto simp: announce_def Let_def split: option.splits if_splits)
  show ?thesis
    using assms Some
    by (auto simp: Handle_packet handle_packet_def leaves_queue_def dest!: learn_quiet resolve_quiet a n
        split: option.splits sum.splits prod.splits)
qed

interpretation unqueued: message_sink "bridge_source lib radio port (world_service sum256 sched False app)"
  "bytes_read port" "\<lambda>s. deliveries (wdDb (mcWorld s))" "\<lambda>m. []"
  by unfold_locales
    (auto simp: bridge_source_def called_eq bytes_read_def Handle_no_queue split: prod.splits)

lemma consume_no_queue:
  assumes "consume (bridge_source lib radio port (world_service sum256 sched False app)) s = Some (r, s')"
  shows "deliveries (wdDb (mcWorld s')) = deliveries (wdDb (mcWorld s))"
proof -
  have none: "concat (map (\<lambda>m. []) xs) = ([] :: delivery_row list)" for xs :: "from_radio list" by (induction xs) simp_all
  show ?thesis
    using unqueued.consume_handled [OF assms] by (auto simp: unqueued.handled_def unqueued.stores_def none)
qed

section \<open>Examples\<close>

lemma sample_parse_disabled:
  "snd (Parse sample_parsers sample_environ []) = None \<and> \<not> ccEnabled (cfCalTopo (fst (Parse sample_parsers sample_environ []))) \<and>
   \<not> cfListDevices (fst (Parse sample_parsers sample_environ [])) \<and> \<not> cfVersion (fst (Parse sample_parsers sample_environ []))"
  unfolding sample_environ_def sample_parsers_def by code_simp

lemma sample_started_disabled:
  "\<exists>wr c' evs. start (sample_os\<lparr>osArgs := []\<rparr>) sample_hash outage blank_catalog = (Running wr, c', evs) \<and> wrWorker wr = None"
proof -
  obtain cfg where p: "Parse sample_parsers sample_environ [] = (cfg, None)"
    using sample_parse_disabled by (metis prod.collapse)
  with sample_parse_disabled show ?thesis
    by (simp add: start_def sample_os_def store_Open_def resolve_path_def initialize_ok start_worker_def wire_up_def)
qed

section \<open>What holds in every state\<close>

text \<open>
  The messages read so far are in the archive, once and in order, but for those the source still has at
  hand; every stored position has its delivery, and one that is not pending was settled before the
  start, published, or left out as unmoved. Excepted are positions that were there without a delivery.
\<close>

definition archived_in_order :: "pb_lib \<Rightarrow> radio_lib \<Rightarrow> db \<Rightarrow> 'c live \<Rightarrow> bool" where
  "archived_in_order lib radio d0 v \<longleftrightarrow>
     (\<exists>ms rest. received radio v = ms @ rest \<and> (rest \<noteq> [] \<longrightarrow> busy (lvSource v)) \<and>
        raw_packets (wdDb (rnWorld (lvRunning v))) = raw_packets d0 @ concat (map (raw_of lib) ms))"

definition deliveries_accounted :: "db \<Rightarrow> 'c running \<Rightarrow> bool" where
  "deliveries_accounted d0 r \<longleftrightarrow>
     (\<forall>p \<in> set (positions (wdDb (rnWorld r))).
        (\<exists>x \<in> set (deliveries (wdDb (rnWorld r))). drPositionId x = trId p \<and>
          (drState x = Pending \<or> (\<exists>x0 \<in> set (deliveries d0). drId x0 = drId x \<and> drState x0 \<noteq> Pending) \<or>
           (\<exists>(v, out) \<in> set (rnOutcomes r). dvID v = drId x \<and> (out = Suppressed \<or> (\<exists>pos. out = Published pos))))) \<or>
        ((\<exists>p0 \<in> set (positions d0). trId p0 = trId p) \<and> (\<forall>x \<in> set (deliveries d0). drPositionId x \<noteq> trId p)))"

lemma live_archived:
  assumes "live_reaches dp radio (booted d0 cl n) movement heartbeat v"
  shows "archived_in_order (dpLib dp) radio d0 v"
proof -
  obtain ms rest where ms: "received radio v = ms @ rest"
      "raw_packets (wdDb (rnWorld (lvRunning v))) = raw_packets d0 @ concat (map (raw_of (dpLib dp)) ms)"
      "rest \<noteq> [] \<longrightarrow> (case lvSource v of
         Handling fr fs e \<Rightarrow> length rest \<le> Suc (length fs)
       | Pausing fr fs e \<Rightarrow> length rest \<le> Suc (length fs)
       | Finished \<Rightarrow> rnCancelled (lvRunning v)
       | _ \<Rightarrow> False)"
    using live_archive [OF assms] unfolding booted_def by auto
  have "rest \<noteq> [] \<longrightarrow> busy (lvSource v)" using ms(3) by (cases "lvSource v") (simp_all add: busy_def)
  with ms(1,2) show ?thesis unfolding archived_in_order_def by blast
qed

lemma live_accounted:
  assumes "live_reaches dp radio (booted d0 cl n) movement heartbeat v" "db_wf d0" "\<forall>r \<in> set (deliveries d0). 0 \<le> drAttempts r"
  shows "deliveries_accounted d0 (lvRunning v)"
  using lives_account [OF lives.again [OF lives.never refl refl live_reaches_bridge [OF assms(1)]] assms(2,3)]
  unfolding deliveries_accounted_def by simp

lemma live_answers:
  assumes "live_reaches dp radio w movement heartbeat v" "world_ok w" "presentable (wdDb w)" "clock_sane (dpSchedule dp)"
  shows "rsStatus (fst (serve no_faults (wdDb (rnWorld (lvRunning v))) None ''GET'' ''/api/positions'')) = 200"
proof -
  note b = live_reaches_bridge [OF assms(1)]
  have "world_ok (rnWorld (lvRunning v))" using bridge_reaches_ok [OF b assms(2)] by (simp add: running_ok_def)
  moreover have "presentable (wdDb (rnWorld (lvRunning v)))"
    using bridge_reaches_tables [OF b assms(3,4)] by (simp add: tables_ok_def)
  ultimately show ?thesis
    using api_answer [of "wdDb (rnWorld (lvRunning v))"] by (auto simp: world_ok_def presentable_def)
qed

section \<open>Properties\<close>

text \<open>
  C4: From the command line to the map: when \<open>run\<close> has started with CalTopo enabled, the goroutines run the
  interleaved bridge on the group, the map, the timeout, the filter and the client of the accepted
  configuration. Let the database be one that satisfies the schema's constraints, with no negative count
  of attempts, whose rows can be read back, and let the clock stay within the years 0 to 9999. Then in every
  state that the goroutines can reach, every message read from the port is archived once and in order
  except those still at hand; every stored position has its delivery, which is pending, or was settled
  before, or was published or left out as unmoved, except for positions that were there at the start and
  had no delivery then, as a process without CalTopo leaves them (C19); and when its query does not fail,
  the server's handler answers for the map with status 200.
\<close>
theorem started_bridge_accounts:
  assumes "start os sum256 sched c = (Running wr, c', evs)" "wrWorker wr = Some wk"
    and "db_wf d0" "\<forall>r \<in> set (deliveries d0). 0 \<le> drAttempts r"
    and "presentable d0" "clock_sane sched"
  shows "\<exists>client. osNewClient os (client_options_of (cfCalTopo (wrConfig wr))) = Inr client \<and>
    (let dp = deployed lib sum256 sched dst client (wrConfig wr);
         v0 = \<lparr>lvRunning = launched_bridge wk (booted d0 cl n), lvSource = Connecting, lvRead = [], lvSessions = []\<rparr> in
      wrService wr = service_of dp \<and> wPublish (env_of dp) t = Publish (wkPublisher wk) \<and> dpTimeout dp = wkTimeout wk \<and>
      (\<forall>v. (live_step dp radio)\<^sup>*\<^sup>* v0 v \<longrightarrow>
        archived_in_order lib radio d0 v \<and> deliveries_accounted d0 (lvRunning v) \<and>
        rsStatus (fst (hsHandler (wrServer wr) no_faults (wdDb (rnWorld (lvRunning v))) None ''GET'' ''/api/positions'')) = 200))"
proof -
  obtain client where cl: "osNewClient os (client_options_of (cfCalTopo (wrConfig wr))) = Inr client"
    and dp: "service_of (deployed lib sum256 sched dst client (wrConfig wr)) = wrService wr"
      "wPublish (env_of (deployed lib sum256 sched dst client (wrConfig wr))) t = Publish (wkPublisher wk)"
      "dpTimeout (deployed lib sum256 sched dst client (wrConfig wr)) = wkTimeout wk"
    and r0: "launched_bridge wk (booted d0 cl n) = started (booted d0 cl n)
       (ccMovement (cfCalTopo (wrConfig wr))) (ccHeartbeat (cfCalTopo (wrConfig wr)))"
    by (rule launched_deployment [OF assms(1,2)])
  let ?dp = "deployed lib sum256 sched dst client (wrConfig wr)"
  have serves: "hsHandler (wrServer wr) = serve" using started_as_configured [OF assms(1)] by (simp add: Let_def)
  have w0: "world_ok (booted d0 cl n)" "presentable (wdDb (booted d0 cl n))" "clock_sane (dpSchedule ?dp)" "dpLib ?dp = lib"
    using assms(3-6) by (simp_all add: booted_ok) (simp_all add: booted_def deployed_def)
  have "archived_in_order lib radio d0 v \<and> deliveries_accounted d0 (lvRunning v) \<and>
      rsStatus (fst (serve no_faults (wdDb (rnWorld (lvRunning v))) None ''GET'' ''/api/positions'')) = 200"
    if "(live_step ?dp radio)\<^sup>*\<^sup>* (live_started (booted d0 cl n) (ccMovement (cfCalTopo (wrConfig wr)))
      (ccHeartbeat (cfCalTopo (wrConfig wr)))) v" for v
  proof -
    have l: "live_reaches ?dp radio (booted d0 cl n) (ccMovement (cfCalTopo (wrConfig wr)))
        (ccHeartbeat (cfCalTopo (wrConfig wr))) v"
      using that by (simp add: live_reaches_def)
    show ?thesis
      using live_archived [OF l] live_accounted [OF l assms(3,4)] live_answers [OF l w0(1-3)] unfolding w0(4) by blast
  qed
  then show ?thesis
    using cl dp by (intro exI [of _ client]) (simp add: Let_def r0 serves live_started_def)
qed

text \<open>A bridge started from the sample command line, on an empty database.\<close>
theorem started_bridge_accounts_witness:
  "\<exists>wr c' evs wk client. start sample_os sample_hash (standing (\<lambda>_. no_faults) (2 * second)) blank_catalog = (Running wr, c', evs) \<and>
    wrWorker wr = Some wk \<and>
    (\<forall>v. (live_step (deployed sample_lib sample_hash (standing (\<lambda>_. no_faults) (2 * second)) (\<lambda>_ _. 0) client (wrConfig wr)) sample_radio)\<^sup>*\<^sup>*
        \<lparr>lvRunning = launched_bridge wk (booted empty_db () 0), lvSource = Connecting, lvRead = [], lvSessions = []\<rparr> v \<longrightarrow>
      archived_in_order sample_lib sample_radio empty_db v)"
proof -
  let ?sched = "standing (\<lambda>_. no_faults) (2 * second)"
  obtain wr c' evs wk where st: "start sample_os sample_hash ?sched blank_catalog = (Running wr, c', evs)" "wrWorker wr = Some wk"
    using sample_started by blast
  have "presentable empty_db" by (simp add: presentable_iff empty_db_def)
  moreover have "\<forall>r \<in> set (deliveries empty_db). 0 \<le> drAttempts r"
    by (simp_all add: empty_db_def)
  ultimately show ?thesis
    using started_bridge_accounts [OF st db_wf_empty, where cl = "()" and n = 0 and lib = sample_lib
        and dst = "\<lambda>_ _. 0" and radio = sample_radio] st standing_sane [OF sample_clock]
    unfolding Let_def by blast
qed

text \<open>
  C19: Without CalTopo the bridge only archives: a process started without it has no worker and no client, the
  packets of every connection are archived once and in order, and no delivery is ever queued, so that
  nothing is waiting when CalTopo is enabled later.
\<close>
theorem disabled_only_archives:
  assumes "start os sum256 sched c = (Running wr, c', evs)" "\<not> ccEnabled (cfCalTopo (wrConfig wr))"
    and "consume (bridge_source lib radio port (wrService wr)) s = Some (r, s')"
  shows "wrWorker wr = None \<and> deliveries (wdDb (mcWorld s')) = deliveries (wdDb (mcWorld s)) \<and>
    (\<exists>bs pre. bytes_read port s' = bytes_read port s @ bs \<and> prefix pre (messages_of radio bs) \<and>
      (r \<noteq> None \<longrightarrow> pre = messages_of radio bs) \<and>
      raw_packets (wdDb (mcWorld s')) = raw_packets (wdDb (mcWorld s)) @ concat (map (raw_of lib) pre))"
proof -
  have w: "wrWorker wr = None" "wrService wr = world_service sum256 sched False (cfDecodePositionApp (wrConfig wr))"
    using started_as_configured [OF assms(1)] assms(2) by (auto simp: Let_def split: option.splits)
  note c = assms(3) [unfolded w(2)]
  show ?thesis
    using w(1) consume_no_queue [OF c] radio.consume_handled [OF c]
    unfolding radio.handled_def radio.stores_def unmarshal_source messages_of_def by blast
qed

text \<open>The sample command line without \<open>-caltopo\<close>, and a port that sends one packet.\<close>
theorem disabled_only_archives_witness:
  "\<exists>wr c' evs e s'. start (sample_os\<lparr>osArgs := []\<rparr>) sample_hash outage blank_catalog = (Running wr, c', evs) \<and>
    consume (bridge_source sample_lib sample_radio sample_port (wrService wr)) empty_machine = Some (Some e, s') \<and>
    deliveries (wdDb (mcWorld s')) = []"
proof -
  obtain wr c' evs where st: "start (sample_os\<lparr>osArgs := []\<rparr>) sample_hash outage blank_catalog = (Running wr, c', evs)"
      "wrWorker wr = None"
    using sample_started_disabled by blast
  have en: "\<not> ccEnabled (cfCalTopo (wrConfig wr))"
    and sv: "wrService wr = world_service sample_hash outage False (cfDecodePositionApp (wrConfig wr))"
    using started_as_configured [OF st(1)] st(2) by (auto simp: Let_def)
  have "mc_inv sample_radio sample_port 2 outage 2 empty_machine" "snr_ok sample_message"
    using sample_calm
    by (simp_all add: mc_inv_def empty_machine_def empty_world_def db_wf_empty working_from_def outage_def request_ok_def
        sample_radio_def valid_payload_def maxFrame_def snr_ok_def sample_message_packet sample_packet_def)
  moreover have "unmarshal_from_radio sample_radio [9] = Inr sample_message" "mcReads empty_machine = 0"
    by (simp_all add: sample_radio_def empty_machine_def)
  ultimately obtain e s' where c: "consume (bridge_source sample_lib sample_radio sample_port (wrService wr)) empty_machine = Some (Some e, s')"
    using calm_radio.consume_returns [of sample_radio sample_port 2 outage 2 empty_machine sample_lib sample_hash False
        "cfDecodePositionApp (wrConfig wr)"] sample_frames
    unfolding sv unmarshal_source by fastforce
  have "deliveries (wdDb (mcWorld empty_machine)) = []" by (simp add: empty_machine_def empty_world_def empty_db_def)
  with disabled_only_archives [OF st(1) en c] st(1) c show ?thesis by auto
qed

end
