(* ===== verification/LiveProgress.thy ===== *)
theory LiveProgress
  imports Live
begin

text \<open>
  The intake catches up: from every state of \<open>Live\<close> in which the source has not been told to stop, and with a
  database that works from then on, the source's own steps lead to its waiting for the port again, with
  everything it has read archived.
\<close>

section \<open>The handler's own steps\<close>

lemma handler_total: "rnHandler r \<noteq> Idle \<Longrightarrow> \<exists>r'. handler_step dp r = Some r'"
  by (cases "rnHandler r") (simp_all add: handler_step_def Let_def split: option.split sum.split prod.split)

fun attempt_left :: "handler_pc \<Rightarrow> nat" where
  "attempt_left (Resolving m pk pos) = 3"
| "attempt_left (Storing m pk pos) = 2"
| "attempt_left (Announcing m pk pos ids) = 1"
| "attempt_left pc = 0"

lemma handler_attempt:
  assumes "handler_step dp r = Some r'" "0 < attempt_left (rnHandler r)"
  shows "attempt_left (rnHandler r') < attempt_left (rnHandler r)"
  using assms
  by (cases "rnHandler r") (auto simp: handler_step_def Let_def split: option.splits sum.splits prod.splits)

lemma attempt_ends:
  "\<exists>r'. alone (handler_step dp) r r' \<and> attempt_left (rnHandler r') = 0"
proof (induction "attempt_left (rnHandler r)" arbitrary: r rule: less_induct)
  case less
  show ?case
  proof (cases "attempt_left (rnHandler r) = 0")
    case True
    then show ?thesis by blast
  next
    case False
    then have "rnHandler r \<noteq> Idle" by auto
    then obtain r1 where r1: "handler_step dp r = Some r1" using handler_total by blast
    from False have "0 < attempt_left (rnHandler r)" by simp
    from less [OF handler_attempt [OF r1 this]] obtain r' where
      "alone (handler_step dp) r1 r'" "attempt_left (rnHandler r') = 0" by blast
    then show ?thesis using alone_step [of "handler_step dp", OF r1] by blast
  qed
qed

lemma handler_step_advance:
  assumes "handler_step dp r = Some r'"
  shows "advance (rnWorld r) (rnWorld r')"
  using assms
  by (cases "rnHandler r")
    (auto simp: handler_step_def Let_def service_of_def dest: learn_advance resolve_advance archive_advance announce_advance Handle_advance
      split: option.splits sum.splits prod.splits)

text \<open>What the handler's steps leave to the others.\<close>

definition beside :: "'c running \<Rightarrow> 'c running \<Rightarrow> bool" where
  "beside r r' \<longleftrightarrow> advance (rnWorld r) (rnWorld r') \<and> rnWorker r' = rnWorker r \<and> rnFilter r' = rnFilter r \<and>
     rnOutcomes r' = rnOutcomes r \<and> rnCancelled r' = rnCancelled r \<and>
     rnHandled r' @ under_way (rnHandler r') = rnHandled r @ under_way (rnHandler r)"

lemma beside_refl [simp]: "beside r r"
  by (simp add: beside_def)

lemma beside_trans: "beside r r1 \<Longrightarrow> beside r1 r2 \<Longrightarrow> beside r r2"
  by (auto simp: beside_def intro: advance_trans)

lemma alone_beside: "alone (handler_step dp) r r' \<Longrightarrow> beside r r'"
proof (induction rule: rtranclp_induct)
  case (step r1 r2)
  have "beside r1 r2"
    using handler_step_advance [OF step(2)] handler_step_frame [OF step(2)] handler_step_keeps [OF step(2)]
    by (simp add: beside_def)
  with step.IH show ?case by (rule beside_trans)
qed simp

lemma message_handled:
  assumes "rnHandler r = Received m" "working_from (wdTick (rnWorld r)) (dpSchedule dp)" "db_wf (wdDb (rnWorld r))" "snr_ok m"
  shows "\<exists>r'. alone (handler_step dp) r r' \<and> rnHandler r' = Idle"
proof -
  obtain st' w' where h: "Handle (dpLib dp) (service_of dp) m (rnIngest r) (rnWorld r) = (None, st', w')"
    using Handle_succeeds [OF assms(2,3)] assms(4) unfolding service_of_def snr_ok_def by blast
  have "at_message r (Received m) (rnIngest r) (rnWorld r) = r" using assms(1) by (simp add: at_message_def)
  with Handle_alone [OF h, of r] show ?thesis
    by (intro exI [of _ "after_message r None m st' w'"]) (simp add: after_message_def)
qed

text \<open>Whatever point the handling of a message has reached, it comes to its end.\<close>

lemma handling_ends:
  assumes "working_from (wdTick (rnWorld r)) (dpSchedule dp)" "db_wf (wdDb (rnWorld r))"
    and "\<forall>m \<in> set (under_way (rnHandler r)). snr_ok m"
  shows "\<exists>r'. alone (handler_step dp) r r' \<and> rnHandler r' = Idle"
proof -
  obtain r1 where r1: "alone (handler_step dp) r r1" "attempt_left (rnHandler r1) = 0" using attempt_ends by blast
  note b = alone_beside [OF r1(1)]
  show ?thesis
  proof (cases "rnHandler r1 = Idle \<or> rnHandler r = Idle")
    case True
    with r1(1) show ?thesis by blast
  next
    case False
    with r1(2) obtain m where m: "rnHandler r1 = Received m" by (cases "rnHandler r1") auto
    have "working_from (wdTick (rnWorld r1)) (dpSchedule dp)" "db_wf (wdDb (rnWorld r1))"
      using b assms(1,2) working_advance by (auto simp: beside_def advance_def)
    moreover have "snr_ok m"
    proof -
      have "rnHandled r1 @ [m] = rnHandled r @ under_way (rnHandler r)" using b m by (simp add: beside_def under_way_def)
      moreover have "\<exists>m'. under_way (rnHandler r) = [m']"
        using False by (cases "rnHandler r") (simp_all add: under_way_def)
      ultimately show ?thesis using assms(3) by auto
    qed
    ultimately obtain r2 where "alone (handler_step dp) r1 r2" "rnHandler r2 = Idle"
      using message_handled [OF m] by blast
    with r1(1) show ?thesis by (meson rtranclp_trans)
  qed
qed

section \<open>The source's own steps\<close>

definition aside :: "'c live \<Rightarrow> 'c live \<Rightarrow> bool" where
  "aside v v' \<longleftrightarrow> advance (rnWorld (lvRunning v)) (rnWorld (lvRunning v')) \<and>
     rnWorker (lvRunning v') = rnWorker (lvRunning v) \<and> rnFilter (lvRunning v') = rnFilter (lvRunning v) \<and>
     rnOutcomes (lvRunning v') = rnOutcomes (lvRunning v) \<and> rnCancelled (lvRunning v') = rnCancelled (lvRunning v) \<and>
     lvRead v' = lvRead v \<and> lvSessions v' = lvSessions v"

lemma aside_refl [simp]: "aside v v"
  by (simp add: aside_def)

lemma aside_trans: "aside v v1 \<Longrightarrow> aside v1 v2 \<Longrightarrow> aside v v2"
  by (auto simp: aside_def intro: advance_trans)

definition can_work :: "'c deployment \<Rightarrow> 'c live \<Rightarrow> bool" where
  "can_work dp v \<longleftrightarrow> working_from (wdTick (rnWorld (lvRunning v))) (dpSchedule dp) \<and> db_wf (wdDb (rnWorld (lvRunning v)))"

lemma can_work_aside: "can_work dp v \<Longrightarrow> aside v v' \<Longrightarrow> can_work dp v'"
  using working_advance by (auto simp: can_work_def aside_def advance_def)

lemma message_ends:
  assumes "lvSource v = Handling fr fs e" "can_work dp v" "\<forall>m \<in> set (under_way (rnHandler (lvRunning v))). snr_ok m"
  shows "\<exists>v'. goes dp radio v v' \<and> aside v v' \<and> lvSource v' = Handling fr fs e \<and> rnHandler (lvRunning v') = Idle"
proof -
  obtain r' where r': "alone (handler_step dp) (lvRunning v) r'" "rnHandler r' = Idle"
    using handling_ends assms(2,3) unfolding can_work_def by blast
  from goes_handling [OF r'(1) refl assms(1), of radio] obtain v' where v': "goes dp radio v v'" "lvRunning v' = r'"
      "lvRead v' = lvRead v" "lvSessions v' = lvSessions v"
      "lvSource v' = Handling fr fs e \<or> lvSource v' = Pausing fr fs e \<and> attempt_failed r'"
    by blast
  have "\<not> attempt_failed r'" using r'(2) by (simp add: attempt_failed_def)
  with v' r' alone_beside [OF r'(1)] show ?thesis by (intro exI [of _ v']) (auto simp: aside_def beside_def)
qed

lemma frames_end:
  assumes "lvSource v = Handling fr fs e" "rnHandler (lvRunning v) = Idle" "can_work dp v"
    and "\<forall>m \<in> set (messages_in (unmarshal_from_radio radio) fs). snr_ok m"
  shows "\<exists>v'. goes dp radio v v' \<and> aside v v' \<and> lvSource v' = Handling fr [] e \<and> rnHandler (lvRunning v') = Idle"
  using assms
proof (induction fs arbitrary: v)
  case Nil
  then show ?case by (intro exI [of _ v]) simp
next
  case (Cons f fs)
  show ?case
  proof (cases "unmarshal_from_radio radio f")
    case (Inl err)
    let ?v = "v\<lparr>lvSource := Handling fr fs e\<rparr>"
    have st: "live_step dp radio v ?v" by (rule live_step.discard [OF Cons.prems(1,2) Inl])
    have "aside v ?v" by (simp add: aside_def)
    moreover have "\<exists>v'. goes dp radio ?v v' \<and> aside ?v v' \<and> lvSource v' = Handling fr [] e \<and> rnHandler (lvRunning v') = Idle"
      using Cons.prems(2-4) Inl by (intro Cons.IH) (simp_all add: can_work_def)
    ultimately show ?thesis using goes_step [OF st] aside_trans by blast
  next
    case (Inr m)
    let ?v = "v\<lparr>lvRunning := (lvRunning v)\<lparr>rnHandler := Received m\<rparr>, lvSource := Handling fr fs e\<rparr>"
    have st: "live_step dp radio v ?v" by (rule live_step.message [OF Cons.prems(1,2) Inr])
    have a0: "aside v ?v" by (simp add: aside_def)
    have m: "snr_ok m" "\<forall>m \<in> set (messages_in (unmarshal_from_radio radio) fs). snr_ok m" using Cons.prems(4) Inr by simp_all
    have "\<exists>v1. goes dp radio ?v v1 \<and> aside ?v v1 \<and> lvSource v1 = Handling fr fs e \<and> rnHandler (lvRunning v1) = Idle"
      using can_work_aside [OF Cons.prems(3) a0] m(1) by (intro message_ends) (simp_all add: under_way_def)
    then obtain v1 where v1: "goes dp radio ?v v1" "aside ?v v1" "lvSource v1 = Handling fr fs e" "rnHandler (lvRunning v1) = Idle"
      by blast
    note a1 = aside_trans [OF a0 v1(2)]
    obtain v2 where "goes dp radio v1 v2" "aside v1 v2" "lvSource v2 = Handling fr [] e" "rnHandler (lvRunning v2) = Idle"
      using Cons.IH [OF v1(3,4) can_work_aside [OF Cons.prems(3) a1] m(2)] by blast
    with goes_step [OF st v1(1)] a1 show ?thesis by (meson aside_trans rtranclp_trans)
  qed
qed

text \<open>At rest the source waits for the port or for a connection, and has handed everything on.\<close>

definition at_rest :: "'c live \<Rightarrow> bool" where
  "at_rest v \<longleftrightarrow> \<not> busy (lvSource v)"

lemma source_rests:
  assumes "lvSource v \<noteq> Finished" "can_work dp v" "\<forall>m \<in> set (under_way (rnHandler (lvRunning v))). snr_ok m"
    and "\<forall>m \<in> set (messages_in (unmarshal_from_radio radio) (queued_frames (lvSource v))). snr_ok m"
  shows "\<exists>v'. goes dp radio v v' \<and> aside v v' \<and> at_rest v'"
proof -
  have handling: "\<exists>v'. goes dp radio u v' \<and> aside u v' \<and> at_rest v'"
    if u: "lvSource u = Handling fr fs e" "can_work dp u" "\<forall>m \<in> set (under_way (rnHandler (lvRunning u))). snr_ok m"
      "\<forall>m \<in> set (messages_in (unmarshal_from_radio radio) fs). snr_ok m" for u fr fs e
  proof -
    obtain v1 where v1: "goes dp radio u v1" "aside u v1" "lvSource v1 = Handling fr fs e" "rnHandler (lvRunning v1) = Idle"
      using message_ends [OF u(1-3)] by blast
    obtain v2 where v2: "goes dp radio v1 v2" "aside v1 v2" "lvSource v2 = Handling fr [] e" "rnHandler (lvRunning v2) = Idle"
      using frames_end [OF v1(3,4) can_work_aside [OF u(2) v1(2)] u(4)] by blast
    let ?v3 = "v2\<lparr>lvSource := (case e of None \<Rightarrow> Looping fr | Some err \<Rightarrow> Lost)\<rparr>"
    have "live_step dp radio v2 ?v3"
      using v2(3,4) by (cases e) (auto intro: live_step.again live_step.lost)
    moreover have "aside v2 ?v3" "at_rest ?v3" by (simp_all add: aside_def at_rest_def busy_def split: option.split)
    ultimately show ?thesis
      using v1(1,2) v2(1,2) by (meson aside_trans rtranclp.rtrancl_into_rtrancl rtranclp_trans)
  qed
  show ?thesis
  proof (cases "busy (lvSource v)")
    case False
    then show ?thesis by (intro exI [of _ v]) (simp add: at_rest_def)
  next
    case True
    with assms(1) consider fr fs e where "lvSource v = Handling fr fs e" | fr fs e where "lvSource v = Pausing fr fs e"
      by (cases "lvSource v") (auto simp: busy_def)
    then show ?thesis
    proof cases
      case 1
      with handling assms(2-4) show ?thesis by (simp add: queued_frames_def)
    next
      case (2 fr fs e)
      let ?v = "v\<lparr>lvSource := Handling fr fs e\<rparr>"
      have st: "live_step dp radio v ?v" by (rule live_step.resume [OF 2])
      have a: "aside v ?v" by (simp add: aside_def)
      have "\<exists>v'. goes dp radio ?v v' \<and> aside ?v v' \<and> at_rest v'"
        using 2 assms(3,4) can_work_aside [OF assms(2) a] by (intro handling) (simp_all add: queued_frames_def)
      with goes_step [OF st] a show ?thesis by (meson aside_trans)
    qed
  qed
qed

section \<open>A frame that has just been read\<close>

lemma sample_read:
  "\<exists>v fr. live_reaches sample_deployment sample_radio empty_world (Fin 25) (300 * second) v \<and>
     lvSource v = Handling fr [[9]] None \<and> received sample_radio v = [sample_message]"
proof -
  let ?bs = "bytes_ahead sample_port 2 empty_machine"
  let ?v0 = "live_started empty_world (Fin 25) (300 * second)"
  let ?v1 = "?v0\<lparr>lvSource := Looping init_framer\<rparr>"
  let ?v2 = "?v1\<lparr>lvSource := Reading init_framer\<rparr>"
  have bs: "?bs \<noteq> []" "length ?bs \<le> 1024" by (simp_all add: bytes_ahead_def sample_port_def empty_machine_def upt_rec)
  obtain fr errs where p: "push init_framer ?bs = (fr, [[9]], errs)"
    using sample_frames by (cases "push init_framer ?bs") (auto simp: frames_of_def)
  let ?v3 = "?v2\<lparr>lvSource := Handling fr [[9]] None, lvRead := lvRead ?v2 @ ?bs\<rparr>"
  have "live_step sample_deployment sample_radio ?v0 ?v1" by (rule live_step.connect) (simp add: live_started_def)
  moreover have "live_step sample_deployment sample_radio ?v1 ?v2"
    by (rule live_step.look) (simp_all add: live_started_def started_def)
  moreover have "live_step sample_deployment sample_radio ?v2 ?v3"
    by (rule live_step.read [OF _ bs(2)]) (use bs(1) p in simp_all)
  ultimately have "live_reaches sample_deployment sample_radio empty_world (Fin 25) (300 * second) ?v3"
    unfolding live_reaches_def by (meson goes_step r_into_rtranclp)
  moreover have "received sample_radio ?v3 = [sample_message]"
    using sample_frames by (simp add: received_def messages_of_def live_started_def sample_radio_def)
  ultimately show ?thesis by (intro exI [of _ ?v3] exI [of _ fr]) simp
qed

section \<open>Property\<close>

text \<open>
  C11: The intake catches up: from every state the running bridge can reach, wherever the handling of a message
  has got to and however often it has failed, and if the database works from then on, the source's own
  steps lead, while the worker does not move, to its waiting for the port or for a new connection, with
  the packets of everything it has read in the archive, once each and in order; only a packet with a
  NaN signal-to-noise ratio could hold it up.
\<close>
theorem intake_catches_up:
  assumes "live_reaches dp radio w movement heartbeat v" "world_ok w" "lvSource v \<noteq> Finished"
    and "\<forall>k \<ge> wdTick (rnWorld (lvRunning v)). fst (dpSchedule dp k) = no_faults"
    and "\<forall>m \<in> set (received radio v). \<forall>p. packet_of m = Some p \<longrightarrow> mpRxSnr p \<noteq> NaN"
  shows "\<exists>v'. (live_step dp radio)\<^sup>*\<^sup>* v v' \<and>
    (lvSource v' = Connecting \<or> lvSource v' = Lost \<or> (\<exists>fr. lvSource v' = Looping fr \<or> lvSource v' = Reading fr)) \<and>
    rnWorker (lvRunning v') = rnWorker (lvRunning v) \<and> rnOutcomes (lvRunning v') = rnOutcomes (lvRunning v) \<and>
    raw_packets (wdDb (rnWorld (lvRunning v'))) = raw_packets (wdDb w) @ concat (map (raw_of (dpLib dp)) (received radio v))"
proof -
  have "db_wf (wdDb (rnWorld (lvRunning v)))"
    using bridge_reaches_ok [OF live_reaches_bridge [OF assms(1)] assms(2)] by (simp add: running_ok_def world_ok_def)
  then have work: "can_work dp v" using assms(4) by (simp add: can_work_def working_from_def)
  have fit: "\<forall>m \<in> set (received radio v). snr_ok m" using assms(5) by (simp add: snr_ok_def)
  have "set (under_way (rnHandler (lvRunning v))) \<subseteq> set (received radio v)"
    "set (messages_in (unmarshal_from_radio radio) (queued_frames (lvSource v))) \<subseteq> set (received radio v)"
    using live_reaches_ok [OF assms(1)] by (auto simp: live_ok_def)
  with fit source_rests [OF assms(3) work, of radio] obtain v' where v': "goes dp radio v v'" "aside v v'" "at_rest v'"
    by blast
  have r: "live_reaches dp radio w movement heartbeat v'" using assms(1) v'(1) unfolding live_reaches_def by (rule rtranclp_trans)
  have same: "received radio v' = received radio v" using v'(2) by (simp add: received_def aside_def)
  obtain ms rest where ms: "received radio v' = ms @ rest"
      "raw_packets (wdDb (rnWorld (lvRunning v'))) = raw_packets (wdDb w) @ concat (map (raw_of (dpLib dp)) ms)"
      "rest \<noteq> [] \<longrightarrow> (case lvSource v' of
         Handling fr fs e \<Rightarrow> length rest \<le> Suc (length fs)
       | Pausing fr fs e \<Rightarrow> length rest \<le> Suc (length fs)
       | Finished \<Rightarrow> rnCancelled (lvRunning v')
       | _ \<Rightarrow> False)"
    using live_archive [OF r] by blast
  have "rest = []" and "lvSource v' = Connecting \<or> lvSource v' = Lost \<or> (\<exists>fr. lvSource v' = Looping fr \<or> lvSource v' = Reading fr)"
    using ms(3) v'(3) by (cases "lvSource v'"; simp add: at_rest_def busy_def)+
  with ms(1,2) same v'(1,2) show ?thesis by (intro exI [of _ v']) (simp add: aside_def)
qed

theorem intake_catches_up_witness:
  "\<exists>v v'. live_reaches sample_deployment sample_radio empty_world (Fin 25) (300 * second) v \<and>
     (\<exists>fr. lvSource v = Handling fr [[9]] None) \<and> (live_step sample_deployment sample_radio)\<^sup>*\<^sup>* v v' \<and>
     raw_packets (wdDb (rnWorld (lvRunning v'))) = [[1]]"
proof -
  obtain v fr where v: "live_reaches sample_deployment sample_radio empty_world (Fin 25) (300 * second) v"
      "lvSource v = Handling fr [[9]] None" "received sample_radio v = [sample_message]"
    using sample_read by blast
  have ok: "world_ok empty_world"
    by (simp add: world_ok_def empty_world_def empty_db_def db_wf_empty [unfolded empty_db_def])
  have f: "\<forall>k \<ge> wdTick (rnWorld (lvRunning v)). fst (dpSchedule sample_deployment k) = no_faults"
    by (simp add: sample_deployment_def standing_def)
  have n: "\<forall>m \<in> set (received sample_radio v). \<forall>p. packet_of m = Some p \<longrightarrow> mpRxSnr p \<noteq> NaN"
    by (simp add: v(3) sample_message_packet sample_packet_def)
  have "lvSource v \<noteq> Finished" by (simp add: v(2))
  from intake_catches_up [OF v(1) ok this f n] obtain v' where
    "(live_step sample_deployment sample_radio)\<^sup>*\<^sup>* v v'"
    "raw_packets (wdDb (rnWorld (lvRunning v'))) = [[1]]"
    by (auto simp: v(3) sample_deployment_def sample_raw raw_packets_def empty_world_def empty_db_def)
  with v(1,2) show ?thesis by blast
qed

end
