(* ===== verification/Healthy.thy ===== *)
theory Healthy
  imports System
begin

text \<open>
  A CalTopo that accepts. While the database works and CalTopo accepts every request, the mapping of
  \<^verbatim>\<open>internal/store/store.go\<close> never clashes, no publication of \<^verbatim>\<open>internal/caltopo/adapter.go\<close> fails and
  nothing is put off, so the worker of \<^verbatim>\<open>internal/caltopo/worker.go\<close> empties the queue.
\<close>

section \<open>A publication\<close>

text \<open>
  The client keeps \<open>I\<close>, fails at nothing, and the id of a device's live track is \<open>name\<close> of the device,
  whether the track was listed or was just created; two devices have two tracks.
\<close>

definition healthy :: "'c gotopo \<Rightarrow> ('c \<Rightarrow> bool) \<Rightarrow> (string \<Rightarrow> string) \<Rightarrow> bool" where
  "healthy c I name \<longleftrightarrow> inj name \<and> (\<forall>s. I s \<longrightarrow>
     (\<forall>m e s'. gtOpenMap c m s = (e, s') \<longrightarrow> e = None \<and> I s') \<and>
     (\<forall>fs s'. gtGetFeatures c ''LiveTrack'' s = (fs, s') \<longrightarrow> I s' \<and>
       (\<exists>l. fs = Inr l \<and> (\<forall>ft \<in> set l. \<forall>dev. ftDeviceId ft = fleet_id dev \<longrightarrow> ftID ft = name dev))) \<and>
     (\<forall>title dev ft s'. gtAddLiveTrack c title dev s = (ft, s') \<longrightarrow> I s' \<and> (\<exists>f. ft = Inr f \<and> ftID f = name dev)) \<and>
     (\<forall>track la lo al e s'. gtUpdateLiveTrack c track la lo al s = (e, s') \<longrightarrow> e = None \<and> I s'))"

lemma healthyD:
  assumes "healthy c I name" "I s"
  shows "gtOpenMap c m s = (e, s') \<Longrightarrow> e = None \<and> I s'"
    and "gtGetFeatures c ''LiveTrack'' s = (fs, s') \<Longrightarrow> I s' \<and>
      (\<exists>l. fs = Inr l \<and> (\<forall>ft \<in> set l. \<forall>dev. ftDeviceId ft = fleet_id dev \<longrightarrow> ftID ft = name dev))"
    and "gtAddLiveTrack c title dev s = (ft, s') \<Longrightarrow> I s' \<and> (\<exists>f. ft = Inr f \<and> ftID f = name dev)"
    and "gtUpdateLiveTrack c track la lo al s = (e, s') \<Longrightarrow> e = None \<and> I s'"
  using assms unfolding healthy_def by blast+

definition tracks_named :: "'s adapter \<Rightarrow> (string \<Rightarrow> string) \<Rightarrow> db \<Rightarrow> bool" where
  "tracks_named a name d \<longleftrightarrow> (\<forall>k \<in> set (tracks d). \<exists>n.
     krSourceId k = NodeID n \<and> krDeviceId k = device_id a (NodeID n) \<and> krTrackId k = name (krDeviceId k))"

lemma upsert_named:
  assumes "inj name" "tracks_named a name d"
  shows "\<exists>d'. upsert_track (NodeID n) (device_id a (NodeID n)) (name (device_id a (NodeID n))) now d = Inr d' \<and>
    tracks_named a name d'"
proof -
  have same: "krSourceId k = NodeID n"
    if k: "k \<in> set (tracks d)" "krDeviceId k = device_id a (NodeID n) \<or> krTrackId k = name (device_id a (NodeID n))" for k
  proof -
    obtain m where "krSourceId k = NodeID m" "krDeviceId k = device_id a (NodeID m)" "krTrackId k = name (krDeviceId k)"
      using assms(2) k(1) unfolding tracks_named_def by blast
    with k(2) show ?thesis by (auto simp: device_id_inj inj_eq [OF assms(1)])
  qed
  then have "\<not> (\<exists>r \<in> set (tracks d). krSourceId r \<noteq> NodeID n \<and> krDeviceId r = device_id a (NodeID n))"
    "\<not> (\<exists>r \<in> set (tracks d). krSourceId r \<noteq> NodeID n \<and> krTrackId r = name (device_id a (NodeID n)))"
    by blast+
  with assms(2) show ?thesis by (auto simp: upsert_track_def tracks_named_def)
qed

definition good :: "'c gotopo \<Rightarrow> schedule \<Rightarrow> string \<Rightarrow> string \<Rightarrow> ('c \<Rightarrow> bool) \<Rightarrow> (string \<Rightarrow> string) \<Rightarrow> 'c world \<Rightarrow> bool" where
  "good c sched grp mid I name w \<longleftrightarrow>
     I (wdClient w) \<and> tracks_named (world_adapter c sched grp mid) name (wdDb w)"

lemma open_good:
  assumes "healthy c I name" "good c sched grp mid I name w"
  shows "\<exists>w'. ensureOpen (world_adapter c sched grp mid) w = (None, w') \<and> good c sched grp mid I name w'"
proof (cases "gtMapID c (wdClient w) = mid")
  case True
  with assms(2) show ?thesis by (simp add: ensureOpen_def world_adapter_def lift_client_def)
next
  case False
  obtain e s' where o: "gtOpenMap c mid (wdClient w) = (e, s')" by fastforce
  with healthyD(1) [OF assms(1) _ o] assms(2) False show ?thesis
    by (auto simp: ensureOpen_def world_adapter_def lift_client_def on_client_def good_def)
qed

lemma update_good:
  assumes "healthy c I name" "good c sched grp mid I name w"
  shows "\<exists>w'. update_track (world_adapter c sched grp mid) t p w = (None, w') \<and> good c sched grp mid I name w'"
proof -
  obtain e s' where u: "gtUpdateLiveTrack c t (poLatitude p) (poLongitude p) (poAltitude p) (wdClient w) = (e, s')"
    by fastforce
  with healthyD(4) [OF assms(1) _ u] assms(2) show ?thesis
    by (auto simp: update_track_def world_adapter_def lift_client_def on_client_def good_def)
qed

lemma reconcile_good:
  assumes "healthy c I name" "good c sched grp mid I name w"
  shows "\<exists>w'. reconcileOrCreate (world_adapter c sched grp mid) dev title w = (Inr (name dev), w') \<and>
    good c sched grp mid I name w'"
proof -
  let ?a = "world_adapter c sched grp mid"
  obtain fs s1 where g: "gtGetFeatures c ''LiveTrack'' (wdClient w) = (fs, s1)" by fastforce
  have "I (wdClient w)" using assms(2) by (simp add: good_def)
  from healthyD(2) [OF assms(1) this g] obtain l where l: "fs = Inr l" "I s1"
      "\<forall>ft \<in> set l. \<forall>d. ftDeviceId ft = fleet_id d \<longrightarrow> ftID ft = name d"
    by blast
  show ?thesis
  proof (cases "List.find (\<lambda>ft. ftDeviceId ft = fleet_id dev) l")
    case (Some ft)
    then have "ftID ft = name dev" using l(3) by (auto simp: find_Some_iff)
    with Some g l assms(2) show ?thesis
      by (simp add: reconcileOrCreate_def world_adapter_def lift_client_def on_client_def good_def)
  next
    case None
    obtain ft s2 where add: "gtAddLiveTrack c (if trim_space title = [] then dev else title) dev s1 = (ft, s2)" by fastforce
    from healthyD(3) [OF assms(1) l(2) add] None g l add assms(2) show ?thesis
      by (auto simp: reconcileOrCreate_def world_adapter_def lift_client_def on_client_def good_def)
  qed
qed

lemma create_good:
  assumes "healthy c I name" "good c sched grp mid I name w" "\<And>n. fst (sched n) = no_faults"
  shows "\<exists>t w'. createAndSaveTrack (world_adapter c sched grp mid) (NodeID n) title w = (Inr t, w') \<and>
    good c sched grp mid I name w'"
proof -
  let ?a = "world_adapter c sched grp mid"
  define dev where "dev = device_id ?a (NodeID n)"
  obtain w1 where w1: "reconcileOrCreate ?a dev title w = (Inr (name dev), w1)" "good c sched grp mid I name w1"
    using reconcile_good [OF assms(1,2)] by blast
  obtain d' where d': "upsert_track (NodeID n) dev (name dev) (now_at sched w1) (wdDb w1) = Inr d'" "tracks_named ?a name d'"
    using upsert_named [of name ?a "wdDb w1" n "now_at sched w1"] assms(1) w1(2)
    unfolding healthy_def good_def dev_def by blast
  have "tsSaveTrack (adStore ?a) (NodeID n) dev (name dev) w1 = (None, tick (w1\<lparr>wdDb := d'\<rparr>))"
    using d'(1) assms(3) by (simp add: io_at_def world_adapter_def store_tracks_def on_db_def SaveTrack_def)
  moreover have "good c sched grp mid I name (tick (w1\<lparr>wdDb := d'\<rparr>))"
    using w1(2) d'(2) by (simp add: good_def tick_def)
  ultimately show ?thesis using w1(1) by (simp add: createAndSaveTrack_def dev_def)
qed

lemma publish_good:
  assumes "healthy c I name" "good c sched grp mid I name w" "\<And>n. fst (sched n) = no_faults"
  shows "\<exists>w'. Publish (world_adapter c sched grp mid) p w = (None, w') \<and> good c sched grp mid I name w'"
proof -
  let ?a = "world_adapter c sched grp mid"
  obtain w1 where w1: "ensureOpen ?a w = (None, w1)" "good c sched grp mid I name w1"
    using open_good [OF assms(1,2)] by blast
  obtain t b where t: "tsTrackID (adStore ?a) (SourceID p) w1 = (Inr (t, b), tick w1)"
    using TrackID_ok [of "SourceID p" "wdDb w1"] assms(3)
    by (cases "track_of (wdDb w1) (SourceID p)") (auto simp: io_at_def world_adapter_def store_tracks_def on_db_def)
  have g2: "good c sched grp mid I name (tick w1)" using w1(2) by (simp add: good_def tick_def)
  obtain track w3 where w3: "(if b then (Inr t, tick w1) else createAndSaveTrack ?a (SourceID p) (poCallsign p) (tick w1)) = (Inr track, w3)"
      "good c sched grp mid I name w3"
  proof (cases b)
    case False
    with create_good [OF assms(1) g2 assms(3), of "poSourceNode p" "poCallsign p"] that show thesis
      by (auto simp: SourceID_def)
  qed (use g2 that in auto)
  obtain w4 where "update_track ?a track p w3 = (None, w4)" "good c sched grp mid I name w4"
    using update_good [OF assms(1) w3(2)] by blast
  with w1(1) t w3(1) show ?thesis by (simp add: Publish_def is_not_found_def)
qed

section \<open>The running bridge\<close>

text \<open>No pending delivery is put off beyond \<open>T\<close>.\<close>

definition prompt :: "time \<Rightarrow> db \<Rightarrow> bool" where
  "prompt T d \<longleftrightarrow> (\<forall>x \<in> set (deliveries d). drState x = Pending \<longrightarrow> drNextAttemptAt x \<le> formatTime T)"

definition smooth :: "'c deployment \<Rightarrow> ('c \<Rightarrow> bool) \<Rightarrow> (string \<Rightarrow> string) \<Rightarrow> time \<Rightarrow> 'c running \<Rightarrow> bool" where
  "smooth dp I name T r \<longleftrightarrow>
     good (dpClient dp) (dpSchedule dp) (dpGroup dp) (dpMapID dp) I name (rnWorld r) \<and>
     prompt T (wdDb (rnWorld r)) \<and> (\<forall>d out ds. rnWorker r = Settling d out ds \<longrightarrow> settled_outcome out)"

text \<open>The handler touches neither the client nor the tracks.\<close>

definition spares :: "'c world \<Rightarrow> 'c world \<Rightarrow> bool" where
  "spares w w' \<longleftrightarrow> wdClient w' = wdClient w \<and> tracks (wdDb w') = tracks (wdDb w)"

lemma UpsertNode_tracks: "UpsertNode io now node short long d = (r, d') \<Longrightarrow> tracks d' = tracks d"
  by (auto simp: UpsertNode_def Let_def attempt_def upsert_node_row_def rename_positions_def
      split: option.splits if_splits sum.splits)

lemma remember_spares: "rememberNode (world_service sum256 sched en app) n u w = (r, w') \<Longrightarrow> spares w w'"
  by (auto simp: rememberNode_def service_defs spares_def on_db_eq tick_def
      dest!: UpsertNode_tracks split: option.splits)

lemma learn_spares:
  "learn_node lib (world_service sum256 sched en app) m st w = (r, st', w') \<Longrightarrow> spares w w'"
  by (auto simp: learn_node_def spares_def dest!: remember_spares split: option.splits sum.splits if_splits prod.splits)

lemma resolve_spares:
  "resolve_callsign (world_service sum256 sched en app) pos w = (r, w') \<Longrightarrow> spares w w'"
  by (auto simp: resolve_callsign_def service_defs spares_def on_db_eq tick_def
      split: option.splits sum.splits if_splits prod.splits)

lemma Handle_spares:
  "Handle lib (world_service sum256 sched en app) m st w = (r, st', w') \<Longrightarrow> packet_of m = None \<Longrightarrow> spares w w'"
  by (auto simp: packet_of_def Handle_def spares_def dest!: remember_spares split: option.splits if_splits prod.splits)

lemmas quiet_spares = learn_spares resolve_spares Handle_spares

lemma announce_spares:
  "announce (world_service sum256 sched en app) p pos ids st w = (st', w') \<Longrightarrow> spares w w'"
  by (auto simp: announce_def Let_def Wake_def spares_def split: option.splits if_splits prod.splits)

lemma archive_spares:
  assumes "svArchive (world_service sum256 sched en app) p pos enq w = (out, w')"
  shows "spares w w'"
proof -
  obtain d' where a: "Archive sum256 (io_at sched w) (now_at sched w) p pos enq (wdDb w) = (out, d')"
    and w': "w' = tick (w\<lparr>wdDb := d'\<rparr>)"
    using assms by (auto simp: world_service_def on_db_eq)
  have "tracks d' = tracks (wdDb w)"
    using a
    by (cases rule: Archive_cases)
      (auto simp: insert_packet_Inr insert_position_Inr insert_delivery_Inr split: if_splits)
  then show ?thesis by (simp add: spares_def w' tick_def)
qed

lemma spares_good: "spares w w' \<Longrightarrow> good c sched grp mid I name w \<Longrightarrow> good c sched grp mid I name w'"
  by (simp add: spares_def good_def tracks_named_def)

text \<open>A new delivery is due at once.\<close>

lemma archive_prompt:
  assumes "svArchive (world_service sum256 (standing fs T) en app) p pos enq w = (out, w')" "prompt T (wdDb w)"
  shows "prompt T (wdDb w')"
proof -
  obtain d' where a: "Archive sum256 (io_at (standing fs T) w) T p pos enq (wdDb w) = (out, d')"
    and w': "w' = tick (w\<lparr>wdDb := d'\<rparr>)"
    using assms(1) by (auto simp: world_service_def on_db_eq)
  have "prompt T d'"
    using a assms(2)
    by (cases rule: Archive_cases)
      (auto simp: prompt_def insert_packet_Inr insert_position_Inr insert_delivery_Inr delivery_row_of_def split: if_splits)
  then show ?thesis by (simp add: w')
qed

lemma quiet_prompt: "leaves_queue w w' \<Longrightarrow> prompt T (wdDb w') = prompt T (wdDb w)"
  by (simp add: leaves_queue_def prompt_def)

definition carries_on :: "time \<Rightarrow> 'c world \<Rightarrow> 'c world \<Rightarrow> bool" where
  "carries_on T w w' \<longleftrightarrow> spares w w' \<and> (prompt T (wdDb w) \<longrightarrow> prompt T (wdDb w'))"

lemma handler_carries_on:
  "learn_node lib (world_service sum256 sched en app) p st w = (r, st', w') \<Longrightarrow> carries_on T w w'"
  "resolve_callsign (world_service sum256 sched en app) pos w = (out, w') \<Longrightarrow> carries_on T w w'"
  "Handle lib (world_service sum256 sched en app) m st w = (r, st', w') \<Longrightarrow> packet_of m = None \<Longrightarrow> carries_on T w w'"
  using quiet_spares [where w = w and w' = w'] quiet_feeds [where w = w and w' = w'] quiet_prompt [of w w' T]
  unfolding carries_on_def by metis+

lemma archive_carries_on:
  "svArchive (world_service sum256 (standing fs T) en app) p pos enq w = (ids, w') \<Longrightarrow> carries_on T w w'"
  using archive_spares archive_prompt unfolding carries_on_def by metis

lemma announce_carries_on:
  "announce (world_service sum256 sched en app) p pos ids st w = (st', w') \<Longrightarrow> carries_on T w w'"
  using announce_spares announce_presentable unfolding carries_on_def by metis

lemma handler_smooth:
  assumes "handler_step dp r = Some r'" "smooth dp I name T r" "dpSchedule dp = standing fs T"
  shows "smooth dp I name T r'"
proof -
  have s: "service_of dp = world_service (dpSum dp) (standing fs T) True (dpDecodePositionApp dp)"
    by (simp add: service_of_def assms(3))
  have "carries_on T (rnWorld r) (rnWorld r')"
  proof (cases "rnHandler r")
    case (Received m)
    with assms(1) show ?thesis
      unfolding handler_step_def s Let_def
      by (auto dest: handler_carries_on split: option.splits sum.splits prod.splits)
  next
    case (Resolving m pk pos)
    with assms(1) show ?thesis
      unfolding handler_step_def s Let_def
      by (auto dest: handler_carries_on split: option.splits sum.splits prod.splits)
  next
    case (Storing m pk pos)
    with assms(1) show ?thesis
      unfolding handler_step_def s Let_def
      by (auto dest: archive_carries_on split: option.splits sum.splits prod.splits)
  next
    case (Announcing m pk pos ids)
    with assms(1) show ?thesis
      unfolding handler_step_def s Let_def
      by (auto dest: announce_carries_on split: option.splits sum.splits prod.splits)
  qed (use assms(1) in \<open>simp add: handler_step_def\<close>)
  with assms(2) handler_step_frame [OF assms(1)] show ?thesis
    by (auto simp: smooth_def carries_on_def intro: spares_good)
qed

lemma mark_carries_on:
  assumes "wMarkDelivered (env_of dp) i w = (e, w')"
  shows "carries_on T w w'"
proof -
  obtain d' where m: "MarkDelivered (io_at (dpSchedule dp) w) (now_at (dpSchedule dp) w) i (wdDb w) = (e, d')"
    and w': "w' = tick (w\<lparr>wdDb := d'\<rparr>)"
    using assms by (auto simp: env_of_def world_env_def on_db_eq)
  have "tracks d' = tracks (wdDb w) \<and> (prompt T (wdDb w) \<longrightarrow> prompt T d')"
    using update_pending_None [OF m [unfolded MarkDelivered_def]]
    by (auto simp: update_deliveries_def prompt_def)
  then show ?thesis by (simp add: carries_on_def spares_def w' tick_def)
qed

lemma settle_carries_on:
  "settle (env_of dp) d out f w = Some (e, f', w') \<Longrightarrow> settled_outcome out \<Longrightarrow> carries_on T w w'"
  by (cases out) (auto simp: settle_def Let_def dest: mark_carries_on split: prod.splits option.splits)

lemma worker_smooth:
  assumes "worker_step dp r = Some r'" "smooth dp I name T r" "healthy (dpClient dp) I name"
    and "dpSchedule dp = standing (\<lambda>_. no_faults) T"
  shows "smooth dp I name T r'"
proof (cases "rnWorker r")
  case (Delivering ds)
  with assms(1,2) show ?thesis by (cases ds) (auto simp: smooth_def worker_step_def split: prod.splits if_splits)
next
  case Querying
  with assms(1,2) show ?thesis
    by (auto simp: smooth_def worker_step_def env_of_def world_env_def on_db_eq good_def tick_def
        split: sum.splits prod.splits list.splits)
next
  case (Publishing d pos ds)
  let ?good = "good (dpClient dp) (dpSchedule dp) (dpGroup dp) (dpMapID dp) I name"
  have "\<And>n. fst (dpSchedule dp n) = no_faults" by (simp add: assms(4) standing_def)
  with assms(2,3) obtain w where w: "wPublish (env_of dp) t pos (rnWorld r) = (None, w)" "?good w" for t
    using publish_good [of "dpClient dp" I name "dpSchedule dp" "dpGroup dp" "dpMapID dp" "rnWorld r" pos]
    by (auto simp: smooth_def env_of_def world_env_def)
  moreover have "prompt T (wdDb w) = prompt T (wdDb (rnWorld r))"
    using publish_only [OF w(1)] by (simp add: tracks_only_def prompt_def)
  ultimately show ?thesis
    using assms(1,2) Publishing by (auto simp: smooth_def worker_step_def publish_outcome_def)
next
  case (Settling d out ds)
  with assms(2) have "settled_outcome out" by (simp add: smooth_def)
  with Settling assms(1,2) show ?thesis
    by (auto simp: smooth_def worker_step_def carries_on_def intro: spares_good
        dest!: settle_carries_on [where T = T] split: option.splits prod.splits)
qed (use assms(1,2) in \<open>auto simp: worker_step_def smooth_def Wake_def good_def\<close>)

lemma bridge_reaches_smooth:
  assumes "bridge_reaches dp w movement heartbeat r" "healthy (dpClient dp) I name"
    and "dpSchedule dp = standing (\<lambda>_. no_faults) T" "prompt T (wdDb w)"
    and "good (dpClient dp) (dpSchedule dp) (dpGroup dp) (dpMapID dp) I name w"
  shows "smooth dp I name T r"
  using assms(1) unfolding bridge_reaches_def
proof (induction rule: rtranclp_induct)
  case base
  then show ?case using assms(4,5) by (simp add: smooth_def started_def)
next
  case (step r r')
  from step(2) show ?case
  proof cases
    case worker
    then show ?thesis by (rule worker_smooth [OF _ step.IH assms(2,3)])
  next
    case handler
    then show ?thesis by (rule handler_smooth [OF _ step.IH assms(3)])
  qed (use step.IH in \<open>auto simp: smooth_def good_def\<close>)
qed

section \<open>What the worker's own steps decide\<close>

lemma worker_alone_left:
  assumes "alone (worker_step dp) r r'" "running_ok r"
  shows "\<exists>outs. rnOutcomes r' = rnOutcomes r @ outs \<and> running_ok r' \<and>
    delivery_ids (wdDb (rnWorld r')) = delivery_ids (wdDb (rnWorld r)) \<and>
    left_queue (rnWorld r') \<subseteq> left_queue (rnWorld r) \<union> settled_ids outs"
  using assms(1)
proof (induction rule: rtranclp_induct)
  case base
  then show ?case using assms(2) by simp
next
  case (step r1 r2)
  then obtain outs where o: "rnOutcomes r1 = rnOutcomes r @ outs" "running_ok r1"
      "delivery_ids (wdDb (rnWorld r1)) = delivery_ids (wdDb (rnWorld r))"
      "left_queue (rnWorld r1) \<subseteq> left_queue (rnWorld r) \<union> settled_ids outs"
    by blast
  obtain more where m: "rnOutcomes r2 = rnOutcomes r1 @ more"
      "left_queue (rnWorld r2) \<subseteq> left_queue (rnWorld r1) \<union> settled_ids more"
    using worker_left [OF step(2) o(2)] by blast
  have "running_ok r2" by (rule bridge_step_keeps [OF bridge_step.worker [OF step(2)] o(2)])
  moreover have "delivery_ids (wdDb (rnWorld r2)) = delivery_ids (wdDb (rnWorld r))"
    using worker_links [OF step(2)] o(3) by (simp add: links_ids)
  moreover have "left_queue (rnWorld r2) \<subseteq> left_queue (rnWorld r) \<union> settled_ids (outs @ more)"
    using o(4) m(2) by auto
  ultimately show ?case using o(1) m(1) by simp
qed

lemma outstanding_queued: "outstanding w \<subseteq> delivery_ids (wdDb w)"
  by (auto simp: outstanding_def pending_where_def delivery_ids_def)

text \<open>A queue with a pending delivery has a head.\<close>

lemma nothing_pending:
  assumes "db_wf d" "prompt T d" "\<forall>x. is_head d x \<longrightarrow> \<not> due T x"
  shows "pending_where (\<lambda>_. True) d = {}"
proof (rule ccontr)
  assume "pending_where (\<lambda>_. True) d \<noteq> {}"
  then obtain x where x: "x \<in> set (deliveries d)" "drState x = Pending" by (auto simp: pending_where_def)
  have "drPositionId x \<in> trId ` set (positions d)" using assms(1) x(1) unfolding db_wf_def by blast
  with x(1) obtain p where "(x, p) \<in> set (joined d)" by (auto simp: joined_iff)
  with x(2) have "(x, p) \<in> queued d (node_of (x, p))" by (simp add: queued_def)
  then obtain h where "is_head d h" using is_head_exists by blast
  moreover from this have "due T h"
    using assms(2) joined_iff [of "fst h" "snd h" d] by (auto simp: is_head_def queued_def prompt_def due_def)
  ultimately show False using assms(3) by blast
qed

section \<open>Property\<close>

text \<open>
  C3: Everything arrives: while the database works, the clock stands and CalTopo accepts every request,
  from every reachable state \<open>r\<close> in which the worker sleeps, one tick of its ticker and then steps of the
  worker alone lead to a state \<open>r'\<close> in which it is asleep again with an empty queue, and on this path every
  delivery that was outstanding in \<open>r\<close> has been published or left out as unmoved. At the start the database
  satisfies the schema's constraints, has no negative count of attempts and its rows can be read back;
  nothing may be put off, and the tracks of earlier runs must be those that CalTopo has. The clock stands
  between 1970 and 9999.
\<close>
theorem everything_arrives:
  assumes "bridge_reaches dp w movement heartbeat r" "world_ok w" "presentable (wdDb w)" "clock_ok T"
    and "dpSchedule dp = standing (\<lambda>_. no_faults) T" "rnWorker r = Waiting"
    and "healthy (dpClient dp) I name" "I (wdClient w)"
    and "tracks_named (world_adapter (dpClient dp) (dpSchedule dp) (dpGroup dp) (dpMapID dp)) name (wdDb w)"
    and "\<forall>x \<in> set (deliveries (wdDb w)). drState x = Pending \<longrightarrow> drNextAttemptAt x \<le> formatTime T"
  shows "\<exists>r' outs. bridge_step dp r (r\<lparr>rnWorker := Querying\<rparr>) \<and>
    (\<lambda>a b. worker_step dp a = Some b)\<^sup>*\<^sup>* (r\<lparr>rnWorker := Querying\<rparr>) r' \<and>
    rnWorker r' = Waiting \<and> rnHandler r' = rnHandler r \<and>
    outstanding (rnWorld r') = {} \<and> rnOutcomes r' = rnOutcomes r @ outs \<and>
    (\<forall>i \<in> outstanding (rnWorld r). \<exists>d out. (d, out) \<in> set outs \<and> dvID d = i \<and>
      (out = Suppressed \<or> (\<exists>pos. out = Published pos)))"
proof -
  obtain r' where r': "bridge_reaches dp w movement heartbeat r'" "rnWorker r' = Waiting" "rnHandler r' = rnHandler r"
      "alone (worker_step dp) (r\<lparr>rnWorker := Querying\<rparr>) r'"
      "rnLast r' = Failed \<or> (\<forall>x. is_head (wdDb (rnWorld r')) x \<longrightarrow> \<not> due T x)"
    using worker_catches_up [OF assms(1,2,4-6)] by blast
  have "rnLast r' \<noteq> Failed"
    by (rule bridge_never_fails [OF r'(1) assms(2,3)]) (use standing_sane [OF assms(4)] assms(5) in \<open>simp_all add: standing_def\<close>)
  moreover have "smooth dp I name T r'"
    by (rule bridge_reaches_smooth [OF r'(1) assms(7,5)]) (use assms(8-10) in \<open>simp_all add: prompt_def good_def\<close>)
  moreover have "world_ok (rnWorld r')" using bridge_reaches_ok [OF r'(1) assms(2)] by (simp add: running_ok_def)
  ultimately have empty: "outstanding (rnWorld r') = {}"
    using nothing_pending r'(5) unfolding outstanding_def smooth_def world_ok_def by blast
  have "bridge_reaches dp w movement heartbeat (r\<lparr>rnWorker := Querying\<rparr>)"
    using assms(1) bridge_step.ticker [OF assms(6)]
    unfolding bridge_reaches_def by (rule rtranclp.rtrancl_into_rtrancl)
  then have "running_ok (r\<lparr>rnWorker := Querying\<rparr>)" by (rule bridge_reaches_ok [OF _ assms(2)])
  from worker_alone_left [OF r'(4) this] obtain outs where o: "rnOutcomes r' = rnOutcomes r @ outs"
      "delivery_ids (wdDb (rnWorld r')) = delivery_ids (wdDb (rnWorld r))"
      "left_queue (rnWorld r') \<subseteq> left_queue (rnWorld r) \<union> settled_ids outs"
    by auto
  have "outstanding (rnWorld r) \<subseteq> settled_ids outs"
    using o(2,3) empty outstanding_queued [of "rnWorld r"] by (auto simp: left_queue_def)
  then have "\<forall>i \<in> outstanding (rnWorld r). \<exists>d out. (d, out) \<in> set outs \<and> dvID d = i \<and>
      (out = Suppressed \<or> (\<exists>pos. out = Published pos))"
    by (fastforce simp: settled_ids_def elim!: settled_outcome.elims(2))
  with r'(2-4) bridge_step.ticker [OF assms(6)] empty o(1) show ?thesis by blast
qed

text \<open>Two positions are queued; the worker has taken its first token and sleeps, and the ticker fires.\<close>
theorem everything_arrives_witness:
  "\<exists>r' outs. (\<lambda>a b. worker_step sample_deployment a = Some b)\<^sup>*\<^sup>*
      ((sample_start sample_world)\<lparr>rnWorld := Wake sample_world, rnWorker := Querying\<rparr>) r' \<and>
     outstanding (rnWorld r') = {} \<and> rnOutcomes r' = outs \<and> dvID ` fst ` set outs \<supseteq> {1, 2}"
proof -
  let ?dp = sample_deployment
  let ?r1 = "(sample_start sample_world)\<lparr>rnWorld := Wake sample_world, rnWorker := Waiting\<rparr>"
  have "bridge_step ?dp (sample_start sample_world) ?r1"
    by (rule bridge_step.worker) (simp add: worker_step_def started_def)
  then have r: "bridge_reaches ?dp sample_world (Fin 25) (300 * second) ?r1"
    unfolding bridge_reaches_def by blast
  have s: "dpSchedule ?dp = standing (\<lambda>_. no_faults) (2 * second)" by (simp add: sample_deployment_def)
  have h: "healthy (dpClient ?dp) (\<lambda>_. True) (\<lambda>dev. dev)"
    by (auto simp: healthy_def sample_deployment_def sample_client_def)
  have "formatTime 0 \<le> formatTime (2 * second)"
    unfolding formatTime_def by (rule less_imp_le, rule rfc3339_less_seconds) (simp_all add: second_def four_digit_yearI)
  then have "\<forall>x \<in> set (deliveries (wdDb sample_world)). drState x = Pending \<longrightarrow> drNextAttemptAt x \<le> formatTime (2 * second)"
    by (simp add: sample_world_def sample_queue_def delivery_row_of_def)
  moreover have "tracks_named a (\<lambda>dev. dev) (wdDb sample_world)" for a :: "unit world adapter"
    by (simp add: tracks_named_def sample_world_def sample_queue_def)
  ultimately obtain r' outs where r': "alone (worker_step ?dp) (?r1\<lparr>rnWorker := Querying\<rparr>) r'"
      "outstanding (rnWorld r') = {}" "rnOutcomes r' = rnOutcomes ?r1 @ outs"
      "\<forall>i \<in> outstanding (rnWorld ?r1). \<exists>d out. (d, out) \<in> set outs \<and> dvID d = i"
    using everything_arrives [OF r sample_world_ok sample_presentable sample_clock s _ h] by simp blast
  have "{1, 2} \<subseteq> outstanding (rnWorld ?r1)"
    by (simp add: Wake_def sample_world_def sample_queue_def outstanding_def pending_where_def delivery_row_of_def)
      (simp add: image_iff conj_disj_distribR ex_disj_distrib)
  with r' show ?thesis by (force simp: started_def)
qed

end
