(* ===== verification/MapPage.thy ===== *)
theory MapPage
  imports System
begin

text \<open>
  The script of the page \<open>mapHTML\<close> of \<^verbatim>\<open>internal/web/server.go\<close>: what it puts on the map for an answer of
  the position endpoint. Leaflet and the document are reduced to what the script asks of them (markers
  with their popups, the view, the status line); how the browser writes numbers and dates is a
  parameter.
\<close>

section \<open>The page\<close>

record marker =
  mkPoint :: "f64 \<times> f64"
  mkPopup :: "string list"

datatype map_view = SetView "f64 \<times> f64" int | FitBounds "(f64 \<times> f64) list" int

record map_page =
  pgMarkers :: "marker list"
  pgView :: map_view
  pgStatus :: string
  pgStatusHidden :: bool

definition fresh_page :: map_page where
  "fresh_page = \<lparr>pgMarkers = [], pgView = SetView (Fin 20, Fin 0) 2, pgStatus = ''Loading positions...'',
     pgStatusHidden = False\<rparr>"

record browser =
  brNumber :: "f64 \<Rightarrow> string"
  brDateTime :: "time \<Rightarrow> string"

section \<open>The script\<close>

text \<open>
  A property that is missing is \<open>undefined\<close>: no text, no date, and a point that Leaflet refuses by an
  exception.
\<close>

fun property_of :: "string \<Rightarrow> json \<Rightarrow> json option" where
  "property_of key (JObject kvs) = map_of kvs key"
| "property_of key j = None"

definition text_property :: "string \<Rightarrow> json \<Rightarrow> string" where
  "text_property key j = (case property_of key j of Some (JString s) \<Rightarrow> s | _ \<Rightarrow> [])"

definition point_of :: "json \<Rightarrow> (f64 \<times> f64) option" where
  "point_of j =
     (case (property_of ''latitude'' j, property_of ''longitude'' j) of
        (Some (JNumber la), Some (JNumber lo)) \<Rightarrow> Some (la, lo)
      | _ \<Rightarrow> None)"

definition popup_of :: "browser \<Rightarrow> json \<Rightarrow> string list" where
  "popup_of br j =
     (let callsign = text_property ''callsign'' j; source_id = text_property ''source_id'' j;
          title = (if callsign = [] then source_id else callsign);
          date = (case property_of ''source_time'' j of Some (JTime t) \<Rightarrow> brDateTime br t | _ \<Rightarrow> ''Invalid Date'');
          altitude = (case property_of ''altitude'' j of
            Some (JNumber x) \<Rightarrow> ''Altitude: '' @ brNumber br x @ '' m''
          | _ \<Rightarrow> [])
      in title # filter (\<lambda>v. v \<noteq> []) [source_id, date, altitude])"

text \<open>The loop stops at an exception and leaves the markers it has placed.\<close>

fun place :: "browser \<Rightarrow> json list \<Rightarrow> map_page \<Rightarrow> bool \<times> map_page" where
  "place br [] pg = (True, pg)"
| "place br (j # js) pg =
     (case point_of j of
        None \<Rightarrow> (False, pg)
      | Some p \<Rightarrow> place br js (pg\<lparr>pgMarkers := pgMarkers pg @ [\<lparr>mkPoint = p, mkPopup = popup_of br j\<rparr>]\<rparr>))"

definition settle_view :: "map_page \<Rightarrow> map_page" where
  "settle_view pg =
     (case map mkPoint (pgMarkers pg) of
        [] \<Rightarrow> pg\<lparr>pgStatus := ''No positions received yet''\<rparr>
      | [p] \<Rightarrow> pg\<lparr>pgView := SetView p 16, pgStatusHidden := True\<rparr>
      | bounds \<Rightarrow> pg\<lparr>pgView := FitBounds bounds 16, pgStatusHidden := True\<rparr>)"

definition unable :: "map_page \<Rightarrow> map_page" where
  "unable pg = pg\<lparr>pgStatus := ''Unable to load positions''\<rparr>"

text \<open>
  None is a request that failed. A status outside 200 to 299, a body that is no JSON and one that is
  no array throw.
\<close>

definition load_map :: "browser \<Rightarrow> response option \<Rightarrow> map_page" where
  "load_map br answer =
     (case answer of
        None \<Rightarrow> unable fresh_page
      | Some r \<Rightarrow>
          if rsStatus r < 200 \<or> 299 < rsStatus r then unable fresh_page
          else (case rsBody r of
              Json (JArray js) \<Rightarrow>
                (case place br js fresh_page of
                   (True, pg) \<Rightarrow> settle_view pg
                 | (False, pg) \<Rightarrow> unable pg)
            | _ \<Rightarrow> unable fresh_page))"

section \<open>Lemmas\<close>

lemma property_of_json:
  "property_of ''source_id'' (json_of x) = Some (JString (jrSourceID x))"
  "property_of ''callsign'' (json_of x) = Some (JString (jrCallsign x))"
  "property_of ''latitude'' (json_of x) = Some (JNumber (jrLatitude x))"
  "property_of ''longitude'' (json_of x) = Some (JNumber (jrLongitude x))"
  "property_of ''altitude'' (json_of x) = map_option JNumber (jrAltitude x)"
  "property_of ''source_time'' (json_of x) = Some (JTime (jrSourceTime x))"
  by (auto simp: json_of_def omit_empty_def omit_nil_def map_add_def split: option.splits)

definition popup_lines :: "browser \<Rightarrow> position \<Rightarrow> string list" where
  "popup_lines br p =
     (if poCallsign p = [] then SourceID p else poCallsign p) # SourceID p #
     filter (\<lambda>v. v \<noteq> []) [brDateTime br (poSourceTime p)] @
     (case poAltitude p of None \<Rightarrow> [] | Some x \<Rightarrow> [''Altitude: '' @ brNumber br x @ '' m''])"

lemma SourceID_nonempty: "SourceID p \<noteq> []"
  by (simp add: SourceID_def NodeID_hex)

lemma script_on_position:
  "point_of (json_of (response_of p)) = Some (poLatitude p, poLongitude p)"
  "popup_of br (json_of (response_of p)) = popup_lines br p"
  using SourceID_nonempty [of p]
  by (simp_all add: point_of_def popup_of_def popup_lines_def text_property_def property_of_json response_of_def Let_def
      split: option.splits)

lemma place_positions:
  "place br (map (\<lambda>p. json_of (response_of p)) ps) pg =
     (True, pg\<lparr>pgMarkers := pgMarkers pg @
       map (\<lambda>p. \<lparr>mkPoint = (poLatitude p, poLongitude p), mkPopup = popup_lines br p\<rparr>) ps\<rparr>)"
  by (induction ps arbitrary: pg) (simp_all add: script_on_position)

definition shown :: "browser \<Rightarrow> position list \<Rightarrow> map_page" where
  "shown br ps = settle_view (fresh_page\<lparr>pgMarkers :=
     map (\<lambda>p. \<lparr>mkPoint = (poLatitude p, poLongitude p), mkPopup = popup_lines br p\<rparr>) ps\<rparr>)"

lemma load_positions:
  "rsStatus r = 200 \<Longrightarrow> rsBody r = Json (JArray (map (\<lambda>p. json_of (response_of p)) ps)) \<Longrightarrow> load_map br (Some r) = shown br ps"
  by (simp add: load_map_def place_positions shown_def fresh_page_def)

lemma shown_markers:
  "pgMarkers (shown br ps) =
     map (\<lambda>p. \<lparr>mkPoint = (poLatitude p, poLongitude p), mkPopup = popup_lines br p\<rparr>) ps"
  by (simp add: shown_def settle_view_def split: list.split)

lemma shown_status:
  "pgStatusHidden (shown br ps) \<longleftrightarrow> ps \<noteq> []"
  "pgStatus (shown br []) = ''No positions received yet''"
  by (auto simp: shown_def settle_view_def fresh_page_def split: list.split)

lemma scan_point: "scan_position r = Inr p \<Longrightarrow> poLatitude p = trLatitude r \<and> poLongitude p = trLongitude r"
  by (auto simp: scan_position_def split: sum.splits)

section \<open>The row that stands for a node\<close>

lemma scan_times: "time_text (trSourceTime r) \<Longrightarrow> time_text (trReceivedAt r) \<Longrightarrow> \<exists>p. scan_position r = Inr p"
  by (auto simp: time_text_def scan_position_def parseTime_def split: option.splits)

lemma scan_time:
  assumes "time_text (trSourceTime r)" "scan_position r = Inr p"
  shows "four_digit_year (poSourceTime p) \<and> trSourceTime r = formatTime (poSourceTime p)"
  using assms by (auto simp: time_text_def scan_position_def parseTime_def split: option.splits sum.splits)

text \<open>
  The query takes the greatest text of the source time. Between different seconds the texts are ordered as
  the times are; within one second they are not, see \<open>StoreQueue.subsecond_inversion\<close>.
\<close>

lemma latest_to_the_second:
  assumes "times_ok d" "is_latest d n" "scan_position n = Inr p"
    and "s \<in> set (positions d)" "trSourceNode s = trSourceNode n"
  shows "\<exists>q. scan_position s = Inr q \<and> poSourceTime q div second \<le> poSourceTime p div second"
proof -
  have rows: "n \<in> set (positions d)" "position_key s \<le> position_key n" using assms(2,4,5) by (auto simp: is_latest_def)
  then have ok: "time_text (trSourceTime n)" "time_text (trSourceTime s)" "time_text (trReceivedAt s)"
    using assms(1,4) by (auto simp: times_ok_def)
  obtain q where q: "scan_position s = Inr q" using scan_times ok(2,3) by blast
  have "trSourceTime s \<le> trSourceTime n" using rows(2) by (auto simp: position_key_def)
  then have "\<not> rfc3339_nano (poSourceTime p) < rfc3339_nano (poSourceTime q)"
    using scan_time [OF ok(1) assms(3)] scan_time [OF ok(2) q] by (simp add: formatTime_def not_less)
  then have "poSourceTime q div second \<le> poSourceTime p div second"
    using rfc3339_less_seconds scan_time [OF ok(1) assms(3)] scan_time [OF ok(2) q] by (metis not_less)
  with q show ?thesis by blast
qed

section \<open>Property\<close>

text \<open>
  C10: What the operator sees: let the database at the start satisfy the schema's constraints, with no
  negative count of attempts and rows that can be read back, and let the clock stay within the years 0 to
  9999. Then in every state the running bridge can reach, the page shows exactly one marker per node that
  has a stored position, titled with its callsign, or its id when it has none, and hides the status line.
  The marker is at the coordinates of the row that the store's query takes, the one with the greatest
  source time as stored text, and no row of the node is from a later second than this one (within a second
  the text's order is not that of the times, C37). Without positions, and when the query fails, the status
  line says so and there is no marker.
\<close>
theorem page_shows_every_node:
  assumes "bridge_reaches dp w movement heartbeat r" "world_ok w" "presentable (wdDb w)" "clock_sane (dpSchedule dp)"
  shows "let d = wdDb (rnWorld r); ask = (\<lambda>io. Some (fst (serve io d None ''GET'' ''/api/positions'')));
      pg = load_map br (ask no_faults) in
    (\<exists>ps. distinct (map SourceID ps) \<and> SourceID ` set ps = (\<lambda>r. NodeID (trSourceNode r)) ` set (positions d) \<and>
      (\<forall>p \<in> set ps. \<exists>r. is_latest d r \<and> scan_position r = Inr p \<and>
         poLatitude p = trLatitude r \<and> poLongitude p = trLongitude r \<and>
         (\<forall>s \<in> set (positions d). trSourceNode s = trSourceNode r \<longrightarrow>
            (\<exists>q. scan_position s = Inr q \<and> poSourceTime q div second \<le> poSourceTime p div second))) \<and>
      map mkPoint (pgMarkers pg) = map (\<lambda>p. (poLatitude p, poLongitude p)) ps \<and>
      map (hd \<circ> mkPopup) (pgMarkers pg) = map (\<lambda>p. if poCallsign p = [] then SourceID p else poCallsign p) ps) \<and>
    (pgStatusHidden pg \<longleftrightarrow> positions d \<noteq> []) \<and> (positions d = [] \<longrightarrow> pgStatus pg = ''No positions received yet'') \<and>
    (\<forall>io e. io Query = Some e \<longrightarrow> pgMarkers (load_map br (ask io)) = [] \<and>
      pgStatus (load_map br (ask io)) = ''Unable to load positions'')"
proof -
  let ?d = "wdDb (rnWorld r)"
  have "world_ok (rnWorld r)" using bridge_reaches_ok [OF assms(1,2)] by (simp add: running_ok_def)
  moreover have "presentable ?d"
    using bridge_reaches_tables [OF assms(1,3,4)] by (simp add: tables_ok_def)
  moreover from this have times: "times_ok ?d" by (simp add: presentable_def)
  ultimately obtain ps where ps: "rsStatus (fst (serve no_faults ?d None ''GET'' ''/api/positions'')) = 200"
      "rsBody (fst (serve no_faults ?d None ''GET'' ''/api/positions'')) = Json (JArray (map (\<lambda>p. json_of (response_of p)) ps))"
      "distinct (map SourceID ps)" "SourceID ` set ps = (\<lambda>r. NodeID (trSourceNode r)) ` set (positions ?d)"
      "\<forall>p \<in> set ps. \<exists>r. is_latest ?d r \<and> scan_position r = Inr p"
      "\<forall>io e. io Query = Some e \<longrightarrow> rsStatus (fst (serve io ?d None ''GET'' ''/api/positions'')) = 500"
    using api_answer [of ?d] by (auto simp: world_ok_def presentable_def)
  note pg = load_positions [OF ps(1,2), of br]
  have none: "ps = [] \<longleftrightarrow> positions ?d = []" using ps(4) by auto
  have titles: "map (hd \<circ> mkPopup) (pgMarkers (shown br ps)) =
      map (\<lambda>p. if poCallsign p = [] then SourceID p else poCallsign p) ps"
    by (simp add: shown_markers popup_lines_def)
  have points: "map mkPoint (pgMarkers (shown br ps)) = map (\<lambda>p. (poLatitude p, poLongitude p)) ps"
    by (simp add: shown_markers o_def)
  have rows: "\<forall>p \<in> set ps. \<exists>r. is_latest ?d r \<and> scan_position r = Inr p \<and>
      poLatitude p = trLatitude r \<and> poLongitude p = trLongitude r \<and>
      (\<forall>s \<in> set (positions ?d). trSourceNode s = trSourceNode r \<longrightarrow>
         (\<exists>q. scan_position s = Inr q \<and> poSourceTime q div second \<le> poSourceTime p div second))"
    using ps(5) scan_point latest_to_the_second [OF times] by blast
  have "pgMarkers (load_map br (Some (fst (serve io ?d None ''GET'' ''/api/positions'')))) = [] \<and>
      pgStatus (load_map br (Some (fst (serve io ?d None ''GET'' ''/api/positions'')))) = ''Unable to load positions''"
    if "io Query = Some e" for io e
    using ps(6) that by (simp add: load_map_def unable_def fresh_page_def)
  moreover have "pgStatusHidden (shown br ps) \<longleftrightarrow> positions ?d \<noteq> []" using none shown_status(1) by simp
  moreover have "positions ?d = [] \<longrightarrow> pgStatus (shown br ps) = ''No positions received yet''"
    using none shown_status(2) by metis
  ultimately show ?thesis
    unfolding Let_def pg using ps(3,4) rows points titles by (intro conjI exI [of _ ps]) simp_all
qed

definition sample_browser :: browser where
  "sample_browser = \<lparr>brNumber = \<lambda>x. ''7'', brDateTime = \<lambda>t. ''1/1/1970''\<rparr>"

text \<open>Two positions of node 42 are one marker.\<close>
theorem page_shows_every_node_witness:
  "\<exists>m. pgMarkers (load_map sample_browser
     (Some (fst (serve no_faults (wdDb sample_world) None ''GET'' ''/api/positions'')))) = [m]"
proof -
  let ?pg = "load_map sample_browser (Some (fst (serve no_faults (wdDb sample_world) None ''GET'' ''/api/positions'')))"
  have reach: "bridge_reaches sample_deployment sample_world (Fin 25) (300 * second) (sample_start sample_world)"
    by (simp add: bridge_reaches_def)
  have sane: "clock_sane (dpSchedule sample_deployment)"
    using standing_sane [OF sample_clock] by (simp add: sample_deployment_def)
  have world: "rnWorld (sample_start sample_world) = sample_world" by (simp add: started_def)
  have one: "(\<lambda>r. NodeID (trSourceNode r)) ` set (positions (wdDb sample_world)) = {NodeID 42}"
    by (simp add: sample_world_def sample_queue_def position_row_of_def sample_fix_def)
  from page_shows_every_node [OF reach sample_world_ok sample_presentable sane, of sample_browser,
      unfolded Let_def world one, THEN conjunct1]
  obtain ps where ps: "distinct (map SourceID ps)" "SourceID ` set ps = {NodeID 42}"
      "map mkPoint (pgMarkers ?pg) = map (\<lambda>p. (poLatitude p, poLongitude p)) ps"
    by (elim exE conjE)
  from ps(1,2) have "length ps = 1"
    by (cases ps; cases "tl ps") auto
  with arg_cong [OF ps(3), of length] have "length (pgMarkers ?pg) = 1" by simp
  then show ?thesis by (simp add: length_Suc_conv)
qed

end
