(* ===== verification/Spec2Isabelle.thy ===== *)
theory Spec2Isabelle
  imports Startup LiveProgress Healthy MapPage
begin

text \<open>
  Verification of the Meshtastic to CalTopo bridge, a Go daemon that reads mesh packets from a radio on a
  serial port, archives them in SQLite, decodes positions from them, and delivers the positions to
  CalTopo as live tracks; a small HTTP server shows every node's latest position.

  \<^bold>\<open>The program.\<close> \<open>run\<close> (\<^verbatim>\<open>cmd/bridge/main.go\<close>) reads the configuration (\<^verbatim>\<open>internal/config\<close>), opens the
  store (\<^verbatim>\<open>internal/store\<close>) and starts three goroutines. The serial source (\<^verbatim>\<open>internal/meshtastic\<close>)
  reconnects to the port, frames its bytes and calls the ingest service (\<^verbatim>\<open>internal/ingest\<close>) for each
  message; the service decodes the packet (\<^verbatim>\<open>internal/tak\<close>, with the messages of \<^verbatim>\<open>internal/takproto\<close>),
  archives it, queues its position and wakes the worker. The worker (\<^verbatim>\<open>internal/caltopo/worker.go\<close>)
  takes due deliveries from the store, filters them and publishes through the adapter
  (\<^verbatim>\<open>internal/caltopo/adapter.go\<close>). The HTTP server (\<^verbatim>\<open>internal/web\<close>) reads the store.

  \<^bold>\<open>The basis.\<close> \<open>Prelude\<close> has the machine types, Go's errors as values (\<open>errors.Is\<close>, \<open>errors.Join\<close>) and
  text helpers; \<open>Float64\<close> Go's doubles as rationals with the special values, the order of \<open>slices.Sort\<close>,
  the rounding of a product and \<open>%.7f\<close>; \<open>GoTime\<close> times as nanoseconds, RFC 3339 written and read;
  \<open>GoText\<close> \<open>utf8.Valid\<close>, \<open>strings.TrimSpace\<close> and hexadecimal text.

  \<^bold>\<open>Components.\<close> Each theory opens with what it models; definitions carry the code's names, a record has
  the code's fields with a prefix, an error is a value, a panic and a loop that does not return are None.
  \<^item> \<open>Framer\<close> (\<^verbatim>\<open>framer.go\<close>): \<open>push\<close>, \<open>encode_frame\<close>. Feeding a stream in any pieces gives the same
    frames; what is encoded is decoded; garbage is skipped.
  \<^item> \<open>Model\<close>, \<open>TakProto\<close>, \<open>Decoder\<close> (\<^verbatim>\<open>model.go\<close>, \<^verbatim>\<open>tak.pb.go\<close>, \<^verbatim>\<open>decoder.go\<close>): \<open>DecodeWithOptions\<close>
    on every port and every error, coordinates in range and exact.
  \<^item> \<open>Store\<close> (\<^verbatim>\<open>store.go\<close>): the tables as lists of rows in the record \<open>db\<close>, every operation with the
    driver's failures as an argument, the SQL queries as list comprehensions. \<open>StoreArchive\<close> has the
    invariant of the tables, \<open>StoreKey\<close> the deduplication key, \<open>StoreQueue\<close> the per-node delivery queue
    and its order, \<open>StoreNodes\<close> the directory, the tracks and the latest positions, \<open>StoreHistory\<close> what
    every sequence of operations keeps, beyond what the schema enforces. \<open>Migration\<close> is the schema and \<open>migrate\<close> over a catalog.
  \<^item> \<open>PositionFilter\<close>, \<open>Distance\<close>, \<open>FilterHistory\<close> (\<^verbatim>\<open>worker.go\<close>): the filter, and that it implements a
    specification that remembers one node's whole history.
  \<^item> \<open>Worker\<close> and \<open>Adapter\<close>: \<open>drain\<close>, the loop around it, \<open>Publish\<close>, over the interfaces of the code.
  \<^item> \<open>Ingest\<close> (\<^verbatim>\<open>service.go\<close>): \<open>Handle\<close>. \<open>Serial\<close>, \<open>SerialLive\<close> (\<^verbatim>\<open>serial.go\<close>): \<open>Run\<close> and \<open>consume\<close>.
  \<^item> \<open>Config\<close> (\<^verbatim>\<open>config.go\<close>): \<open>Parse\<close> and \<open>Validate\<close>. \<open>Web\<close>, \<open>MapPage\<close> (\<^verbatim>\<open>server.go\<close>): the
    routes, the handlers and the page's script.

  \<^bold>\<open>Interfaces.\<close> Where a component relies on another, its laws are a locale, proved on the provider's
  model by an interpretation: \<open>delivery_queue\<close> and \<open>timed_queue\<close> (worker on store, interpreted in
  \<open>World\<close>), \<open>track_mapping\<close> (adapter on store, \<open>World\<close>), \<open>packet_archive\<close> (ingest on store, \<open>Intake\<close>),
  \<open>message_reader\<close>, \<open>message_sink\<close>, \<open>request_writer\<close>, \<open>patient_source\<close>, \<open>port_holder\<close> and \<open>sleep_log\<close>
  (serial source on the rest, \<open>Bridge\<close> and \<open>Startup\<close>).

  \<^bold>\<open>Composition.\<close>
  \<^item> \<open>World\<close> wires worker, adapter and store on one state; \<open>Delivery\<close> says what a drain does to the queue.
  \<^item> \<open>Intake\<close> wires the ingest service on the same state; \<open>Bridge\<close> puts the serial source in front of it:
    bytes read to rows written.
  \<^item> \<open>Interleaving\<close> runs the handler and the worker concurrently, one call at a time, with the wake-up
    channel, the ticker and the cancellation. Its invariant \<open>running_ok\<close> says what the worker may rely
    on while the handler runs. Run alone, each side's steps are \<open>Handle\<close> and \<open>drain_loop\<close>.
  \<^item> \<open>System\<close> adds that the tables stay presentable, that what was handled is archived once and in order,
    and that a delivery leaves the queue only when it was decided, and draws the consequences for the
    map and the queue.
  \<^item> \<open>Recovery\<close> strings any number of processes with CalTopo together, each killed at any step and started
    again on the database it left; a position that a process without CalTopo has stored is never queued. \<open>Healthy\<close> follows the queue to its end when CalTopo accepts every request (the
    hypothesis \<open>healthy\<close> on the client).
  \<^item> \<open>Live\<close> adds the goroutine of the serial source, one read or one frame at a time, in front of the handler of
    \<open>Interleaving\<close>: bytes on the wire to rows in the archive, with the worker running in between. Its steps
    are steps of \<open>Interleaving\<close>, so what holds there holds here; run alone, they are \<open>Run\<close>.
    \<open>LiveProgress\<close>: the intake catches up.
  \<^item> \<open>Process\<close> is \<open>run\<close>: the start with all its early returns, and the shutdown of the goroutines as a
    step relation over the error channel and the context. \<open>Startup\<close> shows that what a successful start
    has wired is the deployment that \<open>Live\<close> runs, with the configuration's values, and what then holds in
    every state; without CalTopo, that nothing is ever queued.

  \<^bold>\<open>Bounds and loops.\<close> There is no fuel. Loops that end are total functions with a measure (\<open>push_loop\<close>,
  \<open>writeAll\<close>). Loops that may run for ever (\<open>drain_loop\<close>, \<open>handle_message\<close>, \<open>read_loop\<close>, \<open>connect_loop\<close>)
  are partial functions into \<open>option\<close>; that they return is proved separately, in \<open>Delivery\<close> under a
  standing clock, in \<open>Bridge\<close> for a port that fails at some read and a database that works again after
  some number of calls. The shutdown ends by a measure on the process state.

  \<^bold>\<open>Parameters.\<close> The protobuf library and the Meshtastic messages (\<open>pb_lib\<close>, \<open>radio_lib\<close>), the gotopo
  client (\<open>gotopo\<close>), the serial port (\<open>port_script\<close>), the clock and the driver's failures (\<open>schedule\<close>,
  \<open>faults\<close>), SHA-256, the distance in the filter (\<open>distance\<close>; \<open>Distance\<close> has the code's, over the reals),
  \<open>strconv.ParseInt\<close>, \<open>ParseFloat\<close> and \<open>time.ParseDuration\<close>, the operating system (\<open>os\<close>) and the browser's
  texts for numbers and dates (\<open>browser\<close>).

  \<^bold>\<open>Not modelled.\<close> The generated reflection code of \<^verbatim>\<open>tak.pb.go\<close> (descriptors, \<open>String\<close>, \<open>ProtoReflect\<close>),
  which only calls the protobuf runtime. The layout of the HTML page, Leaflet, and the
  text form of JSON. Log lines other than those of the ingest and HTTP handlers, and the debug output.
  The mutexes of the service and the adapter: each is taken by one goroutine only. SQLite's indexes,
  the pragmas' effects and \<open>applied_at\<close>, which no query reads. Publications are one step of the interleaving: their calls
  touch the tracks and the client, which no other goroutine uses. The 30 seconds of the ticker and the
  deadlines of the contexts: a step may happen at any time, and an expired deadline is an error of the
  call.
\<close>

end
